(* ===== verification/Gateway_Prelude.thy ===== *)
theory Gateway_Prelude
  imports
    Main
    "HOL-Library.Word"
    "HOL-Library.AList"
    "HOL-Library.Char_ord"
    "HOL-Library.List_Lexorder"
    "HOL-Library.Multiset"
begin

text \<open>
  Shared vocabulary of the development: names for Go's machine types, the model of Go maps as
  association lists with pairwise distinct keys, the separator-joined keys the stores use, and the
  contracts that several components implement: a state machine with an invariant, a bounded
  log that drops its oldest entry, and a step relation whose executions keep an invariant and
  run out of work. The collection \<open>gw_defs\<close> gathers the
  operations that only pass a call on, which proofs about their callers unfold.
\<close>

unbundle bit_operations_syntax

named_theorems gw_defs \<open>operations that are one call of another component\<close>

section \<open>Go's types\<close>

type_synonym u64 = "64 word"
type_synonym u32 = "32 word"
type_synonym byte = "8 word"
type_synonym bytes = "8 word list"

text \<open>
  A \<open>time.Time\<close> is an instant on an integer scale whose zero is Go's zero time (the value
  \<open>IsZero\<close> tests for); a \<open>time.Duration\<close> is a difference of two instants. The clock is never
  read inside the model: each reading of \<open>time.Now\<close> is an argument. A \<open>uuid.UUID\<close> is sixteen
  bytes; the ones \<open>uuid.NewV7\<close> draws are arguments too.
\<close>

type_synonym time = int
type_synonym duration = int
type_synonym uuid = "128 word"

definition second :: duration where
  "second = 1000000000"

abbreviation zero_time :: time where "zero_time \<equiv> 0"
abbreviation zero_uuid :: uuid where "zero_uuid \<equiv> 0"

section \<open>Depths\<close>

text \<open>
  The depth of a block under a tip is counted as \<open>tip - height + 1\<close> at 64 bits: exact when the tip
  is not below the block, and wrapped around when it is.
\<close>

lemma unat_confs:
  fixes tip h :: u64
  assumes "h \<noteq> 0" and "h \<le> tip"
  shows "unat (tip - h + 1) = unat tip - unat h + 1"
proof -
  have "unat (tip - h) = unat tip - unat h" using assms(2) by (rule unat_sub)
  moreover have "0 < unat h" using assms(1) by (simp add: unat_gt_0)
  moreover have "unat tip < 2 ^ 64" using unsigned_less [of tip] by simp
  ultimately show ?thesis by (simp add: unat_word_ariths)
qed

lemma unat_confs_stale:
  fixes tip h :: u64
  assumes "unat tip + 1 < unat h"
  shows "unat (tip - h + 1) = 2 ^ 64 + unat tip + 1 - unat h"
proof -
  have b: "unat h < 2 ^ 64" using unsigned_less [of h] by simp
  with assms have "unat (tip - h) = 2 ^ 64 + unat tip - unat h"
    by (simp add: unat_sub_if_size word_size)
  with assms b show ?thesis by (simp add: unat_word_ariths Suc_diff_le)
qed

section \<open>Go maps\<close>

text \<open>
  A Go map is an association list. Go iterates over a map in an unspecified order; the model
  iterates in the order of the list, and the results that depend on an iteration are proved
  independent of that order where the code sorts afterwards.
\<close>

type_synonym ('k, 'v) gomap = "('k \<times> 'v) list"

definition wf_map :: "('k, 'v) gomap \<Rightarrow> bool" where
  "wf_map m \<longleftrightarrow> distinct (map fst m)"

lemma wf_map_Nil [simp]: "wf_map []"
  by (simp add: wf_map_def)

lemma wf_map_update [simp, intro]: "wf_map m \<Longrightarrow> wf_map (AList.update k v m)"
  by (simp add: wf_map_def distinct_update)

lemma wf_map_delete [simp, intro]: "wf_map m \<Longrightarrow> wf_map (AList.delete k m)"
  by (simp add: wf_map_def distinct_delete)

lemma map_of_update [simp]: "map_of (AList.update k v m) = (map_of m)(k \<mapsto> v)"
  by (simp add: update_conv')

lemma map_of_delete [simp]: "map_of (AList.delete k m) = (map_of m)(k := None)"
  by (simp add: delete_conv')

lemma map_of_perm:
  assumes "wf_map m" and "mset m = mset m'"
  shows "map_of m = map_of m'"
proof -
  have "mset (map fst m) = mset (map fst m')" using assms(2) by simp
  then have "distinct (map fst m')"
    using assms(1) unfolding wf_map_def by (metis mset_eq_imp_distinct_iff)
  moreover have "set m = set m'" using assms(2) by (rule mset_eq_setD)
  ultimately show ?thesis using assms(1) by (simp add: wf_map_def map_of_inject_set)
qed

section \<open>Separator-joined keys\<close>

text \<open>
  Every store and tracker joins a chain id and a transaction hash with a vertical bar. The key is
  unambiguous when the first component holds no bar.
\<close>

definition sep_free :: "string \<Rightarrow> bool" where
  "sep_free s \<longleftrightarrow> CHR ''|'' \<notin> set s"

lemma append_sep_inject:
  assumes "x \<notin> set a" and "x \<notin> set b" and "a @ x # s = b @ x # t"
  shows "a = b \<and> s = t"
  using assms
proof (induction a arbitrary: b)
  case Nil
  then show ?case by (cases b) auto
next
  case (Cons y a)
  then show ?case by (cases b) auto
qed

section \<open>Sorted listings\<close>

text \<open>
  Go's \<open>sort.Slice\<close> is not stable. Where the sort keys are pairwise distinct there is only one
  sorted arrangement, so \<open>sort_key\<close> computes it.
\<close>

lemma sorted_arrangement_unique:
  assumes "mset xs = mset ys" and "distinct (map f xs)"
    and "sorted (map f xs)" and "sorted (map f ys)"
  shows "xs = ys"
proof (rule map_sorted_distinct_set_unique [where f = f])
  show "set xs = set ys" using assms(1) by (rule mset_eq_setD)
  then show "inj_on f (set xs \<union> set ys)" using assms(2) by (simp add: distinct_map)
  have "mset (map f xs) = mset (map f ys)" using assms(1) by simp
  then show "distinct (map f ys)" using assms(2) by (metis mset_eq_imp_distinct_iff)
qed (use assms in auto)

lemma sort_key_perm:
  assumes "mset xs = mset ys" and "distinct (map f xs)"
  shows "sort_key f xs = sort_key f ys"
proof (rule sorted_arrangement_unique [where f = f])
  show "mset (sort_key f xs) = mset (sort_key f ys)" using assms(1) by simp
  have "mset (map f (sort_key f xs)) = mset (map f xs)" by simp
  then show "distinct (map f (sort_key f xs))" using assms(2) by (metis mset_eq_imp_distinct_iff)
qed simp_all

lemma sort_key_snoc:
  assumes "\<forall>y \<in> set xs. f y \<le> f x"
  shows "sort_key f (xs @ [x]) = sort_key f xs @ [x]"
proof (rule properties_for_sort_key)
  fix k
  have flip: "(\<lambda>y. f k = f y) = (\<lambda>y. f y = f k)" by auto
  show "filter (\<lambda>y. f k = f y) (sort_key f xs @ [x]) = filter (\<lambda>y. f k = f y) (xs @ [x])"
    unfolding flip filter_append sort_key_stable ..
qed (use assms in \<open>auto simp: sorted_append\<close>)

section \<open>Counting after an update\<close>

lemma filter_update_same:
  "i < length xs \<Longrightarrow> P (xs ! i) \<Longrightarrow> P y \<Longrightarrow> length (filter P (xs[i := y])) = length (filter P xs)"
  by (induction xs arbitrary: i) (auto split: nat.splits)

lemma filter_update_less:
  "i < length xs \<Longrightarrow> P (xs ! i) \<Longrightarrow> \<not> P y \<Longrightarrow> Suc (length (filter P (xs[i := y]))) = length (filter P xs)"
  by (induction xs arbitrary: i) (auto split: nat.splits)

lemma sum_list_update_less:
  "i < length xs \<Longrightarrow> f y < f (xs ! i) \<Longrightarrow> sum_list (map f (xs[i := y])) < (sum_list (map f xs) :: nat)"
  by (induction xs arbitrary: i) (auto split: nat.splits)

section \<open>Machines with an invariant\<close>

text \<open>
  A component that handles one event at a time is a step function. What every step keeps, a whole
  run keeps; a relation between a state and its successor that is reflexive and transitive relates
  the two ends of a run.
\<close>

definition run :: "('s \<Rightarrow> 'e \<Rightarrow> 's) \<Rightarrow> 's \<Rightarrow> 'e list \<Rightarrow> 's" where
  "run step s es = foldl step s es"

lemma run_Nil [simp]: "run step s [] = s"
  by (simp add: run_def)

lemma run_Cons [simp]: "run step s (e # es) = run step (step s e) es"
  by (simp add: run_def)

lemma run_append [simp]: "run step s (es @ fs) = run step (run step s es) fs"
  by (simp add: run_def)

locale machine =
  fixes step :: "'s \<Rightarrow> 'e \<Rightarrow> 's"
    and inv :: "'s \<Rightarrow> bool"
  assumes step_inv: "inv s \<Longrightarrow> inv (step s e)"
begin

lemma run_inv: "inv s \<Longrightarrow> inv (run step s es)"
  by (induction es arbitrary: s) (auto simp: step_inv)

end

text \<open>A machine whose steps only ever move forward along a preorder.\<close>

locale progress_machine = machine +
  fixes le :: "'s \<Rightarrow> 's \<Rightarrow> bool"
  assumes le_refl: "le s s"
    and le_trans: "le s t \<Longrightarrow> le t u \<Longrightarrow> le s u"
    and step_le: "inv s \<Longrightarrow> le s (step s e)"
begin

lemma run_le: "inv s \<Longrightarrow> le s (run step s es)"
proof (induction es arbitrary: s)
  case Nil
  show ?case by (simp add: le_refl)
next
  case (Cons e es)
  from Cons.prems have "le (step s e) (run step (step s e) es)"
    by (intro Cons.IH step_inv)
  with step_le [OF Cons.prems] show ?case by (auto intro: le_trans)
qed

end

section \<open>Bounded logs\<close>

text \<open>
  Three places of the gateway keep the most recent entries of a stream: the fee estimator's block
  samples, the audit log's ring and the head subscriptions' channel buffers. Each appends and, past
  its capacity, drops from the front.
\<close>

definition lastn :: "nat \<Rightarrow> 'a list \<Rightarrow> 'a list" where
  "lastn n xs = drop (length xs - n) xs"

lemma length_lastn [simp]: "length (lastn n xs) = min n (length xs)"
  by (simp add: lastn_def)

lemma lastn_all: "length xs \<le> n \<Longrightarrow> lastn n xs = xs"
  by (simp add: lastn_def)

lemma lastn_lastn_snoc: "lastn n (lastn n xs @ [x]) = lastn n (xs @ [x])"
  by (cases "length xs \<le> n") (auto simp: lastn_def Suc_diff_le)

lemma lastn_suffix: "\<exists>ys. xs = ys @ lastn n xs"
  by (metis append_take_drop_id lastn_def)

locale bounded_log =
  fixes push :: "'s \<Rightarrow> 'a \<Rightarrow> 's"
    and items :: "'s \<Rightarrow> 'a list"
    and cap :: "'s \<Rightarrow> nat"
  assumes items_push: "length (items s) \<le> cap s \<Longrightarrow> items (push s x) = lastn (cap s) (items s @ [x])"
    and cap_push: "cap (push s x) = cap s"
begin

lemma cap_run: "cap (run push s xs) = cap s"
  by (induction xs arbitrary: s) (auto simp: cap_push)

lemma items_run:
  "length (items s) \<le> cap s \<Longrightarrow> items (run push s xs) = lastn (cap s) (items s @ xs)"
proof (induction xs rule: rev_induct)
  case Nil
  then show ?case by (simp add: lastn_all)
next
  case (snoc x xs)
  then have "items (run push s xs) = lastn (cap s) (items s @ xs)" by simp
  then show ?case
    using lastn_lastn_snoc [of "cap s" "items s @ xs" x] by (simp add: items_push cap_run)
qed

lemma run_bounded: "length (items s) \<le> cap s \<Longrightarrow> length (items (run push s xs)) \<le> cap s"
  by (simp add: items_run)

lemma newest_kept:
  "length (items s) \<le> cap s \<Longrightarrow> 0 < cap s \<Longrightarrow> last (items (push s x)) = x \<and> items (push s x) \<noteq> []"
  by (auto simp: items_push lastn_def)

end

section \<open>Step relations\<close>

text \<open>
  Where goroutines interleave, a component is a relation between a state, a label and a next state;
  \<open>steps\<close> is a finite execution with its labels. What every step keeps, every execution keeps; and an
  execution shows a bounded number of the labels that a measure counts down.
\<close>

inductive steps :: "('s \<Rightarrow> 'l \<Rightarrow> 's \<Rightarrow> bool) \<Rightarrow> 's \<Rightarrow> 'l list \<Rightarrow> 's \<Rightarrow> bool" for step where
  steps_Nil [simp, intro]: "steps step s [] s"
| steps_Cons: "step s l t \<Longrightarrow> steps step t ls u \<Longrightarrow> steps step s (l # ls) u"

inductive_simps steps_Nil_iff [simp]: "steps step s [] t"
inductive_simps steps_Cons_iff: "steps step s (l # ls) t"

lemma steps_append: "steps step s ls t \<Longrightarrow> steps step t ms u \<Longrightarrow> steps step s (ls @ ms) u"
  by (induction rule: steps.induct) (auto intro: steps_Cons)

lemma steps_single: "step s l t \<Longrightarrow> steps step s [l] t"
  by (auto intro: steps_Cons)

lemma steps_snoc: "steps step s ls t \<Longrightarrow> step t l u \<Longrightarrow> steps step s (ls @ [l]) u"
  by (rule steps_append) (auto intro: steps_single)

lemma steps_split:
  assumes "steps step s ls t" and "l \<in> set ls"
  obtains ls1 u v ls2 where "ls = ls1 @ l # ls2" "steps step s ls1 u" "step u l v" "steps step v ls2 t"
  using assms
proof (induction arbitrary: thesis rule: steps.induct)
  case (steps_Cons s k t ls u)
  show ?case
  proof (cases "k = l")
    case True
    with steps_Cons.hyps steps_Cons.prems(1) [of "[]"] show ?thesis by auto
  next
    case False
    with steps_Cons.prems(2) have "l \<in> set ls" by simp
    then show ?thesis
    proof (rule steps_Cons.IH [rotated])
      fix ls1 v w ls2
      assume "ls = ls1 @ l # ls2" "steps step t ls1 v" "step v l w" "steps step w ls2 u"
      with steps_Cons.hyps(1) steps_Cons.prems(1) [of "k # ls1"] show ?thesis
        by (auto intro: steps.steps_Cons)
    qed
  qed
qed simp

locale step_system =
  fixes step :: "'s \<Rightarrow> 'l \<Rightarrow> 's \<Rightarrow> bool"
    and inv :: "'s \<Rightarrow> bool"
  assumes step_inv: "step s l t \<Longrightarrow> inv s \<Longrightarrow> inv t"
begin

lemma steps_inv: "steps step s ls t \<Longrightarrow> inv s \<Longrightarrow> inv t"
  by (induction rule: steps.induct) (auto intro: step_inv)

end

text \<open>
  A system whose work runs out: every label that counts as work lowers the measure and no other label
  raises it.
\<close>

locale bounded_system = step_system +
  fixes work :: "'l \<Rightarrow> bool"
    and left :: "'s \<Rightarrow> nat"
  assumes work_lowers: "step s l t \<Longrightarrow> inv s \<Longrightarrow> work l \<Longrightarrow> left t < left s"
    and other_keeps: "step s l t \<Longrightarrow> inv s \<Longrightarrow> \<not> work l \<Longrightarrow> left t \<le> left s"
begin

lemma steps_work: "steps step s ls t \<Longrightarrow> inv s \<Longrightarrow> length (filter work ls) + left t \<le> left s"
proof (induction rule: steps.induct)
  case (steps_Cons s l t ls u)
  then have "length (filter work ls) + left u \<le> left t" by (simp add: step_inv)
  with work_lowers [OF steps_Cons.hyps(1) steps_Cons.prems] other_keeps [OF steps_Cons.hyps(1) steps_Cons.prems]
  show ?case by (cases "work l") auto
qed simp

end

end
