(* ===== verification/Go_Lib.thy ===== *)
theory Go_Lib
  imports Gateway_Prelude
begin

text \<open>
  The parts of Go's standard library the gateway uses on strings and bytes: decimal and hexadecimal
  rendering (\<open>fmt.Sprintf("%d")\<close>, \<open>encoding/hex\<close>), the scanning that reads them back
  (\<open>fmt.Sscanf\<close> with \<open>%d\<close> and \<open>%x\<close> into a \<open>uint64\<close>, \<open>hex.DecodeString\<close>), and prefix
  tests. Strings are byte strings, as in Go; \<open>Sscanf\<close> is modelled on ASCII input.
\<close>

section \<open>Digits\<close>

definition digit_char :: "nat \<Rightarrow> char" where
  "digit_char d = ''0123456789abcdef'' ! d"

definition is_digit :: "char \<Rightarrow> bool" where
  "is_digit c \<longleftrightarrow> c \<in> set ''0123456789''"

text \<open>The value of a digit, in upper or lower case; sixteen for any other character.\<close>

definition digit_val :: "char \<Rightarrow> nat" where
  "digit_val c =
     (let n = (of_char c :: nat) in
      if 48 \<le> n \<and> n \<le> 57 then n - 48
      else if 97 \<le> n \<and> n \<le> 102 then n - 87
      else if 65 \<le> n \<and> n \<le> 70 then n - 55
      else 16)"

lemma digit_val_char [simp]: "d < 16 \<Longrightarrow> digit_val (digit_char d) = d"
proof -
  have "\<forall>d \<in> set [0..<16]. digit_val (digit_char d) = d" by code_simp
  then show "d < 16 \<Longrightarrow> ?thesis" by simp
qed

lemma is_digit_char [simp]: "d < 10 \<Longrightarrow> is_digit (digit_char d)"
proof -
  have "\<forall>d \<in> set [0..<10]. is_digit (digit_char d)" by code_simp
  then show "d < 10 \<Longrightarrow> ?thesis" by simp
qed

section \<open>Decimal\<close>

fun decimal :: "nat \<Rightarrow> string" where
  "decimal n = (if n < 10 then [digit_char n] else decimal (n div 10) @ [digit_char (n mod 10)])"

declare decimal.simps [simp del]

definition digits_value :: "nat \<Rightarrow> string \<Rightarrow> nat" where
  "digits_value base ds = foldl (\<lambda>a c. a * base + digit_val c) 0 ds"

lemma digits_value_snoc [simp]:
  "digits_value b (ds @ [c]) = digits_value b ds * b + digit_val c"
  by (simp add: digits_value_def)

lemma digits_value_decimal [simp]: "digits_value 10 (decimal n) = n"
proof (induction n rule: decimal.induct)
  case (1 n)
  then show ?case
    by (cases "n < 10") (simp_all add: decimal.simps [of n], simp add: digits_value_def)
qed

lemma decimal_inject [simp]: "decimal m = decimal n \<longleftrightarrow> m = n"
  by (metis digits_value_decimal)

lemma decimal_not_Nil [simp]: "decimal n \<noteq> []"
  by (subst decimal.simps) simp

lemma decimal_digits: "c \<in> set (decimal n) \<Longrightarrow> is_digit c"
proof (induction n rule: decimal.induct)
  case (1 n)
  then show ?case
    by (cases "n < 10") (auto simp: decimal.simps [of n])
qed

lemma decimal_sep_free [simp]: "sep_free (decimal n)"
  by (auto simp: sep_free_def is_digit_def dest: decimal_digits)

section \<open>Scanning\<close>

definition go_blank :: "char \<Rightarrow> bool" where
  "go_blank c \<longleftrightarrow> (of_char c :: nat) \<in> {9, 11, 12, 13, 32}"

text \<open>
  \<open>fmt.Sscanf(s, "%d", &v)\<close> for a \<open>uint64\<close> skips blanks, takes the longest run of digits and
  fails when there is none or its value does not fit; what follows the digits is not read. The verb
  \<open>%x\<close> does the same in base sixteen.
\<close>

definition sscanf_u64 :: "nat \<Rightarrow> (char \<Rightarrow> bool) \<Rightarrow> string \<Rightarrow> u64 option" where
  "sscanf_u64 base isdig s =
     (let ds = takeWhile isdig (dropWhile go_blank s) in
      if ds = [] then None
      else if digits_value base ds < 2 ^ 64 then Some (of_nat (digits_value base ds))
      else None)"

definition sscanf_d :: "string \<Rightarrow> u64 option" where
  "sscanf_d = sscanf_u64 10 is_digit"

definition sscanf_x :: "string \<Rightarrow> u64 option" where
  "sscanf_x = sscanf_u64 16 (\<lambda>c. digit_val c < 16)"

lemma digit_not_blank: "is_digit c \<Longrightarrow> \<not> go_blank c"
  by (auto simp: is_digit_def go_blank_def)

lemma dropWhile_id: "xs \<noteq> [] \<Longrightarrow> \<not> P (hd xs) \<Longrightarrow> dropWhile P xs = xs"
  by (cases xs) auto

lemma sscanf_d_decimal [simp]: "sscanf_d (decimal (unat w)) = Some w"
proof -
  have "hd (decimal (unat w)) \<in> set (decimal (unat w))" by simp
  then have "\<not> go_blank (hd (decimal (unat w)))"
    by (intro digit_not_blank decimal_digits)
  then have dw: "dropWhile go_blank (decimal (unat w)) = decimal (unat w)"
    by (simp add: dropWhile_id)
  have tw: "takeWhile is_digit (decimal (unat w)) = decimal (unat w)"
    by (simp add: takeWhile_eq_all_conv decimal_digits)
  have "unat w < 2 ^ 64" using unsigned_less [of w] by simp
  then show ?thesis by (simp add: sscanf_d_def sscanf_u64_def dw tw)
qed

section \<open>Hexadecimal\<close>

definition hex_byte :: "byte \<Rightarrow> string" where
  "hex_byte b = [digit_char (unat (drop_bit 4 b)), digit_char (unat (b AND 0xf))]"

definition hex_encode :: "bytes \<Rightarrow> string" where
  "hex_encode bs = concat (map hex_byte bs)"

text \<open>
  \<open>hex.DecodeString\<close>: pairs of digits in either case; an invalid character or a dangling digit is
  an error (\<open>None\<close>).
\<close>

fun hex_decode :: "string \<Rightarrow> bytes option" where
  "hex_decode [] = Some []"
| "hex_decode [c] = None"
| "hex_decode (c # d # s) =
     (if digit_val c < 16 \<and> digit_val d < 16
      then map_option (\<lambda>bs. of_nat (digit_val c * 16 + digit_val d) # bs) (hex_decode s)
      else None)"

lemma unat_high_nibble: "unat (drop_bit 4 (b :: byte)) = unat b div 16"
  by (simp add: drop_bit_eq_div unat_div_distrib)

lemma unat_low_nibble: "unat ((b :: byte) AND 0xf) = unat b mod 16"
proof -
  have "b AND 0xf = take_bit 4 b" by (simp add: take_bit_eq_mask mask_eq_exp_minus_1)
  then show ?thesis by (simp add: take_bit_eq_mod unat_mod_distrib)
qed

lemma nibbles_less [simp]:
  "unat (drop_bit 4 (b :: byte)) < 16" "unat ((b :: byte) AND 0xf) < 16"
  using unsigned_less [of b, where 'a = nat]
  by (auto simp: unat_high_nibble unat_low_nibble)

lemma nibbles_join [simp]:
  "unat (drop_bit 4 (b :: byte)) * 16 + unat (b AND 0xf) = unat b"
  by (simp add: unat_high_nibble unat_low_nibble)

lemma hex_byte_inject [simp]: "hex_byte a = hex_byte b \<longleftrightarrow> a = b"
proof
  assume "hex_byte a = hex_byte b"
  then have "digit_val (digit_char (unat (drop_bit 4 a))) = digit_val (digit_char (unat (drop_bit 4 b)))"
    and "digit_val (digit_char (unat (a AND 0xf))) = digit_val (digit_char (unat (b AND 0xf)))"
    by (simp_all add: hex_byte_def)
  then have "unat a = unat b" by (metis digit_val_char nibbles_join nibbles_less)
  then show "a = b" by (simp add: word_unat_eq_iff)
qed simp

lemma length_hex_byte [simp]: "length (hex_byte b) = 2"
  by (simp add: hex_byte_def)

lemma length_hex_encode [simp]: "length (hex_encode bs) = 2 * length bs"
  by (induction bs) (simp_all add: hex_encode_def)

lemma hex_encode_inject [simp]: "hex_encode as = hex_encode bs \<longleftrightarrow> as = bs"
proof (induction as arbitrary: bs)
  case Nil
  then show ?case by (cases bs) (simp_all add: hex_encode_def hex_byte_def)
next
  case (Cons a as)
  then show ?case
  proof (cases bs)
    case (Cons b bs')
    with Cons.IH [of bs'] show ?thesis by (auto simp: hex_encode_def)
  qed (simp add: hex_encode_def hex_byte_def)
qed

lemma hex_decode_encode [simp]: "hex_decode (hex_encode bs) = Some bs"
  by (induction bs) (simp_all add: hex_encode_def hex_byte_def)

section \<open>Prefixes\<close>

definition has_prefix :: "string \<Rightarrow> string \<Rightarrow> bool" where
  "has_prefix s p \<longleftrightarrow> take (length p) s = p"

definition trim_prefix :: "string \<Rightarrow> string \<Rightarrow> string" where
  "trim_prefix s p = (if has_prefix s p then drop (length p) s else s)"

lemma has_prefix_append [simp]: "has_prefix (p @ s) p"
  by (simp add: has_prefix_def)

lemma trim_prefix_append [simp]: "trim_prefix (p @ s) p = s"
  by (simp add: trim_prefix_def)

section \<open>Splitting, trimming and searching\<close>

text \<open>\<open>strings.Split\<close> at a one-character separator.\<close>

fun go_split :: "char \<Rightarrow> string \<Rightarrow> string list" where
  "go_split sep [] = [[]]"
| "go_split sep (c # s) =
     (if c = sep then [] # go_split sep s
      else (case go_split sep s of [] \<Rightarrow> [[c]] | w # ws \<Rightarrow> (c # w) # ws))"

definition go_join :: "char \<Rightarrow> string list \<Rightarrow> string" where
  "go_join sep ws = (case ws of [] \<Rightarrow> [] | w # ws \<Rightarrow> w @ concat (map ((#) sep) ws))"

lemma go_split_not_Nil [simp]: "go_split sep s \<noteq> []"
  by (induction s) (auto split: list.splits)

lemma go_split_free: "sep \<notin> set s \<Longrightarrow> go_split sep s = [s]"
  by (induction s) auto

lemma go_split_append:
  "sep \<notin> set w \<Longrightarrow> go_split sep (w @ sep # s) = w # go_split sep s"
  by (induction w) auto

lemma go_join_split [simp]: "go_join sep (go_split sep s) = s"
proof (induction s)
  case Nil
  show ?case by (simp add: go_join_def)
next
  case (Cons c s)
  then show ?case by (cases "go_split sep s") (auto simp: go_join_def)
qed

lemma go_split_join:
  "ws \<noteq> [] \<Longrightarrow> \<forall>w \<in> set ws. sep \<notin> set w \<Longrightarrow> go_split sep (go_join sep ws) = ws"
proof (induction ws)
  case (Cons w ws)
  then show ?case
    by (cases ws) (auto simp: go_join_def go_split_free go_split_append)
qed simp

text \<open>\<open>strings.TrimSpace\<close> on ASCII strings.\<close>

definition ascii_space :: "char \<Rightarrow> bool" where
  "ascii_space c \<longleftrightarrow> (of_char c :: nat) \<in> {9, 10, 11, 12, 13, 32}"

definition trim_space :: "string \<Rightarrow> string" where
  "trim_space s = rev (dropWhile ascii_space (rev (dropWhile ascii_space s)))"

lemma trim_space_id: "\<forall>c \<in> set s. \<not> ascii_space c \<Longrightarrow> trim_space s = s"
proof -
  have drop: "dropWhile ascii_space w = w" if "\<forall>c \<in> set w. \<not> ascii_space c" for w
    using that by (cases w) auto
  assume "\<forall>c \<in> set s. \<not> ascii_space c"
  then show ?thesis by (simp add: trim_space_def drop)
qed

text \<open>The comma-separated lists of the configuration: trimmed, with the empty parts left out.\<close>

definition csv_parts :: "string \<Rightarrow> string list" where
  "csv_parts s = filter (\<lambda>p. p \<noteq> []) (map trim_space (go_split CHR '','' s))"

lemma csv_parts_join:
  assumes "ws \<noteq> []" and "\<forall>w \<in> set ws. w \<noteq> [] \<and> CHR '','' \<notin> set w \<and> (\<forall>c \<in> set w. \<not> ascii_space c)"
  shows "csv_parts (go_join CHR '','' ws) = ws"
proof -
  have "map trim_space ws = ws" using assms(2) by (simp add: map_idI trim_space_id)
  moreover have "filter (\<lambda>p. p \<noteq> []) ws = ws" using assms(2) by (simp add: filter_id_conv)
  ultimately show ?thesis using assms by (simp add: csv_parts_def go_split_join)
qed

text \<open>A string cut at the first occurrence of a character, as \<open>strings.Index\<close> and slicing cut it.\<close>

definition go_cut :: "char \<Rightarrow> string \<Rightarrow> string \<times> string option" where
  "go_cut c s =
     (let i = length (takeWhile (\<lambda>x. x \<noteq> c) s) in
      if i < length s then (take i s, Some (drop (i + 1) s)) else (s, None))"

lemma go_cut_free: "c \<notin> set s \<Longrightarrow> go_cut c s = (s, None)"
proof -
  assume "c \<notin> set s"
  then have tw: "takeWhile (\<lambda>x. x \<noteq> c) s = s" by (induction s) auto
  show ?thesis unfolding go_cut_def tw by simp
qed

lemma go_cut_append [simp]: "c \<notin> set s \<Longrightarrow> go_cut c (s @ c # t) = (s, Some t)"
proof -
  assume "c \<notin> set s"
  then have "takeWhile (\<lambda>x. x \<noteq> c) (s @ c # t) = s" by (induction s) auto
  then show ?thesis by (simp add: go_cut_def)
qed

text \<open>\<open>strings.Contains\<close> and \<open>strings.ToLower\<close> on ASCII strings.\<close>

fun go_contains :: "string \<Rightarrow> string \<Rightarrow> bool" where
  "go_contains [] p \<longleftrightarrow> p = []"
| "go_contains (c # s) p \<longleftrightarrow> has_prefix (c # s) p \<or> go_contains s p"

definition to_lower :: "string \<Rightarrow> string" where
  "to_lower s = map (\<lambda>c. let n = (of_char c :: nat) in if 65 \<le> n \<and> n \<le> 90 then char_of (n + 32) else c) s"

definition to_upper :: "string \<Rightarrow> string" where
  "to_upper s = map (\<lambda>c. let n = (of_char c :: nat) in if 97 \<le> n \<and> n \<le> 122 then char_of (n - 32) else c) s"

section \<open>Signed numbers\<close>

text \<open>
  \<open>(*big.Int).SetString(s, base)\<close> for the bases ten and sixteen: an optional sign and at least one
  digit, nothing else; \<open>nil\<close> (\<open>None\<close>) otherwise.
\<close>

definition big_parse :: "nat \<Rightarrow> string \<Rightarrow> int option" where
  "big_parse base s =
     (let (sgn, ds) = (case s of
          [] \<Rightarrow> (1, [])
        | c # cs \<Rightarrow> if c = CHR ''-'' then (-1, cs) else if c = CHR ''+'' then (1, cs) else (1, s)) in
      if ds \<noteq> [] \<and> list_all (\<lambda>c. digit_val c < base) ds then Some (sgn * int (digits_value base ds)) else None)"

definition big_SetString :: "string \<Rightarrow> int option" where
  "big_SetString = big_parse 10"

text \<open>The text of a number in a base up to sixteen, in lower case.\<close>

fun in_base :: "nat \<Rightarrow> nat \<Rightarrow> string" where
  "in_base b n = (if n < b \<or> b < 2 then [digit_char n] else in_base b (n div b) @ [digit_char (n mod b)])"

declare in_base.simps [simp del]

lemma in_base_facts:
  assumes "2 \<le> b" and "b \<le> 16"
  shows "digits_value b (in_base b n) = n \<and> in_base b n \<noteq> [] \<and> (\<forall>c \<in> set (in_base b n). digit_val c < b)"
  using assms
proof (induction b n rule: in_base.induct)
  case (1 b n)
  have step: "in_base b n = (if n < b then [digit_char n] else in_base b (n div b) @ [digit_char (n mod b)])"
    using 1(2) by (subst in_base.simps) simp
  show ?case
  proof (cases "n < b")
    case True
    with 1(3) show ?thesis by (simp add: step digits_value_def)
  next
    case False
    have small: "n mod b < b" "n mod b < 16" using 1(2,3) by (simp_all add: less_le_trans [OF mod_less_divisor])
    then have "digit_val (digit_char (n mod b)) = n mod b" by simp
    moreover have "digits_value b (in_base b (n div b)) = n div b \<and> in_base b (n div b) \<noteq> [] \<and>
        (\<forall>c \<in> set (in_base b (n div b)). digit_val c < b)"
      using 1 False by simp
    ultimately show ?thesis using False small by (simp add: step)
  qed
qed

lemma in_base_decimal: "in_base 10 n = decimal n"
proof (induction n rule: decimal.induct)
  case (1 n)
  then show ?case by (subst in_base.simps, subst decimal.simps) simp
qed

lemma big_parse_in_base:
  assumes "2 \<le> b" and "b \<le> 16"
  shows "big_parse b (in_base b n) = Some (int n)"
proof -
  obtain c cs where ds: "in_base b n = c # cs" using in_base_facts [OF assms, of n] by (cases "in_base b n") auto
  have facts: "digits_value b (c # cs) = n" "\<forall>x \<in> set (c # cs). digit_val x < b"
    using in_base_facts [OF assms, of n] by (simp_all add: ds)
  then have "digit_val c < 16" using assms(2) by simp
  then have "c \<noteq> CHR ''-'' \<and> c \<noteq> CHR ''+''" by (auto simp: digit_val_def)
  then show ?thesis using facts by (simp add: big_parse_def ds list_all_iff)
qed

lemma big_SetString_decimal [simp]: "big_SetString (decimal n) = Some (int n)"
  using big_parse_in_base [of 10 n] by (simp add: big_SetString_def in_base_decimal)

lemma sscanf_x_in_base: "sscanf_x (in_base 16 (unat w)) = Some w"
proof -
  let ?s = "in_base 16 (unat (w :: u64))"
  have facts: "digits_value 16 ?s = unat w" "?s \<noteq> []" "\<forall>c \<in> set ?s. digit_val c < 16"
    using in_base_facts [of 16 "unat w"] by simp_all
  then have "digit_val (hd ?s) < 16" by (simp add: hd_in_set)
  then have "\<not> go_blank (hd ?s)" by (auto simp: digit_val_def go_blank_def Let_def)
  then have dw: "dropWhile go_blank ?s = ?s" using facts(2) by (simp add: dropWhile_id)
  have tw: "takeWhile (\<lambda>c. digit_val c < 16) ?s = ?s" using facts(3) by (simp add: takeWhile_eq_all_conv)
  have "unat w < 2 ^ 64" using unsigned_less [of w] by simp
  then show ?thesis using facts(1,2) unfolding sscanf_x_def sscanf_u64_def dw tw by simp
qed

text \<open>\<open>(*big.Int).String\<close>, in base ten.\<close>

definition big_String :: "int \<Rightarrow> string" where
  "big_String n = (if n < 0 then CHR ''-'' # decimal (nat (- n)) else decimal (nat n))"

lemma big_SetString_String [simp]: "big_SetString (big_String n) = Some n"
proof (cases "n < 0")
  case True
  have "list_all (\<lambda>c. digit_val c < 10) (decimal k)" for k
    using in_base_facts [of 10 k] by (simp add: in_base_decimal list_all_iff)
  with True show ?thesis by (simp add: big_SetString_def big_String_def big_parse_def)
next
  case False
  then show ?thesis by (simp add: big_String_def)
qed

end
