(* ===== verification/Codec.thy ===== *)
theory Codec
  imports Go_Lib
begin

text \<open>
  The byte-level codecs of the gateway: the deterministic payload hash of the stub adapter
  (\<open>chain.stubHash\<close>) and the broadcast service's copy of it (\<open>broadcast.stubHash\<close>,
  \<open>predictHash\<close>), the Solana adapter's hand-written \<open>encodeBase64\<close>, and the REST layer's
  hand-written \<open>decodeBase64\<close> and \<open>decodePayload\<close>. Shifts, masks and wrap-around are those of
  Go's \<open>uint64\<close>, \<open>uint32\<close> and \<open>byte\<close>.
\<close>

section \<open>The stub hash\<close>

definition fnv_prime :: u64 where
  "fnv_prime = 1099511628211"

definition fnv_step :: "u64 \<Rightarrow> byte \<Rightarrow> u64" where
  "fnv_step h b = (h XOR ucast b) * fnv_prime"

definition fnv_sum :: "bytes \<Rightarrow> u64" where
  "fnv_sum payload = foldl fnv_step 1469598103934665603 payload"

text \<open>The inner loop: \<open>n\<close> bytes of \<open>v\<close>, least significant first.\<close>

fun le_bytes :: "nat \<Rightarrow> u64 \<Rightarrow> bytes" where
  "le_bytes 0 v = []"
| "le_bytes (Suc n) v = ucast (v AND 0xff) # le_bytes n (drop_bit 8 v)"

text \<open>The outer loop: \<open>i\<close> blocks of eight bytes, the sum toggled by the prime in between.\<close>

fun fold_blocks :: "nat \<Rightarrow> u64 \<Rightarrow> bytes" where
  "fold_blocks 0 h = []"
| "fold_blocks (Suc i) h = le_bytes 8 h @ fold_blocks i (h XOR fnv_prime)"

definition stubHash :: "bytes \<Rightarrow> string" where
  "stubHash payload = ''0x'' @ hex_encode (fold_blocks 4 (fnv_sum payload))"

text \<open>The broadcast service's copy, and the prediction built on it.\<close>

definition bcast_stubHash :: "bytes \<Rightarrow> string" where
  "bcast_stubHash payload =
     (let h = foldl (\<lambda>h b. (h XOR ucast b) * 1099511628211) 1469598103934665603 payload;
          out = concat (map (le_bytes 8)
            [h, h XOR 1099511628211, h XOR 1099511628211 XOR 1099511628211,
             h XOR 1099511628211 XOR 1099511628211 XOR 1099511628211])
      in ''0x'' @ hex_encode out)"

definition predictHash :: "bytes \<Rightarrow> string" where
  "predictHash signedTx = (if length signedTx = 0 then '''' else bcast_stubHash signedTx)"

section \<open>Base64\<close>

definition b64_tbl :: string where
  "b64_tbl = ''ABCDEFGHIJKLMNOPQRSTUVWXYZabcdefghijklmnopqrstuvwxyz0123456789+/''"

text \<open>One chunk of at most three bytes: missing bytes shift in zeros.\<close>

fun chunk_bits :: "nat \<Rightarrow> bytes \<Rightarrow> u64 \<Rightarrow> u64" where
  "chunk_bits 0 chunk n = n"
| "chunk_bits (Suc j) [] n = chunk_bits j [] (push_bit 8 n)"
| "chunk_bits (Suc j) (b # chunk) n = chunk_bits j chunk (push_bit 8 n OR ucast b)"

definition b64_quad :: "u64 \<Rightarrow> string" where
  "b64_quad n =
     [b64_tbl ! unat (drop_bit 18 n AND 0x3f), b64_tbl ! unat (drop_bit 12 n AND 0x3f),
      b64_tbl ! unat (drop_bit 6 n AND 0x3f), b64_tbl ! unat (n AND 0x3f)]"

function b64_chunks :: "bytes \<Rightarrow> string" where
  "b64_chunks b =
     (if b = [] then [] else b64_quad (chunk_bits 3 (take 3 b) 0) @ b64_chunks (drop 3 b))"
  by pat_completeness auto
termination
  by (relation "measure length") auto

declare b64_chunks.simps [simp del]

definition encodeBase64 :: "bytes \<Rightarrow> string" where
  "encodeBase64 b =
     (let out = b64_chunks b; pad = (3 - length b mod 3) mod 3
      in take (length out - pad) out @ replicate pad (CHR ''=''))"

fun index_of :: "char \<Rightarrow> string \<Rightarrow> nat option" where
  "index_of c [] = None"
| "index_of c (d # ds) = (if c = d then Some 0 else map_option Suc (index_of c ds))"

text \<open>The decoding loop: \<open>buf\<close> holds the \<open>bits\<close> bits read and not yet output.\<close>

fun b64_loop :: "string \<Rightarrow> u32 \<Rightarrow> nat \<Rightarrow> bytes \<Rightarrow> bytes option" where
  "b64_loop [] buf bits out = Some out"
| "b64_loop (c # s) buf bits out =
     (if c = CHR ''='' then b64_loop s buf bits out
      else case index_of c b64_tbl of
        None \<Rightarrow> None
      | Some idx \<Rightarrow>
          (let buf = push_bit 6 buf OR of_nat idx; bits = bits + 6 in
           if bits \<ge> 8
           then b64_loop s (buf AND (push_bit (bits - 8) 1 - 1)) (bits - 8)
                  (out @ [ucast (drop_bit (bits - 8) buf)])
           else b64_loop s buf bits out))"

definition decodeBase64 :: "string \<Rightarrow> bytes option" where
  "decodeBase64 s =
     (let s = (if length s mod 4 \<noteq> 0 then s @ replicate ((4 - length s mod 4) mod 4) (CHR ''='') else s)
      in b64_loop s 0 0 [])"

text \<open>\<open>decodePayload\<close>: a \<open>0x\<close> prefix means hexadecimal, otherwise base64 first, then hexadecimal.\<close>

definition decodePayload :: "string \<Rightarrow> bytes option" where
  "decodePayload s =
     (if has_prefix s ''0x'' then hex_decode (drop 2 s)
      else case decodeBase64 s of
        Some b \<Rightarrow> Some b
      | None \<Rightarrow> hex_decode s)"

section \<open>Properties of the stub hash\<close>

lemma fnv_prime_inverse: "fnv_prime * 14886173955864302971 = 1"
  by (simp add: fnv_prime_def)

lemma fnv_step_inject:
  assumes "fnv_step g b = fnv_step h b"
  shows "g = h"
proof -
  let ?i = "14886173955864302971 :: u64"
  have "(g XOR ucast b) * (fnv_prime * ?i) = (h XOR ucast b) * (fnv_prime * ?i)"
    using assms by (simp add: fnv_step_def mult.assoc [symmetric])
  then have "g XOR ucast b = h XOR ucast b" by (simp add: fnv_prime_inverse)
  then have "(g XOR ucast b) XOR ucast b = (h XOR ucast b) XOR ucast b" by simp
  then show ?thesis by (simp add: xor.assoc)
qed

lemma ucast_byte_inject:
  assumes "(ucast (a :: byte) :: u64) = ucast b"
  shows "a = b"
proof (rule bit_word_eqI)
  fix n assume "n < LENGTH(8)"
  moreover have "bit (ucast a :: u64) n = bit (ucast b :: u64) n" using assms by simp
  ultimately show "bit a n = bit b n" by (simp add: bit_simps)
qed

lemma fnv_step_inject_byte:
  assumes "fnv_step h a = fnv_step h b"
  shows "a = b"
proof -
  let ?i = "14886173955864302971 :: u64"
  have "(h XOR ucast a) * (fnv_prime * ?i) = (h XOR ucast b) * (fnv_prime * ?i)"
    using assms by (simp add: fnv_step_def mult.assoc [symmetric])
  then have "h XOR ucast a = h XOR ucast b" by (simp add: fnv_prime_inverse)
  then have "h XOR (h XOR ucast a) = h XOR (h XOR ucast b)" by simp
  then have "(ucast a :: u64) = ucast b" by (simp add: xor.assoc [symmetric])
  then show ?thesis by (rule ucast_byte_inject)
qed

lemma foldl_fnv_inject: "foldl fnv_step g bs = foldl fnv_step h bs \<Longrightarrow> g = h"
  by (induction bs arbitrary: g h) (auto dest: fnv_step_inject)

lemma low_mask:
  "(x :: 'a::len word) AND 0xff = take_bit 8 x" "(x :: 'a::len word) AND 0x3f = take_bit 6 x"
  by (simp_all add: take_bit_eq_mask mask_eq_exp_minus_1)

lemma length_le_bytes [simp]: "length (le_bytes n v) = n"
  by (induction n arbitrary: v) auto

lemma le_bytes_nth: "k < n \<Longrightarrow> le_bytes n v ! k = ucast (drop_bit (8 * k) v)"
proof (induction n arbitrary: k v)
  case (Suc n)
  show ?case
  proof (cases k)
    case 0
    have "(ucast (v AND 0xff) :: byte) = ucast v"
      by (rule bit_word_eqI) (auto simp: low_mask bit_simps)
    with 0 show ?thesis by simp
  next
    case (Suc j)
    with Suc.prems Suc.IH [of j "drop_bit 8 v"] show ?thesis by (simp add: add.commute)
  qed
qed simp

lemma le_bytes_inject: "le_bytes 8 v = le_bytes 8 w \<longleftrightarrow> v = w"
proof
  assume eq: "le_bytes 8 v = le_bytes 8 w"
  show "v = w"
  proof (rule bit_word_eqI)
    fix i assume i: "i < LENGTH(64)"
    have "bit (le_bytes 8 v ! (i div 8)) (i mod 8) = bit (le_bytes 8 w ! (i div 8)) (i mod 8)"
      by (simp add: eq)
    then show "bit v i = bit w i" using i by (simp add: le_bytes_nth bit_simps)
  qed
qed simp

lemma length_fold_blocks [simp]: "length (fold_blocks i h) = 8 * i"
  by (induction i arbitrary: h) auto

lemma fold_blocks_4:
  "fold_blocks 4 h =
     le_bytes 8 h @ le_bytes 8 (h XOR fnv_prime) @ le_bytes 8 h @ le_bytes 8 (h XOR fnv_prime)"
proof -
  have four: "(4::nat) = Suc (Suc (Suc (Suc 0)))" by simp
  show ?thesis unfolding four by (simp add: xor.assoc)
qed

lemma stubHash_eq_iff: "stubHash p = stubHash q \<longleftrightarrow> fnv_sum p = fnv_sum q"
  by (auto simp: stubHash_def fold_blocks_4 le_bytes_inject)

lemma bcast_stubHash_eq: "bcast_stubHash = stubHash"
proof (rule ext)
  fix p
  have "(\<lambda>h b. (h XOR ucast b) * 1099511628211) = fnv_step"
    by (simp add: fun_eq_iff fnv_step_def fnv_prime_def)
  then show "bcast_stubHash p = stubHash p"
    by (simp add: bcast_stubHash_def stubHash_def fold_blocks_4 fnv_sum_def fnv_prime_def xor.assoc Let_def)
qed

section \<open>Properties of base64\<close>

lemma index_of_nth: "distinct ds \<Longrightarrow> i < length ds \<Longrightarrow> index_of (ds ! i) ds = Some i"
proof (induction ds arbitrary: i)
  case (Cons d ds)
  then show ?case by (cases i) (auto dest: nth_mem)
qed simp

lemma b64_tbl_facts:
  "distinct b64_tbl" "length b64_tbl = 64" "CHR ''='' \<notin> set b64_tbl"
  by (simp_all add: b64_tbl_def)

lemma index_of_tbl [simp]: "i < 64 \<Longrightarrow> index_of (b64_tbl ! i) b64_tbl = Some i"
  by (simp add: index_of_nth b64_tbl_facts)

lemma tbl_not_pad [simp]: "i < 64 \<Longrightarrow> b64_tbl ! i \<noteq> CHR ''=''"
  by (metis b64_tbl_facts(2,3) nth_mem)

lemma sextet_less [simp]: "unat (take_bit 6 (n :: u64)) < 64"
  by (simp add: unsigned_take_bit_eq take_bit_nat_less_exp [where n = 6, simplified])

lemma and_mask_take: "(buf :: u32) AND (push_bit k 1 - 1) = take_bit k buf"
  by (simp add: take_bit_eq_mask mask_eq_exp_minus_1 push_bit_eq_mult)

lemma b64_loop_sextet:
  "b64_loop (b64_tbl ! unat (take_bit 6 (n :: u64)) # s) buf bits out =
     (let buf = push_bit 6 buf OR ucast (take_bit 6 n); bits = bits + 6 in
      if bits \<ge> 8
      then b64_loop s (take_bit (bits - 8) buf) (bits - 8) (out @ [ucast (drop_bit (bits - 8) buf)])
      else b64_loop s buf bits out)"
  by (simp only: b64_loop.simps and_mask_take tbl_not_pad [OF sextet_less] index_of_tbl [OF sextet_less]
      if_False option.case of_nat_unat)

declare b64_loop.simps(2) [simp del]

text \<open>
  The four characters of a chunk \<open>n\<close> of 24 bits, read one after the other. Each step is an
  equation between words, checked bit by bit.
\<close>

lemma b64_read1:
  "b64_loop (b64_tbl ! unat (take_bit 6 (drop_bit 18 (n :: u64))) # s) 0 0 out =
     b64_loop s (ucast (take_bit 6 (drop_bit 18 n))) 6 out"
  by (simp add: b64_loop_sextet)

lemma b64_read2:
  "b64_loop (b64_tbl ! unat (take_bit 6 (drop_bit 12 n)) # s) (ucast (take_bit 6 (drop_bit 18 n))) 6 out =
     b64_loop s (ucast (take_bit 4 (drop_bit 12 n))) 4 (out @ [ucast (drop_bit 16 (n :: u64))])"
proof -
  let ?buf = "push_bit 6 (ucast (take_bit 6 (drop_bit 18 n))) OR ucast (take_bit 6 (drop_bit 12 n)) :: u32"
  have "take_bit 4 ?buf = ucast (take_bit 4 (drop_bit 12 n))"
    by (rule bit_word_eqI) (auto simp: bit_simps)
  moreover have "(ucast (drop_bit 4 ?buf) :: byte) = ucast (drop_bit 16 n)"
    by (rule bit_word_eqI) (auto simp: bit_simps)
  ultimately show ?thesis by (simp add: b64_loop_sextet Let_def del: take_bit_or drop_bit_or)
qed

lemma b64_read3:
  "b64_loop (b64_tbl ! unat (take_bit 6 (drop_bit 6 n)) # s) (ucast (take_bit 4 (drop_bit 12 n))) 4 out =
     b64_loop s (ucast (take_bit 2 (drop_bit 6 n))) 2 (out @ [ucast (drop_bit 8 (n :: u64))])"
proof -
  let ?buf = "push_bit 6 (ucast (take_bit 4 (drop_bit 12 n))) OR ucast (take_bit 6 (drop_bit 6 n)) :: u32"
  have "take_bit 2 ?buf = ucast (take_bit 2 (drop_bit 6 n))"
    by (rule bit_word_eqI) (auto simp: bit_simps)
  moreover have "(ucast (drop_bit 2 ?buf) :: byte) = ucast (drop_bit 8 n)"
    by (rule bit_word_eqI) (auto simp: bit_simps)
  ultimately show ?thesis by (simp add: b64_loop_sextet Let_def del: take_bit_or drop_bit_or)
qed

lemma b64_read4:
  "b64_loop (b64_tbl ! unat (take_bit 6 n) # s) (ucast (take_bit 2 (drop_bit 6 n))) 2 out =
     b64_loop s 0 0 (out @ [ucast (n :: u64)])"
proof -
  let ?buf = "push_bit 6 (ucast (take_bit 2 (drop_bit 6 n))) OR ucast (take_bit 6 n) :: u32"
  have "(ucast ?buf :: byte) = ucast n"
    by (rule bit_word_eqI) (auto simp: bit_simps)
  then show ?thesis by (simp add: b64_loop_sextet Let_def)
qed

lemmas b64_reads = b64_read1 b64_read2 b64_read3 b64_read4

lemma chunk_bits_3:
  "chunk_bits 3 [a] 0 = push_bit 16 (ucast a)"
  "chunk_bits 3 [a, b] 0 = push_bit 16 (ucast a) OR push_bit 8 (ucast b)"
  "chunk_bits 3 [a, b, c] 0 = push_bit 16 (ucast a) OR push_bit 8 (ucast b) OR ucast c"
proof -
  have three: "(3::nat) = Suc (Suc (Suc 0))" by simp
  show "chunk_bits 3 [a] 0 = push_bit 16 (ucast a)"
    and "chunk_bits 3 [a, b] 0 = push_bit 16 (ucast a) OR push_bit 8 (ucast b)"
    and "chunk_bits 3 [a, b, c] 0 = push_bit 16 (ucast a) OR push_bit 8 (ucast b) OR ucast c"
    unfolding three by (simp_all add: or.assoc)
qed

lemma byte_bit_high [simp]: "\<not> bit (b :: byte) (8 + n)" "\<not> bit (b :: byte) (16 + n)"
  by (auto dest: bit_imp_le_length)

lemma chunk_bits_bytes:
  "(ucast (drop_bit 16 (chunk_bits 3 [a] 0)) :: byte) = a"
  "(ucast (drop_bit 16 (chunk_bits 3 [a, b] 0)) :: byte) = a"
  "(ucast (drop_bit 8 (chunk_bits 3 [a, b] 0)) :: byte) = b"
  "(ucast (drop_bit 16 (chunk_bits 3 [a, b, c] 0)) :: byte) = a"
  "(ucast (drop_bit 8 (chunk_bits 3 [a, b, c] 0)) :: byte) = b"
  "(ucast (chunk_bits 3 [a, b, c] 0) :: byte) = c"
  by (auto intro!: bit_word_eqI simp: chunk_bits_3 bit_simps)

lemma b64_chunks_3 [simp]:
  "b64_chunks [] = []"
  "b64_chunks [a] = b64_quad (chunk_bits 3 [a] 0)"
  "b64_chunks [a, b] = b64_quad (chunk_bits 3 [a, b] 0)"
  "b64_chunks (a # b # c # rest) = b64_quad (chunk_bits 3 [a, b, c] 0) @ b64_chunks rest"
  by (simp_all add: b64_chunks.simps [of "[]"] b64_chunks.simps [of "[a]"]
      b64_chunks.simps [of "[a, b]"] b64_chunks.simps [of "a # b # c # rest"])

lemma length_b64_quad [simp]: "length (b64_quad n) = 4"
  by (simp add: b64_quad_def)

text \<open>Lists read three at a time, as the encoder does.\<close>

lemma bytes3_induct [case_names Nil One Two Three]:
  assumes "P []" and "\<And>a. P [a]" and "\<And>a b. P [a, b]"
    and "\<And>a b c rest. P rest \<Longrightarrow> P (a # b # c # rest)"
  shows "P (bs :: bytes)"
proof (induction bs rule: length_induct)
  case (1 bs)
  consider "bs = []" | a where "bs = [a]" | a b where "bs = [a, b]"
    | a b c rest where "bs = a # b # c # rest"
    by (metis neq_Nil_conv)
  then show ?case using 1 assms by cases auto
qed

lemma length_b64_chunks: "length (b64_chunks bs) = 4 * ((length bs + 2) div 3)"
proof (induction bs rule: bytes3_induct)
  case (Three a b c rest)
  then show ?case by (simp, presburger)
qed simp_all

lemma encodeBase64_Cons3:
  "encodeBase64 (a # b # c # rest) = b64_quad (chunk_bits 3 [a, b, c] 0) @ encodeBase64 rest"
proof -
  have "(3 - length rest mod 3) mod 3 \<le> length (b64_chunks rest)"
    by (cases rest) (auto simp: length_b64_chunks)
  then show ?thesis by (simp add: encodeBase64_def Let_def)
qed

lemma length_encodeBase64: "length (encodeBase64 bs) = 4 * ((length bs + 2) div 3)"
proof -
  have "(3 - length bs mod 3) mod 3 \<le> length (b64_chunks bs)"
    by (cases bs) (auto simp: length_b64_chunks)
  then show ?thesis by (simp add: encodeBase64_def Let_def length_b64_chunks)
qed

lemma b64_loop_pad [simp]: "b64_loop (CHR ''='' # s) buf bits out = b64_loop s buf bits out"
  by (simp add: b64_loop.simps)

lemma b64_loop_encode: "b64_loop (encodeBase64 bs) 0 0 out = Some (out @ bs)"
proof (induction bs arbitrary: out rule: bytes3_induct)
  case Nil
  show ?case by (simp add: encodeBase64_def)
next
  case (One a)
  have "encodeBase64 [a] = take 2 (b64_quad (chunk_bits 3 [a] 0)) @ ''==''"
    by (simp add: encodeBase64_def Let_def, simp add: eval_nat_numeral)
  then show ?case by (simp add: b64_quad_def low_mask b64_reads chunk_bits_bytes)
next
  case (Two a b)
  have "encodeBase64 [a, b] = take 3 (b64_quad (chunk_bits 3 [a, b] 0)) @ ''=''"
    by (simp add: encodeBase64_def Let_def)
  then show ?case by (simp add: b64_quad_def low_mask b64_reads chunk_bits_bytes)
next
  case (Three a b c rest)
  then show ?case
    by (simp add: encodeBase64_Cons3 b64_quad_def low_mask b64_reads chunk_bits_bytes)
qed

lemma index_of_mem: "c \<in> set ds \<Longrightarrow> \<exists>i. index_of c ds = Some i"
  by (induction ds) auto

lemma b64_loop_total:
  "\<forall>c \<in> set s. c = CHR ''='' \<or> c \<in> set b64_tbl \<Longrightarrow> \<exists>r. b64_loop s buf bits out = Some r"
proof (induction s arbitrary: buf bits out)
  case (Cons c s)
  show ?case
  proof (cases "c = CHR ''=''")
    case True
    with Cons show ?thesis by simp
  next
    case False
    with Cons.prems obtain i where "index_of c b64_tbl = Some i" by (auto dest: index_of_mem)
    with False Cons show ?thesis by (simp add: b64_loop.simps Let_def)
  qed
qed simp

lemma hex_digit_codes:
  "digit_val c < 16 \<Longrightarrow> (of_char c :: nat) \<in> set ([48..<58] @ [65..<71] @ [97..<103])"
  unfolding set_append set_upt Un_iff atLeastLessThan_iff
  by (simp add: digit_val_def Let_def split: if_splits)

lemma hex_codes_in_tbl:
  "set ([48..<58] @ [65..<71] @ [97..<103]) \<subseteq> (of_char ` set b64_tbl :: nat set)"
  by (simp add: b64_tbl_def)

lemma hex_digit_in_tbl:
  assumes "digit_val c < 16"
  shows "c \<in> set b64_tbl"
proof -
  have "(of_char c :: nat) \<in> of_char ` set b64_tbl"
    by (rule subsetD [OF hex_codes_in_tbl hex_digit_codes [OF assms]])
  then show ?thesis by auto
qed

lemma hex_decode_pair:
  assumes "hex_decode (c # d # s) = Some bs"
  shows "digit_val c < 16 \<and> digit_val d < 16 \<and> (\<exists>bs'. hex_decode s = Some bs')"
  using assms by (cases "digit_val c < 16 \<and> digit_val d < 16") auto

lemma hex_decode_digits: "hex_decode s = Some bs \<Longrightarrow> \<forall>c \<in> set s. digit_val c < 16"
proof (induction s arbitrary: bs rule: hex_decode.induct)
  case (3 c d s)
  from hex_decode_pair [OF "3.prems"] obtain bs'
    where cd: "digit_val c < 16" "digit_val d < 16" and "hex_decode s = Some bs'" by blast
  then have "\<forall>c \<in> set s. digit_val c < 16" using "3.IH" by blast
  with cd show ?case by simp
qed simp_all

lemma hex_decode_then_base64: "hex_decode s = Some bs \<Longrightarrow> \<exists>r. decodeBase64 s = Some r"
  unfolding decodeBase64_def Let_def
  by (rule b64_loop_total) (auto dest: hex_decode_digits hex_digit_in_tbl)

lemma decodeBase64_encode: "decodeBase64 (encodeBase64 bs) = Some bs"
  by (simp add: decodeBase64_def length_encodeBase64 b64_loop_encode)

section \<open>What the codecs guarantee\<close>

text \<open>
  C38. Round trip of the two hand-written base64 routines: what \<open>encodeBase64\<close> (Solana adapter)
  renders, \<open>decodeBase64\<close> (REST layer) reads back, for every byte string.
\<close>

theorem base64_roundtrip: "decodeBase64 (encodeBase64 bs) = Some bs"
  by (rule decodeBase64_encode)

text \<open>
  \<open>decodePayload\<close> reads a \<open>0x\<close>-prefixed string as hexadecimal and every other string as
  base64: its last branch, hexadecimal without the prefix, never contributes a result, because
  every string that decodes as hexadecimal also decodes as base64. A hexadecimal payload sent
  without the prefix is therefore accepted as different bytes.
\<close>

theorem decodePayload_eq:
  "decodePayload s = (if has_prefix s ''0x'' then hex_decode (drop 2 s) else decodeBase64 s)"
proof (cases "decodeBase64 s")
  case None
  then have "hex_decode s = None" by (cases "hex_decode s") (auto dest: hex_decode_then_base64)
  with None show ?thesis by (simp add: decodePayload_def)
qed (simp add: decodePayload_def)

text \<open>
  Two payloads that differ in exactly one byte never have the same stub hash: every step of the
  sum is injective in the running value and in the byte, and the rendering is injective in the sum.
  The service's own copy of the hash behaves the same.
\<close>

theorem stubHash_one_byte:
  assumes "a \<noteq> b"
  shows "stubHash (u @ [a] @ v) \<noteq> stubHash (u @ [b] @ v) \<and>
    predictHash (u @ [a] @ v) \<noteq> predictHash (u @ [b] @ v)"
proof -
  let ?g = "foldl fnv_step 1469598103934665603 u"
  have "fnv_step ?g a \<noteq> fnv_step ?g b" using assms by (auto dest: fnv_step_inject_byte)
  then have "fnv_sum (u @ [a] @ v) \<noteq> fnv_sum (u @ [b] @ v)"
    by (auto simp: fnv_sum_def dest: foldl_fnv_inject)
  then show ?thesis by (simp add: stubHash_eq_iff predictHash_def bcast_stubHash_eq)
qed

theorem stubHash_one_byte_witness:
  "stubHash ([1] @ [2] @ [3]) \<noteq> stubHash ([1] @ [7] @ [3]) \<and>
   predictHash ([1] @ [2] @ [3]) \<noteq> predictHash ([1] @ [7] @ [3])"
  using stubHash_one_byte [of 2 7 "[1]" "[3]"] by simp

end
