(* ===== verification/Chain_Types.thy ===== *)
theory Chain_Types
  imports Go_Lib
begin

text \<open>
  The domain types of \<open>internal/chain/types.go\<close> and the error values of the gateway. The lifecycle
  status is an enumeration with its printed form; a priority tier stays a string, because the REST
  layer passes on whatever the client sent. A \<open>*big.Int\<close> field that may be \<open>nil\<close> is an
  \<open>int option\<close>.
\<close>

section \<open>Status\<close>

datatype status =
    StatusBroadcast
  | StatusMempool
  | StatusConfirmed
  | StatusFinalized
  | StatusDropped
  | StatusReplaced
  | StatusReorgedOut
  | StatusFailed

fun status_string :: "status \<Rightarrow> string" where
  "status_string StatusBroadcast = ''BROADCAST''"
| "status_string StatusMempool = ''MEMPOOL''"
| "status_string StatusConfirmed = ''CONFIRMED''"
| "status_string StatusFinalized = ''FINALIZED''"
| "status_string StatusDropped = ''DROPPED''"
| "status_string StatusReplaced = ''REPLACED''"
| "status_string StatusReorgedOut = ''REORGED_OUT''"
| "status_string StatusFailed = ''FAILED''"

fun IsTerminal :: "status \<Rightarrow> bool" where
  "IsTerminal StatusFinalized = True"
| "IsTerminal StatusDropped = True"
| "IsTerminal StatusReplaced = True"
| "IsTerminal StatusFailed = True"
| "IsTerminal _ = False"

definition CanTransitionTo :: "status \<Rightarrow> status \<Rightarrow> bool" where
  "CanTransitionTo s nxt =
     (if s = nxt then True
      else case s of
        StatusBroadcast \<Rightarrow>
          nxt = StatusMempool \<or> nxt = StatusDropped \<or> nxt = StatusFailed \<or> nxt = StatusConfirmed
      | StatusMempool \<Rightarrow>
          nxt = StatusConfirmed \<or> nxt = StatusDropped \<or> nxt = StatusReplaced \<or> nxt = StatusFailed
      | StatusConfirmed \<Rightarrow>
          nxt = StatusFinalized \<or> nxt = StatusReorgedOut \<or> nxt = StatusFailed
      | StatusReorgedOut \<Rightarrow>
          nxt = StatusConfirmed \<or> nxt = StatusFailed \<or> nxt = StatusDropped \<or> nxt = StatusMempool
      | _ \<Rightarrow> False)"

section \<open>Priorities\<close>

type_synonym priority = string

definition PriorityLow :: priority where "PriorityLow = ''LOW''"
definition PriorityStandard :: priority where "PriorityStandard = ''STANDARD''"
definition PriorityHigh :: priority where "PriorityHigh = ''HIGH''"

lemmas priority_defs = PriorityLow_def PriorityStandard_def PriorityHigh_def

section \<open>Records\<close>

record head =
  hd_ChainID :: string
  hd_Height :: u64
  hd_Hash :: string
  hd_ParentHash :: string
  hd_Timestamp :: time

record mempool_event =
  me_ChainID :: string
  me_TxHash :: string
  me_Kind :: string
  me_SeenAt :: time

record tx =
  tx_ChainID :: string
  tx_Hash :: string
  tx_From :: string
  tx_To :: string
  tx_Value :: "int option"
  tx_Fee :: "int option"
  tx_Nonce :: u64
  tx_BlockHeight :: u64
  tx_BlockHash :: string
  tx_Status :: status
  tx_Raw :: bytes

record tx_status =
  ts_ChainID :: string
  ts_TxHash :: string
  ts_Status :: status
  ts_Confirmations :: u64
  ts_BlockHeight :: u64
  ts_BlockHash :: string
  ts_FinalizedAt :: time

record fee_estimate_req =
  fr_To :: string
  fr_Amount :: "int option"
  fr_Priority :: priority

record fee_estimate =
  fe_ChainID :: string
  fe_Priority :: priority
  fe_GasLimit :: u64
  fe_MaxFeePerGas :: "int option"
  fe_MaxPriorityFeePerGas :: "int option"
  fe_GasPrice :: "int option"
  fe_TotalFee :: "int option"
  fe_Strategy :: string

record chain_config =
  cc_ChainID :: string
  cc_RPCURLs :: "string list"
  cc_WSURLs :: "string list"
  cc_FinalityBlocks :: u64
  cc_GasStrategy :: string

section \<open>Errors\<close>

text \<open>
  Go's error values. A sentinel is a constructor; an error built by \<open>fmt.Errorf\<close> with \<open>%w\<close> is the
  constructor of the sentinel it wraps, carrying what the message adds. An error of code outside
  the gateway (a node, a service, a database) is \<open>ErrRemote\<close>. The last one is the router's own
  sentinel \<open>errPrepaymentStub\<close>.
\<close>

datatype error =
    ErrUnknownChain string
  | ErrTxNotFound
  | ErrInsufficientFunds
  | ErrNotFound string string
  | ErrInvalidTransition status status
  | ErrBadRequest string
  | ErrAdapter error
  | ErrPrepaymentFailed error
  | ErrFundingTimeout string
  | ErrNoKey
  | ErrLockBusy
  | ErrContextDone
  | ErrNoHealthyProvider
  | ErrCircuitOpen
  | ErrWrapped string error
  | ErrMessage string
  | ErrRemote string
  | ErrPrepaymentStub

type_synonym 'a result = "error + 'a"

section \<open>The lifecycle\<close>

lemma CanTransitionTo_refl [simp]: "CanTransitionTo s s"
  by (simp add: CanTransitionTo_def)

lemma CanTransitionTo_terminal [simp]: "IsTerminal s \<Longrightarrow> CanTransitionTo s t \<longleftrightarrow> s = t"
  by (cases s) (auto simp: CanTransitionTo_def)

lemma nonterminal_exit: "\<not> IsTerminal s \<Longrightarrow> \<exists>t. t \<noteq> s \<and> CanTransitionTo s t"
  by (cases s) (auto simp: CanTransitionTo_def)

lemma status_string_inject [simp]: "status_string s = status_string t \<longleftrightarrow> s = t"
  by (cases s; cases t) simp_all

lemma status_string_sep_free [simp]: "sep_free (status_string s)"
  by (cases s) (simp_all add: sep_free_def)

text \<open>The statuses a transaction can have passed through, as the lifecycle permits.\<close>

inductive lifecycle :: "status \<Rightarrow> status list \<Rightarrow> status \<Rightarrow> bool" where
  start: "lifecycle s [] s"
| move: "lifecycle s path t \<Longrightarrow> t \<noteq> u \<Longrightarrow> CanTransitionTo t u \<Longrightarrow> lifecycle s (path @ [t]) u"

inductive_cases lifecycle_NilE: "lifecycle s [] t"

lemma lifecycle_trans:
  assumes "lifecycle t path u" and "lifecycle s path0 t"
  shows "lifecycle s (path0 @ path) u"
  using assms
proof (induction rule: lifecycle.induct)
  case (start s)
  then show ?case by simp
next
  case (move t path u v)
  then show ?case using lifecycle.move [of s "path0 @ path" u v] by simp
qed

lemma lifecycle_terminal_end:
  assumes "lifecycle s path t" and "IsTerminal s"
  shows "path = [] \<and> t = s"
  using assms
proof (induction rule: lifecycle.induct)
  case (move s path t u)
  then show ?case by auto
qed simp

lemma lifecycle_path_open: "lifecycle s path t \<Longrightarrow> x \<in> set path \<Longrightarrow> \<not> IsTerminal x"
  by (induction rule: lifecycle.induct) auto

lemma lifecycle_finalized_from:
  assumes "lifecycle s path StatusFinalized" and "s \<noteq> StatusFinalized"
  shows "path \<noteq> [] \<and> last path = StatusConfirmed"
  using assms
proof (cases rule: lifecycle.cases)
  case (move path' t)
  then show ?thesis by (cases t) (auto simp: CanTransitionTo_def)
qed simp

text \<open>
  The lifecycle state machine, over whole histories: a history that starts outside
  \<open>FINALIZED\<close> and ends in it has \<open>CONFIRMED\<close> as its last status before; no terminal status
  occurs inside a history; and a history that starts in a terminal status goes nowhere.
\<close>

theorem lifecycle_histories:
  assumes "lifecycle s path t"
  shows "(t = StatusFinalized \<and> s \<noteq> t \<longrightarrow> path \<noteq> [] \<and> last path = StatusConfirmed)
    \<and> (\<forall>x. x \<in> set path \<longrightarrow> \<not> IsTerminal x)
    \<and> (IsTerminal s \<longrightarrow> path = [] \<and> t = s)"
  using assms lifecycle_finalized_from [of s path] lifecycle_path_open lifecycle_terminal_end by blast

theorem lifecycle_histories_witness:
  "lifecycle StatusBroadcast [StatusBroadcast, StatusConfirmed] StatusFinalized \<and>
   last [StatusBroadcast, StatusConfirmed] = StatusConfirmed"
proof -
  have "lifecycle StatusBroadcast ([] @ [StatusBroadcast]) StatusConfirmed"
    by (rule lifecycle.move [OF lifecycle.start]) (simp_all add: CanTransitionTo_def)
  from lifecycle.move [OF this, of StatusFinalized]
  have h: "lifecycle StatusBroadcast [StatusBroadcast, StatusConfirmed] StatusFinalized"
    by (simp add: CanTransitionTo_def)
  show ?thesis using h lifecycle_histories [OF h] by simp
qed

end
