(* ===== verification/Provider_Pool.thy ===== *)
theory Provider_Pool
  imports Chain_Types
begin

text \<open>
  The RPC provider pool of \<open>internal/provider/pool.go\<close>: a circuit breaker per provider, writes
  that prefer the primary and fail over in order, reads in round-robin order. A picked provider
  comes with a report function; the model returns the provider's index, and \<open>report\<close> is that
  function.
\<close>

section \<open>The circuit breaker\<close>

record breaker =
  bk_failures :: int
  bk_threshold :: int
  bk_coolDown :: duration
  bk_openedAt :: time
  bk_halfOpen :: bool

definition newBreaker :: "int \<Rightarrow> duration \<Rightarrow> breaker" where
  "newBreaker threshold coolDown =
     \<lparr>bk_failures = 0, bk_threshold = (if threshold \<le> 0 then 5 else threshold),
      bk_coolDown = (if coolDown \<le> 0 then 10 * 1000000000 else coolDown),
      bk_openedAt = zero_time, bk_halfOpen = False\<rparr>"

definition allow :: "time \<Rightarrow> breaker \<Rightarrow> bool \<times> breaker" where
  "allow now b =
     (if bk_failures b < bk_threshold b then (True, b)
      else if now - bk_openedAt b > bk_coolDown b then (True, b\<lparr>bk_halfOpen := True\<rparr>)
      else (False, b))"

definition onSuccess :: "breaker \<Rightarrow> breaker" where
  "onSuccess b = b\<lparr>bk_failures := 0, bk_halfOpen := False\<rparr>"

definition onFailure :: "time \<Rightarrow> breaker \<Rightarrow> breaker" where
  "onFailure now b =
     (let b = b\<lparr>bk_failures := bk_failures b + 1\<rparr> in
      if bk_failures b \<ge> bk_threshold b then b\<lparr>bk_openedAt := now, bk_halfOpen := False\<rparr> else b)"

definition breaker_State :: "time \<Rightarrow> breaker \<Rightarrow> string" where
  "breaker_State now b =
     (if bk_failures b < bk_threshold b then ''CLOSED''
      else if now - bk_openedAt b > bk_coolDown b then ''HALF_OPEN''
      else ''OPEN'')"

section \<open>The pool\<close>

record provider =
  pv_URL :: string
  pv_primary :: bool

record entry =
  en_p :: provider
  en_breaker :: breaker
  en_healthy :: bool

record provider_pool =
  pl_providers :: "entry list"
  pl_rr :: u64
  pl_failover :: bool
  pl_failoverCnt :: int

definition NewPool :: "string list \<Rightarrow> bool \<Rightarrow> provider_pool" where
  "NewPool urls failover =
     \<lparr>pl_providers = map (\<lambda>(i, u). \<lparr>en_p = \<lparr>pv_URL = u, pv_primary = (i = 0)\<rparr>,
        en_breaker = newBreaker 5 (10 * 1000000000), en_healthy = True\<rparr>) (zip [0..<length urls] urls),
      pl_rr = 0, pl_failover = failover, pl_failoverCnt = 0\<rparr>"

text \<open>The first provider in the given order whose breaker allows; \<open>clk i\<close> is the clock when it is asked.\<close>

fun pick_first :: "(nat \<Rightarrow> time) \<Rightarrow> entry list \<Rightarrow> nat list \<Rightarrow> (nat \<times> entry list) option" where
  "pick_first clk es [] = None"
| "pick_first clk es (i # is) =
     (let (ok, b) = allow (clk i) (en_breaker (es ! i)) in
      if ok then Some (i, es[i := (es ! i)\<lparr>en_breaker := b\<rparr>]) else pick_first clk es is)"

definition pick :: "(nat \<Rightarrow> time) \<Rightarrow> bool \<Rightarrow> provider_pool \<Rightarrow> (provider \<times> nat) result \<times> provider_pool" where
  "pick clk write p =
     (let es = pl_providers p; n = length es in
      if n = 0 then (Inl ErrNoHealthyProvider, p)
      else if write then
        (case pick_first clk es [0] of
           Some (i, es') \<Rightarrow> (Inr (en_p (es ! i), i), p\<lparr>pl_providers := es'\<rparr>)
         | None \<Rightarrow>
             if \<not> pl_failover p then (Inl ErrCircuitOpen, p)
             else (case pick_first clk es [1..<n] of
                     Some (i, es') \<Rightarrow>
                       (Inr (en_p (es ! i), i),
                        p\<lparr>pl_providers := es', pl_failoverCnt := pl_failoverCnt p + 1\<rparr>)
                   | None \<Rightarrow> (Inl ErrNoHealthyProvider, p)))
      else
        (let rr = pl_rr p + 1;
             start = unat (rr mod of_nat n);
             p = p\<lparr>pl_rr := rr\<rparr> in
         case pick_first clk es (map (\<lambda>i. (start + i) mod n) [0..<n]) of
           Some (i, es') \<Rightarrow> (Inr (en_p (es ! i), i), p\<lparr>pl_providers := es'\<rparr>)
         | None \<Rightarrow> (Inl ErrNoHealthyProvider, p)))"

definition ForWrite :: "(nat \<Rightarrow> time) \<Rightarrow> provider_pool \<Rightarrow> (provider \<times> nat) result \<times> provider_pool" where
  "ForWrite clk p = pick clk True p"

definition ForRead :: "(nat \<Rightarrow> time) \<Rightarrow> provider_pool \<Rightarrow> (provider \<times> nat) result \<times> provider_pool" where
  "ForRead clk p = pick clk False p"

definition doneFunc :: "time \<Rightarrow> error option \<Rightarrow> entry \<Rightarrow> entry" where
  "doneFunc now err e =
     (case err of
        Some _ \<Rightarrow> e\<lparr>en_healthy := False, en_breaker := onFailure now (en_breaker e)\<rparr>
      | None \<Rightarrow> e\<lparr>en_healthy := True, en_breaker := onSuccess (en_breaker e)\<rparr>)"

definition report :: "time \<Rightarrow> nat \<Rightarrow> error option \<Rightarrow> provider_pool \<Rightarrow> provider_pool" where
  "report now i err p =
     p\<lparr>pl_providers := (pl_providers p)[i := doneFunc now err (pl_providers p ! i)]\<rparr>"

definition FailoverCount :: "provider_pool \<Rightarrow> int" where
  "FailoverCount p = pl_failoverCnt p"

definition Healthy :: "string \<Rightarrow> provider_pool \<Rightarrow> bool" where
  "Healthy url p =
     (case find (\<lambda>e. pv_URL (en_p e) = url) (pl_providers p) of None \<Rightarrow> False | Some e \<Rightarrow> en_healthy e)"

definition BreakerState :: "time \<Rightarrow> string \<Rightarrow> provider_pool \<Rightarrow> string" where
  "BreakerState now url p =
     (case find (\<lambda>e. pv_URL (en_p e) = url) (pl_providers p) of
        None \<Rightarrow> ''UNKNOWN'' | Some e \<Rightarrow> breaker_State now (en_breaker e))"

definition URLs :: "provider_pool \<Rightarrow> string list" where
  "URLs p = map (\<lambda>e. pv_URL (en_p e)) (pl_providers p)"

section \<open>The breaker's history\<close>

text \<open>
  A history of a breaker: successes, failures at a time, and questions at a time.
\<close>

datatype breaker_op = Success | Failure time | Ask time

fun breaker_step :: "breaker \<Rightarrow> breaker_op \<Rightarrow> breaker" where
  "breaker_step b Success = onSuccess b"
| "breaker_step b (Failure t) = onFailure t b"
| "breaker_step b (Ask t) = snd (allow t b)"

text \<open>The failures since the last success, newest first.\<close>

fun streak :: "breaker_op list \<Rightarrow> time list" where
  "streak [] = []"
| "streak (Success # ps) = []"
| "streak (Failure t # ps) = t # streak ps"
| "streak (Ask t # ps) = streak ps"

lemma breaker_step_config [simp]:
  "bk_threshold (breaker_step b p) = bk_threshold b" "bk_coolDown (breaker_step b p) = bk_coolDown b"
  by (cases p; simp add: onSuccess_def onFailure_def allow_def Let_def)+

lemma breaker_run_config [simp]:
  "bk_threshold (run breaker_step b ps) = bk_threshold b" "bk_coolDown (run breaker_step b ps) = bk_coolDown b"
  by (induction ps arbitrary: b) auto

lemma breaker_run_streak:
  "bk_failures (run breaker_step (newBreaker th cd) ps) = int (length (streak (rev ps))) \<and>
   (bk_threshold (newBreaker th cd) \<le> int (length (streak (rev ps))) \<longrightarrow>
      bk_openedAt (run breaker_step (newBreaker th cd) ps) = hd (streak (rev ps)))"
proof (induction ps rule: rev_induct)
  case Nil
  show ?case by (simp add: newBreaker_def)
next
  case (snoc p ps)
  have th: "0 < bk_threshold (newBreaker th cd)" by (simp add: newBreaker_def)
  from snoc th show ?case
    by (cases p) (auto simp: onSuccess_def onFailure_def allow_def Let_def)
qed

text \<open>
  C35. The breaker over any history of successes, failures and questions since it was made: it refuses
  a call exactly when the unbroken streak of failures since the last success has reached the threshold
  and the newest of them is no older than the cool-down; it reports \<open>CLOSED\<close> exactly when the streak is
  below the threshold and \<open>OPEN\<close> exactly when it refuses.
\<close>

theorem breaker_refuses_iff:
  "(fst (allow now (run breaker_step (newBreaker th cd) ps)) = False \<longleftrightarrow>
      bk_threshold (newBreaker th cd) \<le> int (length (streak (rev ps))) \<and>
      now - hd (streak (rev ps)) \<le> bk_coolDown (newBreaker th cd)) \<and>
   (breaker_State now (run breaker_step (newBreaker th cd) ps) = ''CLOSED'' \<longleftrightarrow>
      int (length (streak (rev ps))) < bk_threshold (newBreaker th cd)) \<and>
   (breaker_State now (run breaker_step (newBreaker th cd) ps) = ''OPEN'' \<longleftrightarrow>
      fst (allow now (run breaker_step (newBreaker th cd) ps)) = False)"
  using breaker_run_streak [of th cd ps] by (auto simp: allow_def breaker_State_def)

section \<open>Picking\<close>

definition allowed :: "(nat \<Rightarrow> time) \<Rightarrow> provider_pool \<Rightarrow> nat \<Rightarrow> bool" where
  "allowed clk p i \<longleftrightarrow> fst (allow (clk i) (en_breaker (pl_providers p ! i)))"

lemma pick_first_eq:
  "map_option fst (pick_first clk es is) = find (\<lambda>i. fst (allow (clk i) (en_breaker (es ! i)))) is"
  by (induction "is") (auto simp: case_prod_unfold Let_def)

lemma pick_first_find:
  "map_option fst (pick_first clk (pl_providers p) is) = find (allowed clk p) is"
  by (simp add: pick_first_eq allowed_def [abs_def])

lemma pick_first_cases:
  obtains "pick_first clk (pl_providers p) is = None" and "find (allowed clk p) is = None"
  | i es' where "pick_first clk (pl_providers p) is = Some (i, es')" and "find (allowed clk p) is = Some i"
  using pick_first_find [of clk p "is"] by (cases "pick_first clk (pl_providers p) is") auto

lemma find_upt_pos: "find P [Suc 0..<n] = Some i \<Longrightarrow> 0 < i"
  by (auto simp: find_Some_iff)

lemma rotation_covers:
  fixes i n s :: nat
  assumes "i < n"
  shows "\<exists>k < n. i = (s + k) mod n"
proof -
  let ?k = "(i + n - s mod n) mod n"
  define d where "d = n * (s div n)"
  have "s mod n < n" and "s = d + s mod n" using assms by (auto simp: d_def)
  then have "s + (i + n - s mod n) = i + (d + n)" by linarith
  then have "s + (i + n - s mod n) = i + n * (s div n + 1)" by (simp add: d_def)
  then have "(s + ?k) mod n = (i + n * (s div n + 1)) mod n" by (simp only: mod_add_right_eq)
  also have "\<dots> = i" using assms by (simp only: mod_mult_self2 mod_less)
  finally show ?thesis using assms by (intro exI [of _ ?k]) simp
qed

text \<open>
  Writes: the primary whenever its breaker allows; otherwise, with failover on, the first allowed
  provider in configured order, and \<open>ErrNoHealthyProvider\<close> only if no provider at all is allowed; with
  failover off, \<open>ErrCircuitOpen\<close>. The failover counter grows exactly when a provider other than the
  primary is picked.
\<close>

theorem ForWrite_picks:
  assumes "pl_providers p \<noteq> []"
  shows "fst (ForWrite clk p) =
     (if allowed clk p 0 then Inr (en_p (pl_providers p ! 0), 0)
      else if \<not> pl_failover p then Inl ErrCircuitOpen
      else case find (allowed clk p) [1..<length (pl_providers p)] of
             Some i \<Rightarrow> Inr (en_p (pl_providers p ! i), i)
           | None \<Rightarrow> Inl ErrNoHealthyProvider)
   \<and> FailoverCount (snd (ForWrite clk p)) = FailoverCount p +
       (case fst (ForWrite clk p) of Inr (_, i) \<Rightarrow> if i = 0 then 0 else 1 | Inl _ \<Rightarrow> 0)"
proof (cases rule: pick_first_cases [of clk p "[0]"])
  case 1
  then have "\<not> allowed clk p 0" by (auto split: if_splits)
  then show ?thesis
    using assms 1(1) by (cases rule: pick_first_cases [of clk p "[1..<length (pl_providers p)]"])
      (auto simp: ForWrite_def pick_def FailoverCount_def Let_def dest: find_upt_pos)
next
  case (2 i es')
  then have "allowed clk p 0 \<and> i = 0" by (auto split: if_splits)
  with 2(1) assms show ?thesis by (simp add: ForWrite_def pick_def FailoverCount_def Let_def)
qed

theorem ForWrite_picks_witness:
  "fst (ForWrite (\<lambda>_. 1) (NewPool [''https://a'', ''https://b''] False)) =
     Inr (\<lparr>pv_URL = ''https://a'', pv_primary = True\<rparr>, 0)"
  using ForWrite_picks [of "NewPool [''https://a'', ''https://b''] False" "\<lambda>_. 1"]
  by (simp add: NewPool_def allowed_def allow_def newBreaker_def upt_rec)

text \<open>
  Reads: a provider is returned whenever any breaker allows, it is an allowed one of the pool, and
  the read fails with \<open>ErrNoHealthyProvider\<close> exactly when no breaker allows.
\<close>

theorem ForRead_finds:
  assumes "pl_providers p \<noteq> []"
  shows "case fst (ForRead clk p) of
      Inr (pv, i) \<Rightarrow> i < length (pl_providers p) \<and> allowed clk p i \<and> pv = en_p (pl_providers p ! i)
    | Inl err \<Rightarrow> err = ErrNoHealthyProvider \<and> (\<forall>i. i < length (pl_providers p) \<longrightarrow> \<not> allowed clk p i)"
proof -
  let ?n = "length (pl_providers p)"
  define st where "st = unat ((pl_rr p + 1) mod of_nat ?n)"
  let ?is = "map (\<lambda>i. (st + i) mod ?n) [0..<?n]"
  have n: "0 < ?n" using assms by simp
  have rot: "i \<in> set ?is" if "i < ?n" for i
    using rotation_covers [OF that, of st] by (auto simp: image_iff)
  show ?thesis
  proof (cases rule: pick_first_cases [of clk p ?is])
    case 1
    then have "\<not> allowed clk p i" if "i < ?n" for i using rot [OF that] by (auto simp: find_None_iff)
    with 1 n show ?thesis by (simp add: ForRead_def pick_def Let_def st_def [symmetric])
  next
    case (2 i es')
    then have "allowed clk p i" "i < ?n" using n by (auto simp: find_Some_iff)
    with 2 n show ?thesis by (simp add: ForRead_def pick_def Let_def st_def [symmetric])
  qed
qed

theorem ForRead_finds_witness:
  "case fst (ForRead (\<lambda>_. 1) (NewPool [''https://a''] True)) of
      Inr (pv, i) \<Rightarrow> i < 1 \<and> allowed (\<lambda>_. 1) (NewPool [''https://a''] True) i
    | Inl err \<Rightarrow> err = ErrNoHealthyProvider"
proof -
  have "pl_providers (NewPool [''https://a''] True) \<noteq> []" "length (pl_providers (NewPool [''https://a''] True)) = 1"
    by (simp_all add: NewPool_def)
  then show ?thesis using ForRead_finds [of "NewPool [''https://a''] True" "\<lambda>_. 1"] by (auto split: sum.splits)
qed

text \<open>A breaker that is closed stays as it is when asked.\<close>

definition all_closed :: "provider_pool \<Rightarrow> bool" where
  "all_closed p \<longleftrightarrow> (\<forall>e \<in> set (pl_providers p). bk_failures (en_breaker e) < bk_threshold (en_breaker e))"

fun read_run :: "provider_pool \<Rightarrow> (nat \<Rightarrow> time) list \<Rightarrow> nat list \<times> provider_pool" where
  "read_run p [] = ([], p)"
| "read_run p (clk # clks) =
     (let (res, p') = ForRead clk p; (is, p'') = read_run p' clks in
      ((case res of Inr (pv, i) \<Rightarrow> i # is | Inl _ \<Rightarrow> is), p''))"

lemma ForRead_closed:
  assumes "all_closed p" and "pl_providers p \<noteq> []"
  shows "\<exists>pv. ForRead clk p = (Inr (pv, unat ((pl_rr p + 1) mod of_nat (length (pl_providers p)))),
    p\<lparr>pl_rr := pl_rr p + 1\<rparr>)"
proof -
  let ?n = "length (pl_providers p)"
  define st where "st = unat ((pl_rr p + 1) mod of_nat ?n)"
  have upt: "[0..<?n] = 0 # [1..<?n]" using assms(2) by (simp add: upt_conv_Cons)
  have lt: "st mod ?n < ?n" using assms(2) by simp
  then have "pl_providers p ! (st mod ?n) \<in> set (pl_providers p)" by (rule nth_mem)
  then have "allow (clk (st mod ?n)) (en_breaker (pl_providers p ! (st mod ?n))) =
      (True, en_breaker (pl_providers p ! (st mod ?n)))"
    using assms(1) by (auto simp: all_closed_def allow_def)
  then have pf: "pick_first clk (pl_providers p) (map (\<lambda>i. (st + i) mod ?n) [0..<?n]) =
      Some (st mod ?n, pl_providers p)"
    unfolding upt by simp
  have "st mod ?n = st"
  proof (cases "?n < 2 ^ 64")
    case True
    then have "unat (of_nat ?n :: u64) = ?n" by (simp add: unat_of_nat)
    then show ?thesis using assms(2) by (simp add: st_def unat_mod_distrib)
  next
    case False
    have "st < 2 ^ 64" using unsigned_less [of "(pl_rr p + 1) mod of_nat ?n"] by (simp add: st_def)
    with False show ?thesis by simp
  qed
  with pf assms(2) show ?thesis
    by (auto simp: ForRead_def pick_def Let_def st_def [symmetric])
qed

lemma rotation_distinct:
  fixes a m n :: nat
  assumes "m \<le> n"
  shows "distinct (map (\<lambda>k. (a + k + 1) mod n) [0..<m])"
proof -
  have "i = j" if "i \<le> j" "j < n" "(a + i + 1) mod n = (a + j + 1) mod n" for i j
  proof -
    have "a + i + 1 \<le> a + j + 1" using that(1) by simp
    from mod_eq_dvd_iff_nat [OF this, of n] that(3) have "n dvd (a + j + 1) - (a + i + 1)" by metis
    then have "n dvd j - i" by simp
    with that show ?thesis by (auto dest: dvd_imp_le)
  qed
  then show ?thesis
    using assms by (auto simp: distinct_map inj_on_def) (metis less_le_trans nat_le_linear)
qed

lemma read_run_eq:
  assumes "all_closed p" and "pl_providers p \<noteq> []" and "length (pl_providers p) < 2 ^ 64"
    and "unat (pl_rr p) + length clks < 2 ^ 64"
  shows "fst (read_run p clks) = map (\<lambda>k. (unat (pl_rr p) + k + 1) mod length (pl_providers p)) [0..<length clks]"
  using assms
proof (induction clks arbitrary: p)
  case (Cons clk clks)
  let ?n = "length (pl_providers p)" and ?p = "p\<lparr>pl_rr := pl_rr p + 1\<rparr>"
  have rr: "unat (pl_rr p + 1) = unat (pl_rr p) + 1" using Cons.prems(4) by (simp add: unat_word_ariths)
  have n: "unat (of_nat ?n :: u64) = ?n" using Cons.prems(3) by (simp add: unat_of_nat)
  obtain pv where r: "ForRead clk p = (Inr (pv, (unat (pl_rr p) + 1) mod ?n), ?p)"
    using ForRead_closed [OF Cons.prems(1,2), of clk] by (auto simp: unat_mod_distrib rr n)
  have IH: "fst (read_run ?p clks) = map (\<lambda>k. (unat (pl_rr p) + 1 + k + 1) mod ?n) [0..<length clks]"
    using Cons.IH [of ?p] Cons.prems by (simp add: rr all_closed_def)
  have "[0..<length (clk # clks)] = 0 # map Suc [0..<length clks]"
    by (simp add: map_Suc_upt upt_conv_Cons del: upt_Suc)
  with IH show ?case by (simp add: r case_prod_unfold comp_def del: upt_Suc)
qed simp

text \<open>
  Round robin: while every breaker is closed and the 64-bit counter does not wrap, the \<open>k\<close>-th of a
  sequence of reads goes to the provider \<open>counter + k\<close> modulo their number, so as many consecutive
  reads as there are providers visit each provider exactly once.
\<close>

theorem reads_round_robin:
  assumes "all_closed p" and "pl_providers p \<noteq> []" and "length (pl_providers p) < 2 ^ 64"
    and "unat (pl_rr p) + length clks < 2 ^ 64"
  shows "fst (read_run p clks) = map (\<lambda>k. (unat (pl_rr p) + k + 1) mod length (pl_providers p)) [0..<length clks] \<and>
    (length clks \<le> length (pl_providers p) \<longrightarrow> distinct (fst (read_run p clks)))"
  using read_run_eq [OF assms] rotation_distinct [of "length clks" "length (pl_providers p)"] by simp

definition sample_pool :: provider_pool where
  "sample_pool = NewPool [''https://a'', ''https://b'', ''https://c''] True"

lemma sample_pool_simps [simp]:
  "length (pl_providers sample_pool) = 3" "pl_rr sample_pool = 0" "all_closed sample_pool"
  "pl_failover sample_pool" "pl_providers sample_pool \<noteq> []" "allowed clk sample_pool 0"
  by (simp_all add: sample_pool_def NewPool_def all_closed_def newBreaker_def allowed_def allow_def upt_rec)

theorem reads_round_robin_witness:
  "fst (read_run sample_pool [\<lambda>_. 1, \<lambda>_. 1, \<lambda>_. 1, \<lambda>_. 1]) = [1, 2, 0, 1]"
  using reads_round_robin [of sample_pool "[\<lambda>_. 1, \<lambda>_. 1, \<lambda>_. 1, \<lambda>_. 1]"] by (simp add: upt_rec del: read_run.simps)

end
