(* ===== verification/Chain_Adapter.thy ===== *)
theory Chain_Adapter
  imports Chain_Types Codec
begin

text \<open>
  The adapter interface of \<open>internal/chain/adapter.go\<close>, the registry that maps a chain id to its
  adapter and the stub adapter (\<open>internal/chain/registry.go\<close>). An adapter is a record of its
  operations over a state \<open>'w\<close>: the stub's fields, or the node behind a real adapter. The two
  subscriptions hand out channels; the stub's channels are fields of its state, and what is sent
  on one is the input of the components that read it.
\<close>

section \<open>The interface\<close>

record 'w chain_adapter =
  ad_ChainID :: string
  ad_Broadcast :: "bytes \<Rightarrow> 'w \<Rightarrow> string result \<times> 'w"
  ad_GetTx :: "string \<Rightarrow> 'w \<Rightarrow> tx result"
  ad_GetTxStatus :: "string \<Rightarrow> 'w \<Rightarrow> tx_status option result"
  ad_EstimateFee :: "fee_estimate_req \<Rightarrow> 'w \<Rightarrow> fee_estimate option result"
  ad_Height :: "'w \<Rightarrow> u64 result"
  ad_Balance :: "string \<Rightarrow> 'w \<Rightarrow> int result"
  ad_FinalityBlocks :: u64

text \<open>
  What the interface demands of \<open>Broadcast\<close>: the same signed bytes always yield the same hash.
  \<open>hash_of\<close> is that hash; \<open>inv\<close> is what the implementation keeps for it.
\<close>

locale adapter_contract =
  fixes ad :: "'w chain_adapter"
    and hash_of :: "bytes \<Rightarrow> string"
    and inv :: "'w \<Rightarrow> bool"
  assumes Broadcast_hash: "inv w \<Longrightarrow> fst (ad_Broadcast ad b w) = Inr h \<Longrightarrow> h = hash_of b"
    and Broadcast_inv: "inv w \<Longrightarrow> inv (snd (ad_Broadcast ad b w))"
begin

definition resubmit :: "'w \<Rightarrow> bytes list \<Rightarrow> 'w" where
  "resubmit w bs = run (\<lambda>w b. snd (ad_Broadcast ad b w)) w bs"

lemma resubmit_inv: "inv w \<Longrightarrow> inv (resubmit w bs)"
  unfolding resubmit_def by (induction bs arbitrary: w) (auto simp: Broadcast_inv)

lemma same_bytes_same_hash:
  assumes "inv w" and "fst (ad_Broadcast ad b w) = Inr h"
    and "fst (ad_Broadcast ad b (resubmit w bs)) = Inr h'"
  shows "h = h'"
  using assms Broadcast_hash resubmit_inv by metis

end

section \<open>The registry\<close>

type_synonym 'w registry = "(string, 'w chain_adapter) gomap"

definition NewRegistry :: "'w registry" where
  "NewRegistry = []"

definition Register :: "'w chain_adapter \<Rightarrow> 'w registry \<Rightarrow> 'w registry" where
  "Register a r = AList.update (ad_ChainID a) a r"

definition registry_Get :: "string \<Rightarrow> 'w registry \<Rightarrow> 'w chain_adapter result" where
  "registry_Get chainID r =
     (case map_of r chainID of None \<Rightarrow> Inl (ErrUnknownChain chainID) | Some a \<Rightarrow> Inr a)"

definition Chains :: "'w registry \<Rightarrow> string list" where
  "Chains r = map fst r"

section \<open>The stub adapter\<close>

record stub_adapter =
  sa_chainID :: string
  sa_finality :: u64
  sa_height :: u64
  sa_balance :: int
  sa_broadcastFn :: "(bytes \<Rightarrow> string result) option"
  sa_broadcasts :: int
  sa_lastBroadcast :: bytes
  sa_headsCh :: "head list"
  sa_mempoolCh :: "mempool_event list"
  sa_txs :: "(string, tx) gomap"
  sa_statuses :: "(string, tx_status) gomap"
  sa_feeEstimate :: "fee_estimate option"
  sa_broadcastErr :: "error option"

record stub_adapter_options =
  so_ChainID :: string
  so_FinalityBlocks :: u64
  so_Height :: u64
  so_Balance :: "int option"
  so_FeeEstimate :: "fee_estimate option"
  so_BroadcastFn :: "(bytes \<Rightarrow> string result) option"
  so_BroadcastErr :: "error option"

definition NewStubAdapter :: "stub_adapter_options \<Rightarrow> stub_adapter" where
  "NewStubAdapter opts =
     \<lparr>sa_chainID = (if so_ChainID opts = '''' then ''stub'' else so_ChainID opts),
      sa_finality = so_FinalityBlocks opts,
      sa_height = so_Height opts,
      sa_balance = (case so_Balance opts of None \<Rightarrow> 0 | Some b \<Rightarrow> b),
      sa_broadcastFn = so_BroadcastFn opts,
      sa_broadcasts = 0,
      sa_lastBroadcast = [],
      sa_headsCh = [],
      sa_mempoolCh = [],
      sa_txs = [],
      sa_statuses = [],
      sa_feeEstimate = so_FeeEstimate opts,
      sa_broadcastErr = so_BroadcastErr opts\<rparr>"

text \<open>A send in a \<open>select\<close> with a default: the value is lost when the channel's buffer is full.\<close>

definition stub_chan_cap :: nat where
  "stub_chan_cap = 16"

definition EmitHead :: "head \<Rightarrow> stub_adapter \<Rightarrow> stub_adapter" where
  "EmitHead h s = (if length (sa_headsCh s) < stub_chan_cap then s\<lparr>sa_headsCh := sa_headsCh s @ [h]\<rparr> else s)"

definition EmitMempool :: "mempool_event \<Rightarrow> stub_adapter \<Rightarrow> stub_adapter" where
  "EmitMempool e s =
     (if length (sa_mempoolCh s) < stub_chan_cap then s\<lparr>sa_mempoolCh := sa_mempoolCh s @ [e]\<rparr> else s)"

definition BroadcastCount :: "stub_adapter \<Rightarrow> int" where
  "BroadcastCount s = sa_broadcasts s"

definition LastBroadcast :: "stub_adapter \<Rightarrow> bytes" where
  "LastBroadcast s = sa_lastBroadcast s"

definition SeedTx :: "tx \<Rightarrow> tx_status option \<Rightarrow> stub_adapter \<Rightarrow> stub_adapter" where
  "SeedTx t st s =
     (let s = s\<lparr>sa_txs := AList.update (tx_Hash t) t (sa_txs s)\<rparr> in
      case st of
        None \<Rightarrow> s
      | Some st \<Rightarrow> s\<lparr>sa_statuses := AList.update (tx_Hash t) st (sa_statuses s)\<rparr>)"

definition SetHeight :: "u64 \<Rightarrow> stub_adapter \<Rightarrow> stub_adapter" where
  "SetHeight h s = s\<lparr>sa_height := h\<rparr>"

definition SetBalance :: "int \<Rightarrow> stub_adapter \<Rightarrow> stub_adapter" where
  "SetBalance b s = s\<lparr>sa_balance := b\<rparr>"

definition stub_Broadcast :: "bytes \<Rightarrow> stub_adapter \<Rightarrow> string result \<times> stub_adapter" where
  "stub_Broadcast signedTx s =
     (let s' = s\<lparr>sa_broadcasts := sa_broadcasts s + 1, sa_lastBroadcast := signedTx\<rparr> in
      case sa_broadcastErr s of
        Some err \<Rightarrow> (Inl err, s')
      | None \<Rightarrow>
          (case sa_broadcastFn s of
             Some fn \<Rightarrow> (fn signedTx, s')
           | None \<Rightarrow> (Inr (stubHash signedTx), s')))"

definition stub_GetTx :: "string \<Rightarrow> stub_adapter \<Rightarrow> tx result" where
  "stub_GetTx txHash s = (case map_of (sa_txs s) txHash of None \<Rightarrow> Inl ErrTxNotFound | Some t \<Rightarrow> Inr t)"

definition stub_GetTxStatus :: "string \<Rightarrow> stub_adapter \<Rightarrow> tx_status option result" where
  "stub_GetTxStatus txHash s =
     (case map_of (sa_statuses s) txHash of None \<Rightarrow> Inl ErrTxNotFound | Some st \<Rightarrow> Inr (Some st))"

definition stub_EstimateFee :: "fee_estimate_req \<Rightarrow> stub_adapter \<Rightarrow> fee_estimate option result" where
  "stub_EstimateFee req s =
     (case sa_feeEstimate s of
        Some fe \<Rightarrow> Inr (Some fe)
      | None \<Rightarrow>
          Inr (Some \<lparr>fe_ChainID = sa_chainID s, fe_Priority = PriorityStandard, fe_GasLimit = 21000,
            fe_MaxFeePerGas = None, fe_MaxPriorityFeePerGas = None, fe_GasPrice = Some 1000000000,
            fe_TotalFee = Some (21000 * 1000000000), fe_Strategy = ''stub''\<rparr>))"

definition stub_Height :: "stub_adapter \<Rightarrow> u64 result" where
  "stub_Height s = Inr (sa_height s)"

definition stub_Balance :: "string \<Rightarrow> stub_adapter \<Rightarrow> int result" where
  "stub_Balance addr s = Inr (sa_balance s)"

text \<open>
  The stub as an adapter. \<open>ChainID\<close> and \<open>FinalityBlocks\<close> are set once, so they are read off the
  stub the record is made for; the other operations work on the stub's current state.
\<close>

definition stub_ops :: "stub_adapter \<Rightarrow> stub_adapter chain_adapter" where
  "stub_ops s0 =
     \<lparr>ad_ChainID = sa_chainID s0, ad_Broadcast = stub_Broadcast, ad_GetTx = stub_GetTx,
      ad_GetTxStatus = stub_GetTxStatus, ad_EstimateFee = stub_EstimateFee, ad_Height = stub_Height,
      ad_Balance = stub_Balance, ad_FinalityBlocks = sa_finality s0\<rparr>"

definition sample_stub :: stub_adapter where
  "sample_stub = NewStubAdapter \<lparr>so_ChainID = ''ethereum'', so_FinalityBlocks = 12, so_Height = 100,
     so_Balance = Some 1000, so_FeeEstimate = None, so_BroadcastFn = None, so_BroadcastErr = None\<rparr>"

section \<open>The stub meets the contract\<close>

definition stub_plain :: "stub_adapter \<Rightarrow> bool" where
  "stub_plain s \<longleftrightarrow> sa_broadcastFn s = None"

interpretation stub: adapter_contract "stub_ops s0" stubHash stub_plain
  by unfold_locales
    (auto simp: stub_ops_def stub_Broadcast_def stub_plain_def Let_def split: option.splits)

section \<open>Properties\<close>

lemma register_run:
  "map_of (run (\<lambda>r a. Register a r) r0 as) c =
     (case find (\<lambda>a. ad_ChainID a = c) (rev as) of Some a \<Rightarrow> Some a | None \<Rightarrow> map_of r0 c)"
proof (induction as rule: rev_induct)
  case (snoc a as)
  then show ?case by (simp add: Register_def)
qed simp

lemma register_run_wf: "wf_map r0 \<Longrightarrow> wf_map (run (\<lambda>r a. Register a r) r0 as)"
  by (induction as arbitrary: r0) (auto simp: Register_def)

lemma register_run_dom:
  "fst ` set (run (\<lambda>r a. Register a r) r0 as) = fst ` set r0 \<union> ad_ChainID ` set as"
  by (induction as arbitrary: r0) (auto simp: Register_def dom_update)

text \<open>
  The registry after any sequence of registrations: \<open>Get\<close> returns the adapter registered last
  under the chain id, or \<open>ErrUnknownChain\<close> when none was; \<open>Chains\<close> lists every registered id
  once.
\<close>

theorem registry_last_wins:
  "registry_Get c (run (\<lambda>r a. Register a r) NewRegistry as) =
     (case find (\<lambda>a. ad_ChainID a = c) (rev as) of Some a \<Rightarrow> Inr a | None \<Rightarrow> Inl (ErrUnknownChain c))
   \<and> distinct (Chains (run (\<lambda>r a. Register a r) NewRegistry as))
   \<and> set (Chains (run (\<lambda>r a. Register a r) NewRegistry as)) = ad_ChainID ` set as"
proof (intro conjI)
  show "registry_Get c (run (\<lambda>r a. Register a r) NewRegistry as) =
     (case find (\<lambda>a. ad_ChainID a = c) (rev as) of Some a \<Rightarrow> Inr a | None \<Rightarrow> Inl (ErrUnknownChain c))"
    by (simp add: registry_Get_def register_run NewRegistry_def split: option.split)
  show "distinct (Chains (run (\<lambda>r a. Register a r) NewRegistry as))"
    using register_run_wf [of NewRegistry as] by (simp add: Chains_def NewRegistry_def wf_map_def)
  show "set (Chains (run (\<lambda>r a. Register a r) NewRegistry as)) = ad_ChainID ` set as"
    using register_run_dom [of NewRegistry as] by (simp add: Chains_def NewRegistry_def)
qed

end
