(* ===== verification/Go_Json.thy ===== *)
theory Go_Json
  imports Go_Lib
begin

text \<open>
  JSON values and what \<open>encoding/json\<close> does when it decodes one into a Go variable. The text of a
  value is read by the library, so a value is what a body holds; a number keeps its literal, because
  the decoder parses it for the type of the variable. Decoding follows the library: \<open>null\<close> leaves
  a variable as it is, a struct takes the members whose names it has (the exact name first, then
  without regard to case), in their order, and a member of the wrong type is skipped and makes the
  call fail at the end, with the other members set. Names are ASCII.
\<close>

datatype json =
    JNull
  | JBool bool
  | JNum string
  | JStr string
  | JArr "json list"
  | JObj "(string \<times> json) list"

section \<open>Scalars\<close>

text \<open>\<open>strconv.ParseUint(s, 10, 64)\<close> and \<open>strconv.ParseInt(s, 10, 64)\<close> on a number's literal.\<close>

definition parse_uint :: "string \<Rightarrow> u64 option" where
  "parse_uint s =
     (if s \<noteq> [] \<and> list_all is_digit s \<and> digits_value 10 s < 2 ^ 64 then Some (of_nat (digits_value 10 s)) else None)"

definition parse_int :: "string \<Rightarrow> int option" where
  "parse_int s =
     (case big_SetString s of
        None \<Rightarrow> None
      | Some n \<Rightarrow> if - (2 ^ 63) \<le> n \<and> n < 2 ^ 63 then Some n else None)"

text \<open>
  Decoding into a variable. A setter takes the value and the variable and returns the variable as
  decoded, or \<open>None\<close> when the value has the wrong type. \<open>upd\<close> updates the field that is decoded into.
\<close>

type_synonym 'a setter = "json \<Rightarrow> 'a \<Rightarrow> 'a option"

definition set_string :: "((string \<Rightarrow> string) \<Rightarrow> 'a \<Rightarrow> 'a) \<Rightarrow> 'a setter" where
  "set_string upd j a = (case j of JNull \<Rightarrow> Some a | JStr s \<Rightarrow> Some (upd (\<lambda>_. s) a) | _ \<Rightarrow> None)"

definition set_u64 :: "((u64 \<Rightarrow> u64) \<Rightarrow> 'a \<Rightarrow> 'a) \<Rightarrow> 'a setter" where
  "set_u64 upd j a =
     (case j of
        JNull \<Rightarrow> Some a
      | JNum s \<Rightarrow> (case parse_uint s of None \<Rightarrow> None | Some n \<Rightarrow> Some (upd (\<lambda>_. n) a))
      | _ \<Rightarrow> None)"

definition set_int :: "((int \<Rightarrow> int) \<Rightarrow> 'a \<Rightarrow> 'a) \<Rightarrow> 'a setter" where
  "set_int upd j a =
     (case j of
        JNull \<Rightarrow> Some a
      | JNum s \<Rightarrow> (case parse_int s of None \<Rightarrow> None | Some n \<Rightarrow> Some (upd (\<lambda>_. n) a))
      | _ \<Rightarrow> None)"

text \<open>A \<open>json.RawMessage\<close> takes any value, \<open>null\<close> too; \<open>None\<close> is the empty message.\<close>

definition set_raw :: "((json option \<Rightarrow> json option) \<Rightarrow> 'a \<Rightarrow> 'a) \<Rightarrow> 'a setter" where
  "set_raw upd j a = Some (upd (\<lambda>_. Some j) a)"

section \<open>Structs\<close>

type_synonym 'a fields = "(string \<times> 'a setter) list"

definition field_for :: "'a fields \<Rightarrow> string \<Rightarrow> 'a setter option" where
  "field_for fs k =
     (case map_of fs k of
        Some f \<Rightarrow> Some f
      | None \<Rightarrow> map_option snd (find (\<lambda>x. to_lower (fst x) = to_lower k) fs))"

fun set_fields :: "'a fields \<Rightarrow> (string \<times> json) list \<Rightarrow> 'a \<times> bool \<Rightarrow> 'a \<times> bool" where
  "set_fields fs [] r = r"
| "set_fields fs ((k, v) # kvs) (a, ok) =
     (case field_for fs k of
        None \<Rightarrow> set_fields fs kvs (a, ok)
      | Some f \<Rightarrow>
          (case f v a of
             None \<Rightarrow> set_fields fs kvs (a, False)
           | Some a' \<Rightarrow> set_fields fs kvs (a', ok)))"

text \<open>The struct as decoded and whether the call succeeded.\<close>

definition unmarshal_struct :: "'a fields \<Rightarrow> json \<Rightarrow> 'a \<Rightarrow> 'a \<times> bool" where
  "unmarshal_struct fs j a =
     (case j of JNull \<Rightarrow> (a, True) | JObj kvs \<Rightarrow> set_fields fs kvs (a, True) | _ \<Rightarrow> (a, False))"

text \<open>A pointer to a struct: \<open>null\<close> makes it \<open>nil\<close>, an object is decoded into a new struct when it was \<open>nil\<close>.\<close>

definition set_pointer :: "'b fields \<Rightarrow> 'b \<Rightarrow> (('b option \<Rightarrow> 'b option) \<Rightarrow> 'a \<Rightarrow> 'a) \<Rightarrow> ('a \<Rightarrow> 'b option) \<Rightarrow> 'a setter" where
  "set_pointer fs zero upd get j a =
     (if j = JNull then Some (upd (\<lambda>_. None) a)
      else (let (b, ok) = unmarshal_struct fs j (case get a of None \<Rightarrow> zero | Some b \<Rightarrow> b) in
            if ok then Some (upd (\<lambda>_. Some b) a) else None))"

section \<open>Facts\<close>

lemma parse_uint_decimal [simp]: "parse_uint (decimal (unat w)) = Some w"
proof -
  have "unat w < 2 ^ 64" using unsigned_less [of w] by simp
  then show ?thesis by (auto simp: parse_uint_def list_all_iff decimal_digits)
qed

lemma set_string_simps [simp]:
  "set_string upd (JStr s) a = Some (upd (\<lambda>_. s) a)" "set_string upd JNull a = Some a"
  by (simp_all add: set_string_def)

lemma set_u64_simps [simp]:
  "set_u64 upd (JNum (decimal (unat w))) a = Some (upd (\<lambda>_. w) a)" "set_u64 upd JNull a = Some a"
  by (simp_all add: set_u64_def)

text \<open>A member whose name the struct spells exactly is decoded by that field's setter.\<close>

lemma field_for_exact: "map_of fs k = Some f \<Longrightarrow> field_for fs k = Some f"
  by (simp add: field_for_def)

text \<open>Once a member has failed, the call fails.\<close>

lemma set_fields_failed: "\<not> snd (set_fields fs kvs (a, False))"
  by (induction kvs arbitrary: a) (auto split: option.splits)

end
