(* ===== verification/Rpc_Adapters.thy ===== *)
theory Rpc_Adapters
  imports Complex_Main Chain_Adapter Go_Json
begin

text \<open>
  The adapters for EVM chains, Solana and Bitcoin (\<open>internal/chain/adapters.go\<close>) and the JSON-RPC
  client below them. The node is outside the gateway: an exchange is a function of the time allowed,
  the URL, the request and the node's state \<open>'w\<close>, which answers with an HTTP reply. The decimals of
  the Bitcoin adapter are a library's (\<open>shopspring/decimal\<close>), a record of the operations used.
\<close>

section \<open>The JSON-RPC client\<close>

text \<open>A reply: none, or a status code with the body's text and the JSON value it starts with, if any.\<close>

datatype http_reply = HttpFail error | HttpReply int string "json option"

type_synonym 'w exchange = "int \<Rightarrow> string \<Rightarrow> json \<Rightarrow> 'w \<Rightarrow> http_reply \<times> 'w"

record rpc_client =
  rc_urls :: "string list"
  rc_idx :: nat
  rc_timeout :: int

definition newRPCClient :: "string list \<Rightarrow> int \<Rightarrow> rpc_client" where
  "newRPCClient urls timeout =
     \<lparr>rc_urls = urls, rc_idx = 0, rc_timeout = (if timeout \<le> 0 then 5000000000 else timeout)\<rparr>"

record rpc_error =
  rpe_Code :: int
  rpe_Message :: string

record rpc_response =
  rps_JSONRPC :: string
  rps_ID :: int
  rps_Result :: "json option"
  rps_Error :: "rpc_error option"

text \<open>The request's body; nil parameters are written as \<open>null\<close>.\<close>

definition rpc_request :: "string \<Rightarrow> json list option \<Rightarrow> json" where
  "rpc_request method params =
     JObj [(''jsonrpc'', JStr ''2.0''), (''method'', JStr method),
           (''params'', (case params of None \<Rightarrow> JNull | Some ps \<Rightarrow> JArr ps)), (''id'', JNum ''1'')]"

definition rpc_error_fields :: "rpc_error fields" where
  "rpc_error_fields = [(''code'', set_int rpe_Code_update), (''message'', set_string rpe_Message_update)]"

definition rpc_response_fields :: "rpc_response fields" where
  "rpc_response_fields =
     [(''jsonrpc'', set_string rps_JSONRPC_update), (''id'', set_int rps_ID_update), (''result'', set_raw rps_Result_update),
      (''error'', set_pointer rpc_error_fields \<lparr>rpe_Code = 0, rpe_Message = []\<rparr> rps_Error_update rps_Error)]"

definition json_error :: error where
  "json_error = ErrMessage ''json''"

definition rpc_call ::
  "'w exchange \<Rightarrow> rpc_client \<Rightarrow> string \<Rightarrow> json list option \<Rightarrow> 'w \<Rightarrow> json option result \<times> 'w" where
  "rpc_call x c method params w =
     (if length (rc_urls c) = 0 then (Inl (ErrMessage ''no rpc urls configured''), w)
      else
        (let url = rc_urls c ! (rc_idx c mod length (rc_urls c));
             (reply, w') = x (rc_timeout c) url (rpc_request method params) w in
         case reply of
           HttpFail err \<Rightarrow> (Inl err, w')
         | HttpReply code raw body \<Rightarrow>
             if code \<noteq> 200 then (Inl (ErrMessage (''rpc http '' @ big_String code @ '': '' @ raw)), w')
             else (case body of
                     None \<Rightarrow> (Inl json_error, w')
                   | Some j \<Rightarrow>
                       (let (r, ok) = unmarshal_struct rpc_response_fields j
                              \<lparr>rps_JSONRPC = [], rps_ID = 0, rps_Result = None, rps_Error = None\<rparr> in
                        if \<not> ok then (Inl json_error, w')
                        else case rps_Error r of
                               Some e \<Rightarrow> (Inl (ErrMessage (''rpc error '' @ big_String (rpe_Code e) @ '': '' @ rpe_Message e)), w')
                             | None \<Rightarrow> (Inr (rps_Result r), w')))))"

text \<open>
  Decoding a result: the empty message is an error, \<open>null\<close> leaves the zero value. \<open>unmarshal\<close> decodes
  into a variable that holds \<open>zero\<close>.
\<close>

definition unmarshal :: "'a setter \<Rightarrow> 'a \<Rightarrow> json option \<Rightarrow> 'a result" where
  "unmarshal f zero res =
     (case res of
        None \<Rightarrow> Inl json_error
      | Some j \<Rightarrow> (case f j zero of None \<Rightarrow> Inl json_error | Some a \<Rightarrow> Inr a))"

definition unmarshal_string :: "json option \<Rightarrow> string result" where
  "unmarshal_string = unmarshal (set_string (\<lambda>f. f)) []"

definition unmarshal_u64 :: "json option \<Rightarrow> u64 result" where
  "unmarshal_u64 = unmarshal (set_u64 (\<lambda>f. f)) 0"

definition unmarshal_fields :: "'a fields \<Rightarrow> 'a \<Rightarrow> json option \<Rightarrow> 'a result" where
  "unmarshal_fields fs zero res =
     unmarshal (\<lambda>j a. let (b, ok) = unmarshal_struct fs j a in if ok then Some b else None) zero res"

text \<open>A call whose result is decoded by \<open>k\<close>, the pattern of every read.\<close>

definition rpc_decode ::
  "'w exchange \<Rightarrow> rpc_client \<Rightarrow> string \<Rightarrow> json list option \<Rightarrow> (json option \<Rightarrow> 'a result) \<Rightarrow> 'w \<Rightarrow> 'a result \<times> 'w" where
  "rpc_decode x c method params k w =
     (let (res, w') = rpc_call x c method params w in
      (case res of Inl err \<Rightarrow> Inl err | Inr j \<Rightarrow> k j, w'))"

section \<open>Hexadecimal quantities\<close>

definition parseHexQuantity :: "string \<Rightarrow> u64 result" where
  "parseHexQuantity s =
     (let s = trim_prefix s ''0x'' in
      if s = [] then Inr 0
      else case sscanf_x s of None \<Rightarrow> Inl (ErrMessage ''expected integer'') | Some v \<Rightarrow> Inr v)"

definition parseHexBig :: "string \<Rightarrow> int result" where
  "parseHexBig s =
     (let s = trim_prefix s ''0x'' in
      if s = [] then Inr 0
      else case big_parse 16 s of None \<Rightarrow> Inl (ErrMessage (''bad hex big: '' @ s)) | Some n \<Rightarrow> Inr n)"

text \<open>What a caller that ignores the error goes on with: zero, or \<open>nil\<close> for a \<open>*big.Int\<close>.\<close>

definition or_zero :: "u64 result \<Rightarrow> u64" where
  "or_zero r = (case r of Inl _ \<Rightarrow> 0 | Inr v \<Rightarrow> v)"

definition or_nil :: "int result \<Rightarrow> int option" where
  "or_nil r = (case r of Inl _ \<Rightarrow> None | Inr v \<Rightarrow> Some v)"

section \<open>EVM\<close>

record evm_adapter =
  evm_cfg :: chain_config
  evm_rpc :: rpc_client
  evm_chainID :: string

definition NewEVMAdapter :: "chain_config \<Rightarrow> evm_adapter" where
  "NewEVMAdapter cfg =
     \<lparr>evm_cfg = cfg, evm_rpc = newRPCClient (cc_RPCURLs cfg) 5000000000, evm_chainID = cc_ChainID cfg\<rparr>"

definition evm_Broadcast :: "'w exchange \<Rightarrow> evm_adapter \<Rightarrow> bytes \<Rightarrow> 'w \<Rightarrow> string result \<times> 'w" where
  "evm_Broadcast x e signedTx =
     rpc_decode x (evm_rpc e) ''eth_sendRawTransaction'' (Some [JStr (''0x'' @ hex_encode signedTx)]) unmarshal_string"

definition evm_Height :: "'w exchange \<Rightarrow> evm_adapter \<Rightarrow> 'w \<Rightarrow> u64 result \<times> 'w" where
  "evm_Height x e =
     rpc_decode x (evm_rpc e) ''eth_blockNumber'' None
       (\<lambda>res. case unmarshal_string res of Inl err \<Rightarrow> Inl err | Inr hexStr \<Rightarrow> parseHexQuantity hexStr)"

definition evm_Balance :: "'w exchange \<Rightarrow> evm_adapter \<Rightarrow> string \<Rightarrow> 'w \<Rightarrow> int result \<times> 'w" where
  "evm_Balance x e addr =
     rpc_decode x (evm_rpc e) ''eth_getBalance'' (Some [JStr addr, JStr ''latest''])
       (\<lambda>res. case unmarshal_string res of Inl err \<Rightarrow> Inl err | Inr hexStr \<Rightarrow> parseHexBig hexStr)"

record evm_raw_tx =
  rw_Hash :: string
  rw_From :: string
  rw_To :: string
  rw_Value :: string
  rw_Nonce :: string
  rw_BlockNum :: string
  rw_BlockHash :: string

definition evm_raw_fields :: "evm_raw_tx fields" where
  "evm_raw_fields =
     [(''hash'', set_string rw_Hash_update), (''from'', set_string rw_From_update), (''to'', set_string rw_To_update),
      (''value'', set_string rw_Value_update), (''nonce'', set_string rw_Nonce_update),
      (''blockNumber'', set_string rw_BlockNum_update), (''blockHash'', set_string rw_BlockHash_update)]"

definition evm_decode_tx :: "string \<Rightarrow> json option \<Rightarrow> tx result" where
  "evm_decode_tx cid res =
     (if res = None \<or> res = Some JNull then Inl ErrTxNotFound
      else case unmarshal_fields evm_raw_fields
             \<lparr>rw_Hash = [], rw_From = [], rw_To = [], rw_Value = [], rw_Nonce = [], rw_BlockNum = [], rw_BlockHash = []\<rparr> res of
             Inl err \<Rightarrow> Inl err
           | Inr raw \<Rightarrow>
               if rw_Hash raw = [] then Inl ErrTxNotFound
               else Inr \<lparr>tx_ChainID = cid, tx_Hash = rw_Hash raw, tx_From = rw_From raw, tx_To = rw_To raw,
                         tx_Value = or_nil (parseHexBig (rw_Value raw)), tx_Fee = None,
                         tx_Nonce = or_zero (parseHexQuantity (rw_Nonce raw)),
                         tx_BlockHeight = or_zero (parseHexQuantity (rw_BlockNum raw)),
                         tx_BlockHash = rw_BlockHash raw, tx_Status = StatusMempool, tx_Raw = []\<rparr>)"

definition evm_GetTx :: "'w exchange \<Rightarrow> evm_adapter \<Rightarrow> string \<Rightarrow> 'w \<Rightarrow> tx result \<times> 'w" where
  "evm_GetTx x e txHash =
     rpc_decode x (evm_rpc e) ''eth_getTransactionByHash'' (Some [JStr txHash]) (evm_decode_tx (evm_chainID e))"

definition evm_GetTxStatus :: "'w exchange \<Rightarrow> evm_adapter \<Rightarrow> string \<Rightarrow> 'w \<Rightarrow> tx_status option result \<times> 'w" where
  "evm_GetTxStatus x e txHash w =
     (case evm_GetTx x e txHash w of
        (Inl err, w) \<Rightarrow> (Inl err, w)
      | (Inr t, w) \<Rightarrow>
          (let st = \<lparr>ts_ChainID = tx_ChainID t, ts_TxHash = tx_Hash t, ts_Status = StatusMempool, ts_Confirmations = 0,
                     ts_BlockHeight = tx_BlockHeight t, ts_BlockHash = tx_BlockHash t, ts_FinalizedAt = zero_time\<rparr> in
           if tx_BlockHeight t = 0 then (Inr (Some st), w)
           else (case evm_Height x e w of
                   (Inl err, w) \<Rightarrow> (Inl err, w)
                 | (Inr tip, w) \<Rightarrow>
                     (let st = st\<lparr>ts_Confirmations := tip - tx_BlockHeight t + 1\<rparr> in
                      (Inr (Some (st\<lparr>ts_Status := (if ts_Confirmations st \<ge> cc_FinalityBlocks (evm_cfg e)
                                                   then StatusFinalized else StatusConfirmed)\<rparr>)), w)))))"

definition evm_multiplier :: "priority \<Rightarrow> int" where
  "evm_multiplier p = (if p = PriorityLow then 90 else if p = PriorityHigh then 130 else 1)"

definition evm_EstimateFee ::
  "'w exchange \<Rightarrow> evm_adapter \<Rightarrow> fee_estimate_req \<Rightarrow> 'w \<Rightarrow> fee_estimate option result \<times> 'w" where
  "evm_EstimateFee x e req =
     rpc_decode x (evm_rpc e) ''eth_gasPrice'' None
       (\<lambda>res. case unmarshal_string res of
          Inl err \<Rightarrow> Inl err
        | Inr hexStr \<Rightarrow>
            (case parseHexBig hexStr of
               Inl err \<Rightarrow> Inl err
             | Inr gp \<Rightarrow>
                 (let p = (if fr_Priority req = [] then PriorityStandard else fr_Priority req);
                      gp = (gp * evm_multiplier p) div 100 in
                  Inr (Some \<lparr>fe_ChainID = evm_chainID e, fe_Priority = p, fe_GasLimit = 21000, fe_MaxFeePerGas = None,
                        fe_MaxPriorityFeePerGas = None, fe_GasPrice = Some gp, fe_TotalFee = Some (gp * 21000),
                        fe_Strategy = cc_GasStrategy (evm_cfg e)\<rparr>))))"

text \<open>
  One tick of the goroutine behind \<open>SubscribeHeads\<close>: the last height reported and the channel's
  buffer. The send is in a \<open>select\<close> with a default, so a head is lost when the buffer is full; the
  height counts as reported all the same.
\<close>

definition heads_cap :: nat where
  "heads_cap = 16"

definition report_height :: "string \<Rightarrow> time \<Rightarrow> u64 result \<Rightarrow> u64 \<times> head list \<Rightarrow> u64 \<times> head list" where
  "report_height cid now ans st =
     (case ans of
        Inl _ \<Rightarrow> st
      | Inr h \<Rightarrow>
          if h \<noteq> fst st
          then (h, if length (snd st) < heads_cap
                   then snd st @ [\<lparr>hd_ChainID = cid, hd_Height = h, hd_Hash = [], hd_ParentHash = [], hd_Timestamp = now\<rparr>]
                   else snd st)
          else st)"

definition evm_heads_tick :: "'w exchange \<Rightarrow> evm_adapter \<Rightarrow> time \<Rightarrow> (u64 \<times> head list) \<times> 'w \<Rightarrow> (u64 \<times> head list) \<times> 'w" where
  "evm_heads_tick x e now st =
     (let (ans, w) = evm_Height x e (snd st) in (report_height (evm_chainID e) now ans (fst st), w))"

definition evm_ops :: "'w exchange \<Rightarrow> evm_adapter \<Rightarrow> 'w chain_adapter" where
  "evm_ops x e =
     \<lparr>ad_ChainID = evm_chainID e, ad_Broadcast = evm_Broadcast x e, ad_GetTx = (\<lambda>h w. fst (evm_GetTx x e h w)),
      ad_GetTxStatus = (\<lambda>h w. fst (evm_GetTxStatus x e h w)), ad_EstimateFee = (\<lambda>r w. fst (evm_EstimateFee x e r w)),
      ad_Height = (\<lambda>w. fst (evm_Height x e w)), ad_Balance = (\<lambda>a w. fst (evm_Balance x e a w)),
      ad_FinalityBlocks = cc_FinalityBlocks (evm_cfg e)\<rparr>"

section \<open>Solana\<close>

record solana_adapter =
  sol_cfg :: chain_config
  sol_rpc :: rpc_client
  sol_chainID :: string

definition NewSolanaAdapter :: "chain_config \<Rightarrow> solana_adapter" where
  "NewSolanaAdapter cfg =
     \<lparr>sol_cfg = cfg, sol_rpc = newRPCClient (cc_RPCURLs cfg) 5000000000, sol_chainID = cc_ChainID cfg\<rparr>"

definition sol_Broadcast :: "'w exchange \<Rightarrow> solana_adapter \<Rightarrow> bytes \<Rightarrow> 'w \<Rightarrow> string result \<times> 'w" where
  "sol_Broadcast x s signedTx =
     rpc_decode x (sol_rpc s) ''sendTransaction''
       (Some [JStr (encodeBase64 signedTx), JObj [(''encoding'', JStr ''base64'')]]) unmarshal_string"

definition sol_Height :: "'w exchange \<Rightarrow> solana_adapter \<Rightarrow> 'w \<Rightarrow> u64 result \<times> 'w" where
  "sol_Height x s = rpc_decode x (sol_rpc s) ''getSlot'' (Some []) unmarshal_u64"

record sol_value =
  sv_Value :: u64

definition sol_Balance :: "'w exchange \<Rightarrow> solana_adapter \<Rightarrow> string \<Rightarrow> 'w \<Rightarrow> int result \<times> 'w" where
  "sol_Balance x s addr =
     rpc_decode x (sol_rpc s) ''getBalance'' (Some [JStr addr])
       (\<lambda>res. case unmarshal_fields [(''value'', set_u64 sv_Value_update)] \<lparr>sv_Value = 0\<rparr> res of
          Inl err \<Rightarrow> Inl err
        | Inr resp \<Rightarrow> Inr (uint (sv_Value resp)))"

record sol_raw_tx =
  sr_Slot :: u64

definition sol_decode_tx :: "string \<Rightarrow> string \<Rightarrow> json option \<Rightarrow> tx result" where
  "sol_decode_tx cid txHash res =
     (if res = None \<or> res = Some JNull then Inl ErrTxNotFound
      else case unmarshal_fields [(''slot'', set_u64 sr_Slot_update)] \<lparr>sr_Slot = 0\<rparr> res of
             Inl err \<Rightarrow> Inl err
           | Inr raw \<Rightarrow>
               Inr \<lparr>tx_ChainID = cid, tx_Hash = txHash, tx_From = [], tx_To = [], tx_Value = None, tx_Fee = None,
                    tx_Nonce = 0, tx_BlockHeight = sr_Slot raw, tx_BlockHash = [], tx_Status = StatusConfirmed, tx_Raw = []\<rparr>)"

definition sol_GetTx :: "'w exchange \<Rightarrow> solana_adapter \<Rightarrow> string \<Rightarrow> 'w \<Rightarrow> tx result \<times> 'w" where
  "sol_GetTx x s txHash =
     rpc_decode x (sol_rpc s) ''getTransaction'' (Some [JStr txHash, JObj [(''encoding'', JStr ''json'')]])
       (sol_decode_tx (sol_chainID s) txHash)"

definition sol_GetTxStatus :: "'w exchange \<Rightarrow> solana_adapter \<Rightarrow> string \<Rightarrow> 'w \<Rightarrow> tx_status option result \<times> 'w" where
  "sol_GetTxStatus x s txHash w =
     (case sol_GetTx x s txHash w of
        (Inl err, w) \<Rightarrow> (Inl err, w)
      | (Inr t, w) \<Rightarrow>
          (Inr (Some \<lparr>ts_ChainID = tx_ChainID t, ts_TxHash = tx_Hash t, ts_Status = tx_Status t, ts_Confirmations = 1,
                 ts_BlockHeight = tx_BlockHeight t, ts_BlockHash = [], ts_FinalizedAt = zero_time\<rparr>), w))"

definition sol_EstimateFee :: "solana_adapter \<Rightarrow> fee_estimate_req \<Rightarrow> fee_estimate option result" where
  "sol_EstimateFee s req =
     (let p = (if fr_Priority req = [] then PriorityStandard else fr_Priority req);
          mult = (if p = PriorityLow then 2500 else if p = PriorityHigh then 10000 else 5000) in
      Inr (Some \<lparr>fe_ChainID = sol_chainID s, fe_Priority = p, fe_GasLimit = 0, fe_MaxFeePerGas = None,
            fe_MaxPriorityFeePerGas = None, fe_GasPrice = Some mult, fe_TotalFee = Some mult,
            fe_Strategy = cc_GasStrategy (sol_cfg s)\<rparr>))"

definition sol_heads_tick :: "'w exchange \<Rightarrow> solana_adapter \<Rightarrow> time \<Rightarrow> (u64 \<times> head list) \<times> 'w \<Rightarrow> (u64 \<times> head list) \<times> 'w" where
  "sol_heads_tick x s now st =
     (let (ans, w) = sol_Height x s (snd st) in (report_height (sol_chainID s) now ans (fst st), w))"

definition sol_ops :: "'w exchange \<Rightarrow> solana_adapter \<Rightarrow> 'w chain_adapter" where
  "sol_ops x s =
     \<lparr>ad_ChainID = sol_chainID s, ad_Broadcast = sol_Broadcast x s, ad_GetTx = (\<lambda>h w. fst (sol_GetTx x s h w)),
      ad_GetTxStatus = (\<lambda>h w. fst (sol_GetTxStatus x s h w)), ad_EstimateFee = (\<lambda>r w. sol_EstimateFee s r),
      ad_Height = (\<lambda>w. fst (sol_Height x s w)), ad_Balance = (\<lambda>a w. fst (sol_Balance x s a w)),
      ad_FinalityBlocks = cc_FinalityBlocks (sol_cfg s)\<rparr>"

section \<open>Bitcoin\<close>

text \<open>
  The operations of \<open>decimal.Decimal\<close> the adapter uses: decoding into a variable, the zero value, the
  constructors from an integer and from the two float constants, the product and the integer part.
\<close>

record 'd decimal_ops =
  dc_zero :: 'd
  dc_UnmarshalJSON :: "json \<Rightarrow> 'd \<Rightarrow> 'd option"
  dc_NewFromInt :: "int \<Rightarrow> 'd"
  dc_0_8 :: 'd
  dc_1_5 :: 'd
  dc_Mul :: "'d \<Rightarrow> 'd \<Rightarrow> 'd"
  dc_BigInt :: "'d \<Rightarrow> int"

record bitcoin_adapter =
  btc_cfg :: chain_config
  btc_rpc :: rpc_client
  btc_chainID :: string

definition NewBitcoinAdapter :: "chain_config \<Rightarrow> bitcoin_adapter" where
  "NewBitcoinAdapter cfg =
     \<lparr>btc_cfg = cfg, btc_rpc = newRPCClient (cc_RPCURLs cfg) 5000000000, btc_chainID = cc_ChainID cfg\<rparr>"

definition btc_Broadcast :: "'w exchange \<Rightarrow> bitcoin_adapter \<Rightarrow> bytes \<Rightarrow> 'w \<Rightarrow> string result \<times> 'w" where
  "btc_Broadcast x b signedTx =
     rpc_decode x (btc_rpc b) ''sendrawtransaction'' (Some [JStr (hex_encode signedTx)]) unmarshal_string"

definition btc_Height :: "'w exchange \<Rightarrow> bitcoin_adapter \<Rightarrow> 'w \<Rightarrow> u64 result \<times> 'w" where
  "btc_Height x b = rpc_decode x (btc_rpc b) ''getblockcount'' None unmarshal_u64"

definition btc_Balance :: "'w exchange \<Rightarrow> 'd decimal_ops \<Rightarrow> bitcoin_adapter \<Rightarrow> string \<Rightarrow> 'w \<Rightarrow> int result \<times> 'w" where
  "btc_Balance x D b addr =
     rpc_decode x (btc_rpc b) ''getreceivedbyaddress'' (Some [JStr addr, JNum ''1''])
       (\<lambda>res. case unmarshal (dc_UnmarshalJSON D) (dc_zero D) res of
          Inl err \<Rightarrow> Inl err
        | Inr btc \<Rightarrow> Inr (dc_BigInt D (dc_Mul D btc (dc_NewFromInt D 100000000))))"

definition btc_GetTx :: "bitcoin_adapter \<Rightarrow> string \<Rightarrow> tx result" where
  "btc_GetTx b txHash =
     Inr \<lparr>tx_ChainID = btc_chainID b, tx_Hash = txHash, tx_From = [], tx_To = [], tx_Value = None, tx_Fee = None,
          tx_Nonce = 0, tx_BlockHeight = 0, tx_BlockHash = [], tx_Status = StatusMempool, tx_Raw = []\<rparr>"

definition btc_GetTxStatus :: "bitcoin_adapter \<Rightarrow> string \<Rightarrow> tx_status option result" where
  "btc_GetTxStatus b txHash =
     Inr (Some \<lparr>ts_ChainID = btc_chainID b, ts_TxHash = txHash, ts_Status = StatusMempool, ts_Confirmations = 0,
           ts_BlockHeight = 0, ts_BlockHash = [], ts_FinalizedAt = zero_time\<rparr>)"

record 'd btc_fee_resp =
  bf_FeeRate :: 'd

definition btc_EstimateFee ::
  "'w exchange \<Rightarrow> 'd decimal_ops \<Rightarrow> bitcoin_adapter \<Rightarrow> fee_estimate_req \<Rightarrow> 'w \<Rightarrow> fee_estimate option result \<times> 'w" where
  "btc_EstimateFee x D b req =
     rpc_decode x (btc_rpc b) ''estimateSmartFee''
       (Some [JNum (decimal (unat (cc_FinalityBlocks (btc_cfg b)))), JStr ''CONSERVATIVE''])
       (\<lambda>res. case unmarshal_fields
                [(''feerate'', \<lambda>j r. map_option (\<lambda>d. r\<lparr>bf_FeeRate := d\<rparr>) (dc_UnmarshalJSON D j (bf_FeeRate r)))]
                \<lparr>bf_FeeRate = dc_zero D\<rparr> res of
          Inl err \<Rightarrow> Inl err
        | Inr resp \<Rightarrow>
            (let p = (if fr_Priority req = [] then PriorityStandard else fr_Priority req);
                 mult = (if p = PriorityLow then dc_0_8 D else if p = PriorityHigh then dc_1_5 D else dc_NewFromInt D 1);
                 rate = dc_Mul D (bf_FeeRate resp) mult;
                 gp = dc_BigInt D (dc_Mul D rate (dc_NewFromInt D 100000)) in
             Inr (Some \<lparr>fe_ChainID = btc_chainID b, fe_Priority = p, fe_GasLimit = 0, fe_MaxFeePerGas = None,
                   fe_MaxPriorityFeePerGas = None, fe_GasPrice = Some gp, fe_TotalFee = Some (gp * 250),
                   fe_Strategy = cc_GasStrategy (btc_cfg b)\<rparr>)))"

definition btc_heads_tick :: "'w exchange \<Rightarrow> bitcoin_adapter \<Rightarrow> time \<Rightarrow> (u64 \<times> head list) \<times> 'w \<Rightarrow> (u64 \<times> head list) \<times> 'w" where
  "btc_heads_tick x b now st =
     (let (ans, w) = btc_Height x b (snd st) in (report_height (btc_chainID b) now ans (fst st), w))"

definition btc_ops :: "'w exchange \<Rightarrow> 'd decimal_ops \<Rightarrow> bitcoin_adapter \<Rightarrow> 'w chain_adapter" where
  "btc_ops x D b =
     \<lparr>ad_ChainID = btc_chainID b, ad_Broadcast = btc_Broadcast x b, ad_GetTx = (\<lambda>h w. btc_GetTx b h),
      ad_GetTxStatus = (\<lambda>h w. btc_GetTxStatus b h), ad_EstimateFee = (\<lambda>r w. fst (btc_EstimateFee x D b r w)),
      ad_Height = (\<lambda>w. fst (btc_Height x b w)), ad_Balance = (\<lambda>a w. fst (btc_Balance x D b a w)),
      ad_FinalityBlocks = cc_FinalityBlocks (btc_cfg b)\<rparr>"

section \<open>What the client sends and receives\<close>

text \<open>
  The reply objects of JSON-RPC: no member occurs twice, and the names of the protocol are
  case-sensitive, so no member differs from one of them in case alone. Members may come in any order and there may
  be others. A reply without an error leaves the member \<open>error\<close> out or sets it to \<open>null\<close>.
\<close>

definition rpc_names :: "string list" where
  "rpc_names = [''jsonrpc'', ''id'', ''result'', ''error'']"

definition rpc_object :: "(string \<times> json) list \<Rightarrow> bool" where
  "rpc_object kvs \<longleftrightarrow> distinct (map fst kvs) \<and> (\<forall>k \<in> set (map fst kvs). to_lower k \<in> set rpc_names \<longrightarrow> k \<in> set rpc_names)"

definition no_error :: "(string \<times> json) list \<Rightarrow> bool" where
  "no_error kvs \<longleftrightarrow> map_of kvs ''error'' = None \<or> map_of kvs ''error'' = Some JNull"

text \<open>What the client reads of such an object, whatever the order of its members.\<close>

lemma field_for_rpc:
  "field_for rpc_response_fields ''jsonrpc'' = Some (set_string rps_JSONRPC_update)"
  "field_for rpc_response_fields ''id'' = Some (set_int rps_ID_update)"
  "field_for rpc_response_fields ''result'' = Some (set_raw rps_Result_update)"
  "field_for rpc_response_fields ''error'' =
     Some (set_pointer rpc_error_fields \<lparr>rpe_Code = 0, rpe_Message = []\<rparr> rps_Error_update rps_Error)"
  "to_lower k \<notin> set rpc_names \<Longrightarrow> field_for rpc_response_fields k = None"
proof -
  have low: "to_lower ''jsonrpc'' = ''jsonrpc''" "to_lower ''id'' = ''id''" "to_lower ''result'' = ''result''" "to_lower ''error'' = ''error''"
    by code_simp+
  then show "to_lower k \<notin> set rpc_names \<Longrightarrow> field_for rpc_response_fields k = None"
    by (auto simp: field_for_def rpc_response_fields_def rpc_names_def)
qed (simp_all add: field_for_def rpc_response_fields_def)

lemma set_string_frame:
  "set_string rps_JSONRPC_update v a = Some a' \<Longrightarrow> rps_Result a' = rps_Result a \<and> rps_Error a' = rps_Error a"
  "set_int rps_ID_update v a = Some a' \<Longrightarrow> rps_Result a' = rps_Result a \<and> rps_Error a' = rps_Error a"
  by (auto simp: set_string_def set_int_def split: json.splits option.splits)

lemma set_error:
  assumes "set_pointer rpc_error_fields z rps_Error_update rps_Error v a = Some a'"
  shows "rps_Result a' = rps_Result a \<and> (rps_Error a' = None \<longleftrightarrow> v = JNull)"
  using assms by (auto simp: set_pointer_def Let_def split: if_splits prod.splits)

lemma rpc_fields_read:
  assumes "rpc_object kvs" and "set_fields rpc_response_fields kvs (a, ok) = (r, True)"
  shows "rps_Result r = (case map_of kvs ''result'' of None \<Rightarrow> rps_Result a | Some j \<Rightarrow> Some j) \<and>
    (rps_Error r = None \<longleftrightarrow> (case map_of kvs ''error'' of None \<Rightarrow> rps_Error a = None | Some e \<Rightarrow> e = JNull))"
  using assms
proof (induction kvs arbitrary: a ok)
  case (Cons kv kvs)
  obtain k v where kv: "kv = (k, v)" by fastforce
  have obj: "rpc_object kvs" using Cons.prems(1) by (simp add: rpc_object_def)
  have new: "map_of kvs k = None" using Cons.prems(1) by (simp add: rpc_object_def kv map_of_eq_None_iff)
  have k: "k \<in> set rpc_names \<or> to_lower k \<notin> set rpc_names" using Cons.prems(1) by (auto simp: rpc_object_def kv)
  show ?case
  proof (cases "k \<in> set rpc_names")
    case False
    then have "field_for rpc_response_fields k = None" "k \<noteq> ''result''" "k \<noteq> ''error''"
      using k field_for_rpc(5) by (auto simp: rpc_names_def)
    then show ?thesis using Cons.IH [OF obj] Cons.prems(2) by (simp add: kv)
  next
    case True
    then obtain f where f: "field_for rpc_response_fields k = Some f" by (auto simp: rpc_names_def field_for_rpc)
    obtain a' where a': "f v a = Some a'"
      using Cons.prems(2) set_fields_failed [of rpc_response_fields kvs a] by (cases "f v a") (auto simp: kv f)
    have rest: "set_fields rpc_response_fields kvs (a', ok) = (r, True)" using Cons.prems(2) by (simp add: kv f a')
    from True consider "k = ''jsonrpc''" | "k = ''id''" | "k = ''result''" | "k = ''error''" by (auto simp: rpc_names_def)
    then show ?thesis
      using Cons.IH [OF obj rest] new f a'
      by cases (auto simp: kv field_for_rpc set_raw_def dest!: set_string_frame set_error split: option.splits)
  qed
qed simp

lemma set_int_one [simp]: "set_int upd (JNum ''1'') a = Some (upd (\<lambda>_. 1) a)"
proof -
  have "parse_int ''1'' = Some 1" by code_simp
  then show ?thesis by (simp add: set_int_def)
qed

text \<open>
  A reply with the result \<open>j\<close>: the object has it, has no error and echoes the request's id; the version is some
  text, if there at all.
\<close>

definition rpc_result :: "json \<Rightarrow> http_reply \<Rightarrow> bool" where
  "rpc_result j reply \<longleftrightarrow>
     (\<exists>raw kvs. reply = HttpReply 200 raw (Some (JObj kvs)) \<and> rpc_object kvs \<and> no_error kvs \<and> map_of kvs ''result'' = Some j \<and>
        (\<forall>v. (''jsonrpc'', v) \<in> set kvs \<longrightarrow> (\<exists>version. v = JStr version)) \<and> (\<forall>v. (''id'', v) \<in> set kvs \<longrightarrow> v = JNum ''1''))"

text \<open>The node at \<open>u\<close> answers a request with the result \<open>j\<close>, within the adapters' five seconds.\<close>

definition answers :: "'w exchange \<Rightarrow> string \<Rightarrow> string \<Rightarrow> json list option \<Rightarrow> 'w \<Rightarrow> json \<Rightarrow> 'w \<Rightarrow> bool" where
  "answers x u m ps w j w' \<longleftrightarrow> (\<exists>reply. x 5000000000 u (rpc_request m ps) w = (reply, w') \<and> rpc_result j reply)"

lemma rpc_fields_ok:
  assumes "rpc_object kvs" and "\<forall>v. (''error'', v) \<in> set kvs \<longrightarrow> v = JNull"
    and "\<forall>v. (''jsonrpc'', v) \<in> set kvs \<longrightarrow> (\<exists>version. v = JStr version)" and "\<forall>v. (''id'', v) \<in> set kvs \<longrightarrow> v = JNum ''1''"
  shows "snd (set_fields rpc_response_fields kvs (a, True))"
  using assms
proof (induction kvs arbitrary: a)
  case (Cons kv kvs)
  obtain k v where kv: "kv = (k, v)" by fastforce
  have IH: "snd (set_fields rpc_response_fields kvs (a', True))" for a'
    using Cons.prems by (intro Cons.IH) (auto simp: rpc_object_def)
  show ?case
  proof (cases "k \<in> set rpc_names")
    case False
    then have "field_for rpc_response_fields k = None" using Cons.prems(1) by (intro field_for_rpc(5)) (auto simp: rpc_object_def kv)
    then show ?thesis by (simp add: kv IH)
  next
    case True
    then consider "k = ''jsonrpc''" | "k = ''id''" | "k = ''result''" | "k = ''error''" by (auto simp: rpc_names_def)
    then show ?thesis using Cons.prems(2-4) IH by cases (auto simp: kv field_for_rpc set_raw_def set_pointer_def)
  qed
qed simp

lemma no_error_members: "rpc_object kvs \<Longrightarrow> no_error kvs \<Longrightarrow> (''error'', v) \<in> set kvs \<Longrightarrow> v = JNull"
  by (auto simp: rpc_object_def no_error_def)

lemma rpc_decode_answer:
  assumes "us = u # us'" and "answers x u m ps w j w'"
  shows "rpc_decode x (newRPCClient us 5000000000) m ps k w = (k (Some j), w')"
proof -
  obtain raw kvs where kvs: "x 5000000000 u (rpc_request m ps) w = (HttpReply 200 raw (Some (JObj kvs)), w')" "rpc_object kvs"
    "no_error kvs" "map_of kvs ''result'' = Some j"
    and typed: "\<forall>v. (''jsonrpc'', v) \<in> set kvs \<longrightarrow> (\<exists>version. v = JStr version)" "\<forall>v. (''id'', v) \<in> set kvs \<longrightarrow> v = JNum ''1''"
    using assms(2) by (auto simp: answers_def rpc_result_def)
  let ?a = "\<lparr>rps_JSONRPC = [], rps_ID = 0, rps_Result = None, rps_Error = None\<rparr>"
  obtain r where r: "set_fields rpc_response_fields kvs (?a, True) = (r, True)"
    using rpc_fields_ok [OF kvs(2) _ typed, of ?a] no_error_members [OF kvs(2,3)] by (metis prod.collapse)
  have "rps_Result r = Some j" "rps_Error r = None"
    using rpc_fields_read [OF kvs(2) r] kvs(3,4) by (auto simp: no_error_def)
  then show ?thesis
    using assms(1) kvs(1) r by (simp add: rpc_decode_def rpc_call_def newRPCClient_def unmarshal_struct_def)
qed

lemma unmarshal_string_JStr [simp]: "unmarshal_string (Some (JStr s)) = Inr s"
  by (simp add: unmarshal_string_def unmarshal_def)

lemma unmarshal_u64_decimal [simp]: "unmarshal_u64 (Some (JNum (decimal (unat n)))) = Inr n"
  by (simp add: unmarshal_u64_def unmarshal_def)

definition hex_quantity :: "nat \<Rightarrow> string" where
  "hex_quantity n = ''0x'' @ in_base 16 n"

lemma in_base_not_Nil [simp]: "2 \<le> b \<Longrightarrow> b \<le> 16 \<Longrightarrow> in_base b n \<noteq> []"
  using in_base_facts [of b n] by blast

lemma trim_hex_quantity [simp]: "trim_prefix (hex_quantity n) ''0x'' = in_base 16 n"
  unfolding hex_quantity_def by (rule trim_prefix_append)

lemma parseHexQuantity_hex [simp]: "parseHexQuantity (hex_quantity (unat v)) = Inr v"
  by (simp add: parseHexQuantity_def sscanf_x_in_base)

lemma parseHexBig_hex [simp]: "parseHexBig (hex_quantity n) = Inr (int n)"
  by (simp add: parseHexBig_def big_parse_in_base)

text \<open>The clients of the three adapters, as their constructors make them.\<close>

lemma new_client [simp]:
  "rc_urls (newRPCClient us t) = us" "rc_idx (newRPCClient us t) = 0"
  by (simp_all add: newRPCClient_def)

lemma new_adapters [simp]:
  "evm_rpc (NewEVMAdapter cfg) = newRPCClient (cc_RPCURLs cfg) 5000000000"
  "evm_chainID (NewEVMAdapter cfg) = cc_ChainID cfg" "evm_cfg (NewEVMAdapter cfg) = cfg"
  "sol_rpc (NewSolanaAdapter cfg) = newRPCClient (cc_RPCURLs cfg) 5000000000"
  "sol_chainID (NewSolanaAdapter cfg) = cc_ChainID cfg" "sol_cfg (NewSolanaAdapter cfg) = cfg"
  "btc_rpc (NewBitcoinAdapter cfg) = newRPCClient (cc_RPCURLs cfg) 5000000000"
  "btc_chainID (NewBitcoinAdapter cfg) = cc_ChainID cfg" "btc_cfg (NewBitcoinAdapter cfg) = cfg"
  by (simp_all add: NewEVMAdapter_def NewSolanaAdapter_def NewBitcoinAdapter_def)

section \<open>Properties\<close>

lemma rpc_call_first_url:
  assumes "us = u # us'" and "\<And>t b w. x t u b w = x' t u b w"
  shows "rpc_call x (newRPCClient us d) = rpc_call x' (newRPCClient us d)"
  using assms by (intro ext) (simp add: rpc_call_def cong: if_cong)

lemma rpc_decode_first_url:
  assumes "us = u # us'" and "\<forall>t b w. x t u b w = x' t u b w"
  shows "rpc_decode x (newRPCClient us d) m ps k = rpc_decode x' (newRPCClient us d) m ps k"
  using rpc_call_first_url [of us u us' x x' d] assms by (intro ext) (simp add: rpc_decode_def)

lemmas adapter_call_defs [gw_defs] =
  evm_Broadcast_def evm_Height_def evm_Balance_def evm_GetTx_def evm_EstimateFee_def
  sol_Broadcast_def sol_Height_def sol_Balance_def sol_GetTx_def
  btc_Broadcast_def btc_Height_def btc_Balance_def btc_EstimateFee_def

text \<open>
  The three adapters talk to the first RPC URL of their chain only: with two exchanges that differ
  at most at the other URLs every operation of an adapter is the same, so the URLs listed for
  redundancy are never contacted.
\<close>

theorem only_first_url_used:
  assumes "cc_RPCURLs cfg = u # us" and "\<forall>t b w. x t u b w = x' t u b w"
  shows "evm_ops x (NewEVMAdapter cfg) = evm_ops x' (NewEVMAdapter cfg)
    \<and> sol_ops x (NewSolanaAdapter cfg) = sol_ops x' (NewSolanaAdapter cfg)
    \<and> btc_ops x D (NewBitcoinAdapter cfg) = btc_ops x' D (NewBitcoinAdapter cfg)"
proof -
  note first = rpc_decode_first_url [where x = x and x' = x' and u = u, OF assms]
  have evm: "evm_Broadcast x (NewEVMAdapter cfg) = evm_Broadcast x' (NewEVMAdapter cfg)"
    "evm_GetTx x (NewEVMAdapter cfg) = evm_GetTx x' (NewEVMAdapter cfg)"
    "evm_Height x (NewEVMAdapter cfg) = evm_Height x' (NewEVMAdapter cfg)"
    "evm_Balance x (NewEVMAdapter cfg) = evm_Balance x' (NewEVMAdapter cfg)"
    "evm_EstimateFee x (NewEVMAdapter cfg) = evm_EstimateFee x' (NewEVMAdapter cfg)"
    by (simp_all add: gw_defs fun_eq_iff first)
  have sol: "sol_Broadcast x (NewSolanaAdapter cfg) = sol_Broadcast x' (NewSolanaAdapter cfg)"
    "sol_GetTx x (NewSolanaAdapter cfg) = sol_GetTx x' (NewSolanaAdapter cfg)"
    "sol_Height x (NewSolanaAdapter cfg) = sol_Height x' (NewSolanaAdapter cfg)"
    "sol_Balance x (NewSolanaAdapter cfg) = sol_Balance x' (NewSolanaAdapter cfg)"
    by (simp_all add: gw_defs fun_eq_iff first)
  have btc: "btc_Broadcast x (NewBitcoinAdapter cfg) = btc_Broadcast x' (NewBitcoinAdapter cfg)"
    "btc_Height x (NewBitcoinAdapter cfg) = btc_Height x' (NewBitcoinAdapter cfg)"
    "btc_Balance x D (NewBitcoinAdapter cfg) = btc_Balance x' D (NewBitcoinAdapter cfg)"
    "btc_EstimateFee x D (NewBitcoinAdapter cfg) = btc_EstimateFee x' D (NewBitcoinAdapter cfg)"
    by (simp_all add: gw_defs fun_eq_iff first)
  have "evm_GetTxStatus x (NewEVMAdapter cfg) = evm_GetTxStatus x' (NewEVMAdapter cfg)"
    "sol_GetTxStatus x (NewSolanaAdapter cfg) = sol_GetTxStatus x' (NewSolanaAdapter cfg)"
    by (simp_all only: evm_GetTxStatus_def sol_GetTxStatus_def fun_eq_iff evm sol) simp_all
  then show ?thesis by (simp add: evm_ops_def sol_ops_def btc_ops_def evm sol btc)
qed

section \<open>Transactions and their status on EVM chains\<close>

text \<open>A transaction as an EVM node describes it; the block number of a pending one is \<open>null\<close>.\<close>

definition evm_tx_json :: "tx \<Rightarrow> json" where
  "evm_tx_json t =
     JObj [(''blockHash'', if tx_BlockHeight t = 0 then JNull else JStr (tx_BlockHash t)),
           (''blockNumber'', if tx_BlockHeight t = 0 then JNull else JStr (hex_quantity (unat (tx_BlockHeight t)))),
           (''from'', JStr (tx_From t)), (''gas'', JStr ''0x5208''), (''hash'', JStr (tx_Hash t)),
           (''nonce'', JStr (hex_quantity (unat (tx_Nonce t)))), (''to'', JStr (tx_To t)),
           (''value'', JStr (hex_quantity (case tx_Value t of None \<Rightarrow> 0 | Some v \<Rightarrow> nat v)))]"

definition evm_plain_tx :: "string \<Rightarrow> tx \<Rightarrow> bool" where
  "evm_plain_tx cid t \<longleftrightarrow>
     tx_ChainID t = cid \<and> tx_Hash t \<noteq> [] \<and> (\<exists>v \<ge> 0. tx_Value t = Some v) \<and> tx_Fee t = None \<and> tx_Raw t = [] \<and>
     tx_Status t = StatusMempool \<and> (tx_BlockHeight t = 0 \<longrightarrow> tx_BlockHash t = [])"

lemma field_for_gas: "field_for evm_raw_fields ''gas'' = None"
  by (simp add: field_for_def evm_raw_fields_def) code_simp

lemma field_for_evm:
  "field_for evm_raw_fields ''hash'' = Some (set_string rw_Hash_update)"
  "field_for evm_raw_fields ''from'' = Some (set_string rw_From_update)"
  "field_for evm_raw_fields ''to'' = Some (set_string rw_To_update)"
  "field_for evm_raw_fields ''value'' = Some (set_string rw_Value_update)"
  "field_for evm_raw_fields ''nonce'' = Some (set_string rw_Nonce_update)"
  "field_for evm_raw_fields ''blockNumber'' = Some (set_string rw_BlockNum_update)"
  "field_for evm_raw_fields ''blockHash'' = Some (set_string rw_BlockHash_update)"
  by (simp_all add: field_for_def evm_raw_fields_def)

lemma parseHex_Nil [simp]: "parseHexQuantity [] = Inr 0"
  by (simp add: parseHexQuantity_def trim_prefix_def has_prefix_def)

lemma evm_decode_tx_json: "evm_plain_tx cid t \<Longrightarrow> evm_decode_tx cid (Some (evm_tx_json t)) = Inr t"
  by (cases t)
    (auto simp: evm_plain_tx_def evm_decode_tx_def unmarshal_fields_def unmarshal_def unmarshal_struct_def evm_tx_json_def
      field_for_gas field_for_evm or_zero_def or_nil_def)

lemma evm_GetTx_answer:
  assumes "cc_RPCURLs cfg = u # us" and "evm_plain_tx (cc_ChainID cfg) t"
    and "answers x u ''eth_getTransactionByHash'' (Some [JStr (tx_Hash t)]) w (evm_tx_json t) w'"
  shows "evm_GetTx x (NewEVMAdapter cfg) (tx_Hash t) w = (Inr t, w')"
  using assms(2) by (simp add: evm_GetTx_def rpc_decode_answer [OF assms(1,3)] evm_decode_tx_json)

text \<open>
  \<open>GetTx\<close> of the EVM adapter reads back the transaction a node describes, its hexadecimal numbers
  included: the hash, the parties, the value, the nonce and the block.
\<close>

theorem evm_tx_roundtrip:
  assumes "cc_RPCURLs cfg = u # us" and "evm_plain_tx (cc_ChainID cfg) t"
    and "answers x u ''eth_getTransactionByHash'' (Some [JStr (tx_Hash t)]) w (evm_tx_json t) w'"
  shows "evm_GetTx x (NewEVMAdapter cfg) (tx_Hash t) w = (Inr t, w')"
  by (rule evm_GetTx_answer [OF assms])

lemma evm_Height_answer:
  assumes "cc_RPCURLs cfg = u # us"
    and "answers x u ''eth_blockNumber'' None w (JStr (hex_quantity (unat tip))) w'"
  shows "evm_Height x (NewEVMAdapter cfg) w = (Inr tip, w')"
  by (simp add: evm_Height_def rpc_decode_answer [OF assms])

text \<open>
  The status the EVM adapter reports for a transaction the node knows: in the mempool without a
  block, otherwise finalized or confirmed by the count of confirmations. The count is the depth of
  the block as long as the node's head is not below it; a head that is behind the block by more
  than one wraps the count around, so that the transaction is reported final.
\<close>

theorem evm_status_classified:
  assumes "cc_RPCURLs cfg = u # us" and "evm_plain_tx (cc_ChainID cfg) t"
    and "answers x u ''eth_getTransactionByHash'' (Some [JStr (tx_Hash t)]) w (evm_tx_json t) w1"
    and "answers x u ''eth_blockNumber'' None w1 (JStr (hex_quantity (unat tip))) w2"
  shows "\<exists>st. fst (evm_GetTxStatus x (NewEVMAdapter cfg) (tx_Hash t) w) = Inr (Some st)
    \<and> ts_TxHash st = tx_Hash t \<and> ts_BlockHeight st = tx_BlockHeight t \<and> ts_BlockHash st = tx_BlockHash t
    \<and> (tx_BlockHeight t = 0 \<longrightarrow> ts_Status st = StatusMempool \<and> ts_Confirmations st = 0)
    \<and> (tx_BlockHeight t \<noteq> 0 \<longrightarrow> ts_Status st = (if cc_FinalityBlocks cfg \<le> ts_Confirmations st then StatusFinalized else StatusConfirmed))
    \<and> (tx_BlockHeight t \<noteq> 0 \<and> tx_BlockHeight t \<le> tip \<longrightarrow>
         unat (ts_Confirmations st) = unat tip - unat (tx_BlockHeight t) + 1)
    \<and> (unat tip + 1 < unat (tx_BlockHeight t) \<longrightarrow>
         unat (ts_Confirmations st) = 2 ^ 64 + unat tip + 1 - unat (tx_BlockHeight t))"
proof -
  have tx: "evm_GetTx x (NewEVMAdapter cfg) (tx_Hash t) w = (Inr t, w1)"
    by (rule evm_GetTx_answer [OF assms(1-3)])
  have tip: "evm_Height x (NewEVMAdapter cfg) w1 = (Inr tip, w2)"
    by (rule evm_Height_answer [OF assms(1,4)])
  show ?thesis
    using unat_confs [of "tx_BlockHeight t" tip] unat_confs_stale [of tip "tx_BlockHeight t"]
    by (auto simp: evm_GetTxStatus_def tx tip Let_def)
qed

text \<open>
  The gas prices of the EVM adapter's tiers for a node's price \<open>g\<close>: 90 and 130 percent of it for
  the low and the high tier, but one percent for the standard tier, which is therefore below the low
  one whenever the price is at least two.
\<close>

theorem evm_standard_below_low:
  assumes "cc_RPCURLs cfg = u # us"
    and "answers x u ''eth_gasPrice'' None w (JStr (hex_quantity g)) w'"
  shows "\<exists>lo st hi. fst (evm_EstimateFee x (NewEVMAdapter cfg) (req\<lparr>fr_Priority := PriorityLow\<rparr>) w) = Inr (Some lo)
    \<and> fst (evm_EstimateFee x (NewEVMAdapter cfg) (req\<lparr>fr_Priority := PriorityStandard\<rparr>) w) = Inr (Some st)
    \<and> fst (evm_EstimateFee x (NewEVMAdapter cfg) (req\<lparr>fr_Priority := PriorityHigh\<rparr>) w) = Inr (Some hi)
    \<and> fe_GasPrice lo = Some (int g * 90 div 100) \<and> fe_GasPrice st = Some (int g div 100) \<and> fe_GasPrice hi = Some (int g * 130 div 100)
    \<and> (2 \<le> g \<longrightarrow> the (fe_GasPrice st) < the (fe_GasPrice lo))"
proof -
  have "int g div 100 < int g * 90 div 100" if "2 \<le> g" using that by linarith
  then show ?thesis by (simp add: evm_EstimateFee_def rpc_decode_answer [OF assms] evm_multiplier_def priority_defs Let_def)
qed

section \<open>The adapters' contract\<close>

text \<open>
  Base64 as RFC 4648 defines it, which a Solana node decodes by: whole groups of four characters of
  the alphabet, padding in the last one only, and the bits it leaves over zero.
\<close>

definition rfc4648_alphabet :: string where
  "rfc4648_alphabet = ''ABCDEFGHIJKLMNOPQRSTUVWXYZabcdefghijklmnopqrstuvwxyz0123456789+/''"

definition sextet :: "char \<Rightarrow> byte option" where
  "sextet c = map_option of_nat (index_of c rfc4648_alphabet)"

fun rfc4648_decode :: "string \<Rightarrow> bytes option" where
  "rfc4648_decode [] = Some []"
| "rfc4648_decode (a # b # c # d # s) =
     (case (sextet a, sextet b) of
        (Some i, Some j) \<Rightarrow>
          (let x = push_bit 2 i OR drop_bit 4 j in
           if c = CHR ''='' then (if d = CHR ''='' \<and> s = [] \<and> take_bit 4 j = 0 then Some [x] else None)
           else (case sextet c of
                   None \<Rightarrow> None
                 | Some k \<Rightarrow>
                     (let y = push_bit 4 j OR drop_bit 2 k in
                      if d = CHR ''='' then (if s = [] \<and> take_bit 2 k = 0 then Some [x, y] else None)
                      else (case (sextet d, rfc4648_decode s) of
                              (Some l, Some bs) \<Rightarrow> Some (x # y # (push_bit 6 k OR l) # bs)
                            | _ \<Rightarrow> None))))
      | _ \<Rightarrow> None)"
| "rfc4648_decode _ = None"

lemma sextet_tbl: "sextet (b64_tbl ! unat (take_bit 6 (n :: u64))) = Some (ucast (take_bit 6 n))"
proof -
  have "rfc4648_alphabet = b64_tbl" by (simp add: rfc4648_alphabet_def b64_tbl_def)
  then show ?thesis by (simp add: sextet_def)
qed

lemma sextets_bytes:
  fixes n :: u64
  shows "push_bit 2 (ucast (take_bit 6 (drop_bit 18 n))) OR drop_bit 4 (ucast (take_bit 6 (drop_bit 12 n))) = (ucast (drop_bit 16 n) :: byte)"
    and "push_bit 4 (ucast (take_bit 6 (drop_bit 12 n))) OR drop_bit 2 (ucast (take_bit 6 (drop_bit 6 n))) = (ucast (drop_bit 8 n) :: byte)"
    and "push_bit 6 (ucast (take_bit 6 (drop_bit 6 n))) OR ucast (take_bit 6 n) = (ucast n :: byte)"
  by (rule bit_word_eqI, auto simp: bit_simps)+

lemma padding_bits:
  "take_bit 4 (ucast (take_bit 6 (drop_bit 12 (chunk_bits 3 [a] 0))) :: byte) = 0"
  "take_bit 2 (ucast (take_bit 6 (drop_bit 6 (chunk_bits 3 [a, b] 0))) :: byte) = 0"
  by (rule bit_word_eqI, auto simp: bit_simps chunk_bits_3)+

lemma rfc4648_decode_encode: "rfc4648_decode (encodeBase64 bs) = Some bs"
proof (induction bs rule: b64_chunks.induct)
  case (1 bs)
  consider "bs = []" | a where "bs = [a]" | a b where "bs = [a, b]" | a b c rest where "bs = a # b # c # rest"
    by (metis list.exhaust)
  then show ?case
  proof cases
    case 1
    then show ?thesis by (simp add: encodeBase64_def)
  next
    case (2 a)
    then have "encodeBase64 bs = take 2 (b64_quad (chunk_bits 3 [a] 0)) @ ''==''"
      by (simp add: encodeBase64_def Let_def, simp add: eval_nat_numeral)
    then show ?thesis
      using 2 by (simp add: b64_quad_def low_mask sextet_tbl sextets_bytes padding_bits chunk_bits_bytes Let_def)
  next
    case (3 a b)
    then have "encodeBase64 bs = take 3 (b64_quad (chunk_bits 3 [a, b] 0)) @ ''=''"
      by (simp add: encodeBase64_def Let_def)
    then show ?thesis
      using 3 by (simp add: b64_quad_def low_mask sextet_tbl sextets_bytes padding_bits chunk_bits_bytes Let_def)
  next
    case (4 a b c rest)
    then have "rfc4648_decode (encodeBase64 rest) = Some rest" using 1 by simp
    then show ?thesis
      using 4 by (simp add: encodeBase64_Cons3 b64_quad_def low_mask sextet_tbl sextets_bytes chunk_bits_bytes Let_def)
  qed
qed

text \<open>
  How a chain takes a raw transaction: the method, the parameters for the text \<open>p\<close> of the payload, and what
  bytes that text stands for.
\<close>

record raw_method =
  rm_method :: string
  rm_params :: "string \<Rightarrow> json list"
  rm_decode :: "string \<Rightarrow> bytes option"

definition evm_raw :: raw_method where
  "evm_raw = \<lparr>rm_method = ''eth_sendRawTransaction'', rm_params = (\<lambda>p. [JStr p]),
     rm_decode = (\<lambda>p. if has_prefix p ''0x'' then hex_decode (drop 2 p) else None)\<rparr>"

definition sol_raw :: raw_method where
  "sol_raw = \<lparr>rm_method = ''sendTransaction'', rm_params = (\<lambda>p. [JStr p, JObj [(''encoding'', JStr ''base64'')]]),
     rm_decode = rfc4648_decode\<rparr>"

definition btc_raw :: raw_method where
  "btc_raw = \<lparr>rm_method = ''sendrawtransaction'', rm_params = (\<lambda>p. [JStr p]), rm_decode = hex_decode\<rparr>"

text \<open>
  The documented behaviour of a node that is sent bytes: no reply, another status than 200, a body that is no
  object, or a JSON-RPC reply. A reply with an error may hold any result besides (Bitcoin Core sends \<open>null\<close>); one
  without may only have the hash of those bytes as its result.
\<close>

definition hashes_raw :: "'w exchange \<Rightarrow> string \<Rightarrow> raw_method \<Rightarrow> (bytes \<Rightarrow> string) \<Rightarrow> bool" where
  "hashes_raw x u k txid \<longleftrightarrow>
     (\<forall>p b w. rm_decode k p = Some b \<longrightarrow>
        (case fst (x 5000000000 u (rpc_request (rm_method k) (Some (rm_params k p))) w) of
           HttpReply code raw (Some (JObj kvs)) \<Rightarrow>
             code = 200 \<longrightarrow> rpc_object kvs \<and> (no_error kvs \<longrightarrow> map_of kvs ''result'' \<in> {None, Some (JStr (txid b))})
         | _ \<Rightarrow> True))"

text \<open>In the state \<open>w\<close> the node accepts the bytes \<open>b\<close>, in whatever text it is sent them.\<close>

definition accepts_raw :: "'w exchange \<Rightarrow> string \<Rightarrow> raw_method \<Rightarrow> (bytes \<Rightarrow> string) \<Rightarrow> bytes \<Rightarrow> 'w \<Rightarrow> bool" where
  "accepts_raw x u k txid b w \<longleftrightarrow>
     (\<forall>p. rm_decode k p = Some b \<longrightarrow>
        rpc_result (JStr (txid b)) (fst (x 5000000000 u (rpc_request (rm_method k) (Some (rm_params k p))) w)))"

definition send_raw :: "'w exchange \<Rightarrow> string list \<Rightarrow> raw_method \<Rightarrow> string \<Rightarrow> 'w \<Rightarrow> string result \<times> 'w" where
  "send_raw x us k p = rpc_decode x (newRPCClient us 5000000000) (rm_method k) (Some (rm_params k p)) unmarshal_string"

lemma send_raw_hash:
  assumes "hashes_raw x u k txid" and "us = u # us'" and "rm_decode k p = Some b" and "fst (send_raw x us k p w) = Inr h"
  shows "h = txid b"
proof -
  let ?a = "\<lparr>rps_JSONRPC = [], rps_ID = 0, rps_Result = None, rps_Error = None\<rparr>"
  obtain reply w' where r: "x 5000000000 u (rpc_request (rm_method k) (Some (rm_params k p))) w = (reply, w')" by fastforce
  obtain raw kvs where kvs: "reply = HttpReply 200 raw (Some (JObj kvs))"
    using assms(2,4) r unfolding send_raw_def rpc_decode_def rpc_call_def newRPCClient_def
    by (auto simp: unmarshal_struct_def unmarshal_string_def unmarshal_def split: http_reply.splits if_splits option.splits json.splits)
  have obj: "rpc_object kvs" "no_error kvs \<longrightarrow> map_of kvs ''result'' \<in> {None, Some (JStr (txid b))}"
    using assms(1) [unfolded hashes_raw_def, rule_format, OF assms(3), of w] by (simp_all add: r kvs)
  obtain v ok where v: "set_fields rpc_response_fields kvs (?a, True) = (v, ok)" by fastforce
  have ok: "ok" "rps_Error v = None" "unmarshal_string (rps_Result v) = Inr h"
    using assms(2,4) r kvs v unfolding send_raw_def
    by (auto simp: rpc_decode_def rpc_call_def newRPCClient_def unmarshal_struct_def split: if_splits option.splits)
  then have v': "set_fields rpc_response_fields kvs (?a, True) = (v, True)" using v by simp
  have "no_error kvs" "rps_Result v = map_of kvs ''result''"
    using rpc_fields_read [OF obj(1) v'] ok(2) by (auto simp: no_error_def split: option.splits)
  then show ?thesis
    using obj(2) ok(3) by (auto simp: unmarshal_string_def unmarshal_def)
qed

lemma send_raw_accepted:
  assumes "accepts_raw x u k txid b w" and "us = u # us'" and "rm_decode k p = Some b"
  shows "fst (send_raw x us k p w) = Inr (txid b)"
proof -
  obtain reply w' where r: "x 5000000000 u (rpc_request (rm_method k) (Some (rm_params k p))) w = (reply, w')" by fastforce
  then have "answers x u (rm_method k) (Some (rm_params k p)) w (JStr (txid b)) w'"
    using assms(1,3) by (auto simp: answers_def accepts_raw_def)
  then show ?thesis by (simp add: send_raw_def rpc_decode_answer [OF assms(2)])
qed

text \<open>Each adapter sends a text that stands for the signed bytes.\<close>

lemma Broadcast_sends:
  "ad_Broadcast (evm_ops x (NewEVMAdapter cfg)) b = send_raw x (cc_RPCURLs cfg) evm_raw (''0x'' @ hex_encode b)"
  "ad_Broadcast (sol_ops x (NewSolanaAdapter cfg)) b = send_raw x (cc_RPCURLs cfg) sol_raw (encodeBase64 b)"
  "ad_Broadcast (btc_ops x D (NewBitcoinAdapter cfg)) b = send_raw x (cc_RPCURLs cfg) btc_raw (hex_encode b)"
  by (simp_all add: evm_ops_def evm_Broadcast_def NewEVMAdapter_def evm_raw_def sol_ops_def sol_Broadcast_def NewSolanaAdapter_def
      sol_raw_def btc_ops_def btc_Broadcast_def NewBitcoinAdapter_def btc_raw_def send_raw_def)

lemma raw_text_decodes:
  "rm_decode evm_raw (''0x'' @ hex_encode b) = Some b" "rm_decode sol_raw (encodeBase64 b) = Some b"
  "rm_decode btc_raw (hex_encode b) = Some b"
  by (simp_all add: evm_raw_def sol_raw_def btc_raw_def rfc4648_decode_encode has_prefix_append [of "''0x''", simplified])

lemma sends_contract:
  assumes "hashes_raw x u k txid" and "us = u # us'" and "\<And>b. ad_Broadcast ad b = send_raw x us k (enc b)" and "\<And>b. rm_decode k (enc b) = Some b"
  shows "adapter_contract ad txid (\<lambda>_. True)"
  using send_raw_hash [OF assms(1,2) assms(4)] by unfold_locales (simp_all add: assms(3))

text \<open>
  C36. The interface's demand on \<open>Broadcast\<close>, for the three adapters over nodes that hash what they
  receive or refuse it, by a status code or by an error object in a reply with status 200: a hash that is returned is
  that of the signed bytes themselves, whatever was submitted before, so the encodings on the wire (hexadecimal
  with and without \<open>0x\<close>, base64) lose nothing and a refusal is never taken for an acceptance; and when the node accepts
  the bytes, \<open>Broadcast\<close> returns their hash.
\<close>

theorem broadcast_hash_of_bytes:
  assumes "cc_RPCURLs cfg = u # us"
    and "ad = evm_ops x (NewEVMAdapter cfg) \<and> k = evm_raw \<or> ad = sol_ops x (NewSolanaAdapter cfg) \<and> k = sol_raw \<or>
      ad = btc_ops x D (NewBitcoinAdapter cfg) \<and> k = btc_raw"
    and "hashes_raw x u k txid" and "w' = run (\<lambda>w b. snd (ad_Broadcast ad b w)) w bs"
  shows "(fst (ad_Broadcast ad b w') = Inr h \<longrightarrow> h = txid b) \<and>
    (accepts_raw x u k txid b w' \<longrightarrow> fst (ad_Broadcast ad b w') = Inr (txid b))"
proof -
  let ?enc = "\<lambda>enc. (\<forall>b. ad_Broadcast ad b = send_raw x (cc_RPCURLs cfg) k (enc b)) \<and> (\<forall>b. rm_decode k (enc b) = Some b)"
  consider "?enc (\<lambda>b. ''0x'' @ hex_encode b)" | "?enc encodeBase64" | "?enc hex_encode"
    using assms(2) by (elim disjE) (simp_all add: Broadcast_sends raw_text_decodes [simplified])
  then have "\<exists>enc. ?enc enc" by cases (rule exI, assumption)+
  then obtain enc where enc: "\<And>b. ad_Broadcast ad b = send_raw x (cc_RPCURLs cfg) k (enc b)" "\<And>b. rm_decode k (enc b) = Some b"
    by blast
  have "adapter_contract ad txid (\<lambda>_. True)" by (rule sends_contract [OF assms(3,1) enc])
  then show ?thesis
    using adapter_contract.Broadcast_hash [of ad txid "\<lambda>_. True" w' b h] send_raw_accepted [OF _ assms(1) enc(2), of x txid b w']
    by (simp add: enc(1))
qed

section \<open>Bitcoin amounts\<close>

definition toward_zero :: "rat \<Rightarrow> int" where
  "toward_zero q = (if q < 0 then - \<lfloor>- q\<rfloor> else \<lfloor>q\<rfloor>)"

text \<open>What the adapter relies on of the decimal library: exact products, and \<open>BigInt\<close> drops the fraction.\<close>

definition decimal_laws :: "'d decimal_ops \<Rightarrow> ('d \<Rightarrow> rat) \<Rightarrow> bool" where
  "decimal_laws D val \<longleftrightarrow>
     val (dc_zero D) = 0 \<and> (\<forall>n. val (dc_NewFromInt D n) = of_int n) \<and> val (dc_0_8 D) = 4 / 5 \<and> val (dc_1_5 D) = 3 / 2 \<and>
     (\<forall>a b. val (dc_Mul D a b) = val a * val b) \<and> (\<forall>d. dc_BigInt D d = toward_zero (val d))"

lemma toward_zero_mono: "0 \<le> p \<Longrightarrow> p \<le> q \<Longrightarrow> toward_zero p \<le> toward_zero q"
  by (simp add: toward_zero_def floor_mono)

lemma toward_zero_of_int [simp]: "toward_zero (of_int n) = n"
  by (simp add: toward_zero_def)

text \<open>
  Bitcoin amounts: a balance of \<open>n\<close> satoshi, which the node writes as a decimal fraction of a bitcoin,
  comes back as exactly \<open>n\<close>; and for a fee rate that is not negative the three tiers are in
  ascending order.
\<close>

theorem btc_amounts_exact:
  assumes "cc_RPCURLs cfg = u # us" and "decimal_laws D val"
    and "answers x u ''getreceivedbyaddress'' (Some [JStr addr, JNum ''1'']) w j w'"
    and "dc_UnmarshalJSON D j (dc_zero D) = Some d" and "val d = of_int n / 10 ^ 8"
    and "answers x u ''estimateSmartFee'' (Some [JNum (decimal (unat (cc_FinalityBlocks cfg))), JStr ''CONSERVATIVE'']) w
      (JObj [(''feerate'', j')]) w''"
    and "dc_UnmarshalJSON D j' (dc_zero D) = Some r" and "0 \<le> val r"
  shows "fst (btc_Balance x D (NewBitcoinAdapter cfg) addr w) = Inr n
    \<and> (\<exists>lo st hi. map (\<lambda>p. fst (btc_EstimateFee x D (NewBitcoinAdapter cfg) (req\<lparr>fr_Priority := p\<rparr>) w))
          [PriorityLow, PriorityStandard, PriorityHigh] = [Inr (Some lo), Inr (Some st), Inr (Some hi)]
        \<and> the (fe_GasPrice lo) \<le> the (fe_GasPrice st) \<and> the (fe_GasPrice st) \<le> the (fe_GasPrice hi))"
proof (intro conjI)
  note laws = assms(2) [unfolded decimal_laws_def]
  have "dc_BigInt D (dc_Mul D d (dc_NewFromInt D 100000000)) = n"
    using laws assms(5) by simp
  then show "fst (btc_Balance x D (NewBitcoinAdapter cfg) addr w) = Inr n"
    by (simp add: btc_Balance_def rpc_decode_answer [OF assms(1,3)] unmarshal_def assms(4))
  have mono: "dc_BigInt D (dc_Mul D (dc_Mul D r a) k) \<le> dc_BigInt D (dc_Mul D (dc_Mul D r b) k)"
    if "0 \<le> val a" "val a \<le> val b" "0 \<le> val k" for a b k
  proof -
    have "val r * val a * val k \<le> val r * val b * val k"
      using that assms(8) by (intro mult_right_mono mult_left_mono)
    then show ?thesis using laws that assms(8) by (simp add: toward_zero_mono)
  qed
  show "\<exists>lo st hi. map (\<lambda>p. fst (btc_EstimateFee x D (NewBitcoinAdapter cfg) (req\<lparr>fr_Priority := p\<rparr>) w))
          [PriorityLow, PriorityStandard, PriorityHigh] = [Inr (Some lo), Inr (Some st), Inr (Some hi)]
        \<and> the (fe_GasPrice lo) \<le> the (fe_GasPrice st) \<and> the (fe_GasPrice st) \<le> the (fe_GasPrice hi)"
    using laws mono [of "dc_0_8 D" "dc_NewFromInt D 1" "dc_NewFromInt D 100000"]
      mono [of "dc_NewFromInt D 1" "dc_1_5 D" "dc_NewFromInt D 100000"]
    by (simp add: btc_EstimateFee_def rpc_decode_answer [OF assms(1,6)] unmarshal_fields_def unmarshal_def unmarshal_struct_def
        field_for_def assms(7) priority_defs Let_def)
qed

section \<open>Polled heads\<close>

text \<open>
  The channel that \<open>SubscribeHeads\<close> hands out: the goroutine ticks and the follower takes heads, in
  any order. The last component collects the heads taken.
\<close>

datatype poll_event = PollTick time | PollTake

fun poll_step ::
  "(time \<Rightarrow> (u64 \<times> head list) \<times> 'w \<Rightarrow> (u64 \<times> head list) \<times> 'w) \<Rightarrow> ((u64 \<times> head list) \<times> 'w) \<times> head list \<Rightarrow> poll_event \<Rightarrow>
    ((u64 \<times> head list) \<times> 'w) \<times> head list" where
  "poll_step tick (s, out) (PollTick now) = (tick now s, out)"
| "poll_step tick (((n, h # ch), w), out) PollTake = (((n, ch), w), out @ [h])"
| "poll_step tick (((n, []), w), out) PollTake = (((n, []), w), out)"

definition polled_heads :: "(time \<Rightarrow> (u64 \<times> head list) \<times> 'w \<Rightarrow> (u64 \<times> head list) \<times> 'w) \<Rightarrow> poll_event list \<Rightarrow> 'w \<Rightarrow> head list" where
  "polled_heads tick es w = snd (run (poll_step tick) (((0, []), w), []) es)"

definition bare_head :: "string \<Rightarrow> head \<Rightarrow> bool" where
  "bare_head cid h \<longleftrightarrow> hd_ChainID h = cid \<and> hd_Hash h = [] \<and> hd_ParentHash h = []"

text \<open>A goroutine that reports heights only.\<close>

definition reports :: "string \<Rightarrow> (time \<Rightarrow> (u64 \<times> head list) \<times> 'w \<Rightarrow> (u64 \<times> head list) \<times> 'w) \<Rightarrow> bool" where
  "reports cid tick \<longleftrightarrow> (\<forall>now s. \<exists>ans w. tick now s = (report_height cid now ans (fst s), w))"

lemma heads_ticks_report:
  "reports (evm_chainID e) (evm_heads_tick x e)" "reports (sol_chainID s) (sol_heads_tick x s)"
  "reports (btc_chainID b) (btc_heads_tick x b)"
  by (auto simp: reports_def evm_heads_tick_def sol_heads_tick_def btc_heads_tick_def Let_def case_prod_unfold)

lemma report_height_buffer:
  "list_all (bare_head cid) (snd s) \<and> length (snd s) \<le> heads_cap \<Longrightarrow>
   list_all (bare_head cid) (snd (report_height cid now ans s)) \<and> length (snd (report_height cid now ans s)) \<le> heads_cap"
  by (auto simp: report_height_def bare_head_def split: sum.splits)

lemma poll_run_bare:
  assumes "reports cid tick" and "list_all (bare_head cid) (snd (fst st)) \<and> length (snd (fst st)) \<le> heads_cap"
    and "list_all (bare_head cid) out"
  shows "list_all (bare_head cid) (snd (run (poll_step tick) (st, out) es)) \<and>
    length (snd (fst (fst (run (poll_step tick) (st, out) es)))) \<le> heads_cap"
  using assms(2,3)
proof (induction es arbitrary: st out)
  case (Cons e es)
  obtain n ch w where st: "st = ((n, ch), w)" by (metis surj_pair)
  show ?case
  proof (cases e)
    case (PollTick now)
    obtain ans w' where "tick now st = (report_height cid now ans (fst st), w')"
      using assms(1) unfolding reports_def by blast
    then show ?thesis using Cons PollTick report_height_buffer [of cid "fst st" now ans] by simp
  next
    case PollTake
    then show ?thesis using Cons by (cases ch) (auto simp: st)
  qed
qed simp

text \<open>
  What \<open>SubscribeHeads\<close> of the three adapters delivers, whatever the node answers and however slowly
  the heads are taken: heights without a hash and without a parent hash, through a buffer that never
  holds more than sixteen.
\<close>

theorem polled_heads_bare:
  assumes "tick = evm_heads_tick x e \<and> cid = evm_chainID e \<or> tick = sol_heads_tick x s \<and> cid = sol_chainID s \<or>
      tick = btc_heads_tick x b \<and> cid = btc_chainID b"
  shows "list_all (bare_head cid) (polled_heads tick es w) \<and>
    length (snd (fst (fst (run (poll_step tick) (((0, []), w), []) es)))) \<le> 16"
proof -
  have "reports cid tick" using assms heads_ticks_report by metis
  from poll_run_bare [OF this, of "((0, []), w)" "[]" es] show ?thesis
    by (simp add: polled_heads_def heads_cap_def)
qed

section \<open>Sample inputs\<close>

definition sample_rpc_config :: chain_config where
  "sample_rpc_config = \<lparr>cc_ChainID = ''ethereum'', cc_RPCURLs = [''http://a'', ''http://b''], cc_WSURLs = [],
     cc_FinalityBlocks = 12, cc_GasStrategy = ''legacy''\<rparr>"

definition sample_rpc_tx :: tx where
  "sample_rpc_tx = \<lparr>tx_ChainID = ''ethereum'', tx_Hash = ''0xab'', tx_From = ''0x1'', tx_To = ''0x2'', tx_Value = Some 7,
     tx_Fee = None, tx_Nonce = 3, tx_BlockHeight = 100, tx_BlockHash = ''0xbb'', tx_Status = StatusMempool, tx_Raw = []\<rparr>"

text \<open>
  A node at the first URL that knows one transaction and hashes the raw ones it is sent; it writes the members in the
  order of Bitcoin Core and refuses the rest with an error object.
\<close>

definition rpc_ok :: "json \<Rightarrow> http_reply" where
  "rpc_ok j = HttpReply 200 [] (Some (JObj [(''result'', j), (''error'', JNull), (''id'', JNum ''1'')]))"

definition rpc_refused :: http_reply where
  "rpc_refused = HttpReply 200 [] (Some (JObj [(''result'', JNull),
     (''error'', JObj [(''code'', JNum ''1''), (''message'', JStr ''rejected'')]), (''id'', JNum ''1'')]))"

definition sample_rpc_node :: "(string \<Rightarrow> bytes option) \<Rightarrow> unit exchange" where
  "sample_rpc_node dec t u req w =
     (if u \<noteq> ''http://a'' then HttpFail (ErrRemote ''refused'')
      else if req = rpc_request ''eth_blockNumber'' None then rpc_ok (JStr (hex_quantity 105))
      else if req = rpc_request ''eth_gasPrice'' None then rpc_ok (JStr (hex_quantity 200))
      else if req = rpc_request ''eth_getTransactionByHash'' (Some [JStr ''0xab'']) then rpc_ok (evm_tx_json sample_rpc_tx)
      else if req = rpc_request ''getreceivedbyaddress'' (Some [JStr ''bc1'', JNum ''1'']) then rpc_ok (JNum ''2'')
      else if req = rpc_request ''estimateSmartFee'' (Some [JNum (decimal 12), JStr ''CONSERVATIVE''])
        then rpc_ok (JObj [(''feerate'', JNum ''1'')])
      else (case req of
              JObj [v, m, (k, JArr (JStr p # ps)), i] \<Rightarrow>
                (case dec p of None \<Rightarrow> rpc_refused | Some b \<Rightarrow> rpc_ok (JStr (stubHash b)))
            | _ \<Rightarrow> rpc_refused), w)"

lemma rpc_ok_result [simp]: "rpc_result j (rpc_ok j)"
proof -
  have "to_lower ''result'' = ''result''" "to_lower ''error'' = ''error''" "to_lower ''id'' = ''id''" by code_simp+
  then show ?thesis by (auto simp: rpc_result_def rpc_ok_def rpc_object_def no_error_def rpc_names_def)
qed

lemma sample_rpc_simps [simp]:
  "cc_RPCURLs sample_rpc_config = [''http://a'', ''http://b'']" "cc_ChainID sample_rpc_config = ''ethereum''"
  "cc_FinalityBlocks sample_rpc_config = 12"
  "tx_Hash sample_rpc_tx = ''0xab''" "evm_plain_tx ''ethereum'' sample_rpc_tx"
  "tx_BlockHeight sample_rpc_tx = 100" "tx_BlockHash sample_rpc_tx = ''0xbb''"
  by (simp_all add: sample_rpc_config_def sample_rpc_tx_def evm_plain_tx_def)

lemma sample_rpc_answers [simp]:
  "answers (sample_rpc_node dec) ''http://a'' ''eth_blockNumber'' None () (JStr (hex_quantity 105)) ()"
  "answers (sample_rpc_node dec) ''http://a'' ''eth_gasPrice'' None () (JStr (hex_quantity 200)) ()"
  "answers (sample_rpc_node dec) ''http://a'' ''eth_getTransactionByHash'' (Some [JStr ''0xab'']) () (evm_tx_json sample_rpc_tx) ()"
  "answers (sample_rpc_node dec) ''http://a'' ''getreceivedbyaddress'' (Some [JStr ''bc1'', JNum ''1'']) () (JNum ''2'') ()"
  "answers (sample_rpc_node dec) ''http://a'' ''estimateSmartFee'' (Some [JNum (decimal 12), JStr ''CONSERVATIVE'']) ()
     (JObj [(''feerate'', JNum ''1'')]) ()"
  by (simp_all add: answers_def sample_rpc_node_def rpc_request_def)

text \<open>Decimals as rationals, enough for whole numbers.\<close>

definition sample_decimals :: "rat decimal_ops" where
  "sample_decimals = \<lparr>dc_zero = 0,
     dc_UnmarshalJSON = (\<lambda>j d. case j of JNull \<Rightarrow> Some d | JNum s \<Rightarrow> map_option of_int (big_SetString s) | _ \<Rightarrow> None),
     dc_NewFromInt = of_int, dc_0_8 = 4 / 5, dc_1_5 = 3 / 2, dc_Mul = (\<lambda>a b. a * b), dc_BigInt = toward_zero\<rparr>"

lemma sample_decimals_laws: "decimal_laws sample_decimals (\<lambda>q. q)"
  by (simp add: decimal_laws_def sample_decimals_def)

text \<open>The sample node hashes what it is sent by the decoder it is given.\<close>

lemma sample_raw_reply:
  "sample_rpc_node rfc4648_decode 5000000000 ''http://a'' (rpc_request (rm_method sol_raw) (Some (rm_params sol_raw p))) w =
     (case rfc4648_decode p of None \<Rightarrow> rpc_refused | Some b \<Rightarrow> rpc_ok (JStr (stubHash b)), w)"
  by (simp add: sample_rpc_node_def sol_raw_def rpc_request_def split: option.split)

lemma sample_hashes_raw: "hashes_raw (sample_rpc_node rfc4648_decode) ''http://a'' sol_raw stubHash"
proof -
  have "rpc_object [(''result'', j), (''error'', JNull), (''id'', JNum ''1'')]" for j
    using rpc_ok_result [of j] by (auto simp: rpc_result_def rpc_ok_def)
  then show ?thesis
    unfolding hashes_raw_def sample_raw_reply by (simp add: rpc_ok_def sol_raw_def)
qed

section \<open>Instances of the properties\<close>

theorem only_first_url_used_witness:
  "evm_ops (sample_rpc_node hex_decode) (NewEVMAdapter sample_rpc_config) =
     evm_ops (\<lambda>t u b w. sample_rpc_node hex_decode t ''http://a'' b w) (NewEVMAdapter sample_rpc_config)"
  using only_first_url_used [of sample_rpc_config "''http://a''" "[''http://b'']" "sample_rpc_node hex_decode"
      "\<lambda>t u b w. sample_rpc_node hex_decode t ''http://a'' b w" sample_decimals]
  by simp

theorem evm_tx_roundtrip_witness:
  "evm_GetTx (sample_rpc_node hex_decode) (NewEVMAdapter sample_rpc_config) ''0xab'' () = (Inr sample_rpc_tx, ())"
  using evm_tx_roundtrip [of sample_rpc_config "''http://a''" "[''http://b'']" sample_rpc_tx "sample_rpc_node hex_decode" "()" "()"]
  by simp

theorem evm_status_classified_witness:
  "\<exists>st. fst (evm_GetTxStatus (sample_rpc_node hex_decode) (NewEVMAdapter sample_rpc_config) ''0xab'' ()) = Inr (Some st)
    \<and> ts_Status st = StatusConfirmed \<and> ts_Confirmations st = 6"
proof -
  obtain st where st: "fst (evm_GetTxStatus (sample_rpc_node hex_decode) (NewEVMAdapter sample_rpc_config) ''0xab'' ()) = Inr (Some st)"
    "ts_Status st = (if 12 \<le> ts_Confirmations st then StatusFinalized else StatusConfirmed)"
    "unat (ts_Confirmations st) = unat (105 :: u64) - unat (100 :: u64) + 1"
    using evm_status_classified [of sample_rpc_config "''http://a''" "[''http://b'']" sample_rpc_tx "sample_rpc_node hex_decode" "()" "()"
        "105" "()"]
    by auto
  then have "unat (ts_Confirmations st) = unat (6 :: u64)" by simp
  then have "ts_Confirmations st = 6" by (simp only: word_unat_eq_iff)
  with st show ?thesis by auto
qed

theorem evm_standard_below_low_witness:
  "\<exists>lo st. fst (evm_EstimateFee (sample_rpc_node hex_decode) (NewEVMAdapter sample_rpc_config)
       \<lparr>fr_To = [], fr_Amount = None, fr_Priority = PriorityLow\<rparr> ()) = Inr (Some lo)
    \<and> fst (evm_EstimateFee (sample_rpc_node hex_decode) (NewEVMAdapter sample_rpc_config)
       \<lparr>fr_To = [], fr_Amount = None, fr_Priority = PriorityStandard\<rparr> ()) = Inr (Some st)
    \<and> fe_GasPrice lo = Some 180 \<and> fe_GasPrice st = Some 2"
  using evm_standard_below_low [of sample_rpc_config "''http://a''" "[''http://b'']" "sample_rpc_node hex_decode" "()" 200 "()"
      "\<lparr>fr_To = [], fr_Amount = None, fr_Priority = []\<rparr>"]
  by auto

theorem broadcast_hash_of_bytes_witness:
  "fst (ad_Broadcast (sol_ops (sample_rpc_node rfc4648_decode) (NewSolanaAdapter sample_rpc_config)) [1, 2] ()) = Inr (stubHash [1, 2])"
proof -
  have "accepts_raw (sample_rpc_node rfc4648_decode) ''http://a'' sol_raw stubHash [1, 2] ()"
    by (simp add: accepts_raw_def sample_raw_reply) (simp add: sol_raw_def)
  then show ?thesis
    using broadcast_hash_of_bytes [of sample_rpc_config "''http://a''" "[''http://b'']" _ "sample_rpc_node rfc4648_decode" sol_raw
        sample_decimals stubHash "()" "()" "[]" "[1, 2]"] sample_hashes_raw
    by simp
qed

theorem btc_amounts_exact_witness:
  "fst (btc_Balance (sample_rpc_node hex_decode) sample_decimals (NewBitcoinAdapter sample_rpc_config) ''bc1'' ()) = Inr 200000000"
proof -
  have urls: "cc_RPCURLs sample_rpc_config = ''http://a'' # [''http://b'']" by simp
  have "big_SetString ''2'' = Some 2" "big_SetString ''1'' = Some 1" by code_simp+
  then have two: "dc_UnmarshalJSON sample_decimals (JNum ''2'') (dc_zero sample_decimals) = Some 2"
    and one: "dc_UnmarshalJSON sample_decimals (JNum ''1'') (dc_zero sample_decimals) = Some 1"
    by (simp_all add: sample_decimals_def)
  have fee: "answers (sample_rpc_node hex_decode) ''http://a'' ''estimateSmartFee''
      (Some [JNum (decimal (unat (cc_FinalityBlocks sample_rpc_config))), JStr ''CONSERVATIVE'']) () (JObj [(''feerate'', JNum ''1'')]) ()"
    by simp
  have q: "(2 :: rat) = of_int 200000000 / 10 ^ 8" "(0 :: rat) \<le> 1" by simp_all
  show ?thesis
    by (rule btc_amounts_exact [OF urls sample_decimals_laws sample_rpc_answers(4) two q(1) fee one q(2), THEN conjunct1])
qed

theorem polled_heads_bare_witness:
  "list_all (bare_head ''ethereum'')
     (polled_heads (evm_heads_tick (sample_rpc_node hex_decode) (NewEVMAdapter sample_rpc_config)) [PollTick 1, PollTake] ())"
  using polled_heads_bare [of "evm_heads_tick (sample_rpc_node hex_decode) (NewEVMAdapter sample_rpc_config)"
      "sample_rpc_node hex_decode" "NewEVMAdapter sample_rpc_config" "''ethereum''" "NewSolanaAdapter sample_rpc_config"
      "NewBitcoinAdapter sample_rpc_config" "[PollTick 1, PollTake]" "()"]
  by simp

end
