(* ===== verification/Mempool_Watcher.thy ===== *)
theory Mempool_Watcher
  imports Chain_Types
begin

text \<open>
  The mempool watcher (\<open>internal/mempool/watcher.go\<close>): the gateway's own pending transactions and
  the event each of them causes when it leaves the mempool. A call returns the events it hands to
  the emitter, none when no emitter is set; the emitter's result is ignored by the code. The loop
  \<open>Run\<close> is a function of what its \<open>select\<close> receives.
\<close>

record mempool_emission =
  mv_Type :: string
  mv_ChainID :: string
  mv_TxHash :: string
  mv_Status :: status

record watcher =
  wt_own :: "(string, time) gomap"
  wt_emitter :: bool
  wt_ttl :: duration

definition NewWatcher :: "bool \<Rightarrow> duration \<Rightarrow> watcher" where
  "NewWatcher emitter ttl =
     \<lparr>wt_own = [], wt_emitter = emitter, wt_ttl = (if ttl \<le> 0 then 5 * 60 * 1000000000 else ttl)\<rparr>"

definition watcher_key :: "string \<Rightarrow> string \<Rightarrow> string" where
  "watcher_key chainID txHash = chainID @ ''|'' @ txHash"

definition watcher_Track :: "time \<Rightarrow> string \<Rightarrow> string \<Rightarrow> watcher \<Rightarrow> watcher" where
  "watcher_Track now chainID txHash w = w\<lparr>wt_own := AList.update (watcher_key chainID txHash) now (wt_own w)\<rparr>"

definition OnEvent :: "mempool_event \<Rightarrow> watcher \<Rightarrow> mempool_emission list \<times> watcher" where
  "OnEvent e w =
     (let k = watcher_key (me_ChainID e) (me_TxHash e) in
      if map_of (wt_own w) k = None then ([], w)
      else if me_Kind e = ''exit''
      then (let w = w\<lparr>wt_own := AList.delete k (wt_own w)\<rparr>;
                evt = \<lparr>mv_Type = ''tx.dropped'', mv_ChainID = me_ChainID e, mv_TxHash = me_TxHash e,
                       mv_Status = StatusDropped\<rparr>
            in (if wt_emitter w then [evt] else [], w))
      else ([], w))"

definition MarkReplaced :: "string \<Rightarrow> string \<Rightarrow> watcher \<Rightarrow> mempool_emission list \<times> watcher" where
  "MarkReplaced chainID txHash w =
     (let w = w\<lparr>wt_own := AList.delete (watcher_key chainID txHash) (wt_own w)\<rparr>
      in (if wt_emitter w
          then [\<lparr>mv_Type = ''tx.replaced'', mv_ChainID = chainID, mv_TxHash = txHash, mv_Status = StatusReplaced\<rparr>]
          else [], w))"

definition Pending :: "watcher \<Rightarrow> string list" where
  "Pending w = map fst (wt_own w)"

text \<open>What the loop's \<open>select\<close> receives: the end of the context, the end of the channel, or an event.\<close>

datatype watch_input = WatchDone | WatchClosed | WatchEvent mempool_event

fun watcher_Run :: "watch_input list \<Rightarrow> watcher \<Rightarrow> mempool_emission list \<times> watcher \<times> bool" where
  "watcher_Run [] w = ([], w, False)"
| "watcher_Run (WatchDone # is) w = ([], w, True)"
| "watcher_Run (WatchClosed # is) w = ([], w, True)"
| "watcher_Run (WatchEvent e # is) w =
     (let (evs, w) = OnEvent e w; (evs', w, returned) = watcher_Run is w in (evs @ evs', w, returned))"

section \<open>Runs\<close>

definition emission_key :: "mempool_emission \<Rightarrow> string" where
  "emission_key v = watcher_key (mv_ChainID v) (mv_TxHash v)"

definition event_key :: "mempool_event \<Rightarrow> string" where
  "event_key e = watcher_key (me_ChainID e) (me_TxHash e)"

definition exits :: "watch_input list \<Rightarrow> string set" where
  "exits is = {event_key e |e. WatchEvent e \<in> set is \<and> me_Kind e = ''exit''}"

definition live :: "watch_input \<Rightarrow> bool" where
  "live i \<longleftrightarrow> i \<noteq> WatchDone \<and> i \<noteq> WatchClosed"

lemma exits_Cons [simp]:
  "exits (WatchEvent e # is) = (if me_Kind e = ''exit'' then insert (event_key e) (exits is) else exits is)"
  by (auto simp: exits_def)

lemma exits_Nil [simp]: "exits [] = {}"
  by (simp add: exits_def)

lemma Pending_set: "set (Pending w) = {k. map_of (wt_own w) k \<noteq> None}"
  by (force simp: Pending_def map_of_eq_None_iff)

lemma OnEvent_eq:
  "OnEvent e w =
     (if me_Kind e = ''exit'' \<and> event_key e \<in> set (Pending w)
      then (if wt_emitter w
            then [\<lparr>mv_Type = ''tx.dropped'', mv_ChainID = me_ChainID e, mv_TxHash = me_TxHash e, mv_Status = StatusDropped\<rparr>]
            else [],
            w\<lparr>wt_own := AList.delete (event_key e) (wt_own w)\<rparr>)
      else ([], w))"
  by (auto simp: OnEvent_def event_key_def Pending_set Let_def)

lemma keys_delete: "map fst (AList.delete k xs) = filter (\<lambda>x. x \<noteq> k) (map fst xs)"
  by (induction xs) auto

lemma Pending_delete: "Pending (w\<lparr>wt_own := AList.delete k (wt_own w)\<rparr>) = filter (\<lambda>x. x \<noteq> k) (Pending w)"
  by (simp add: Pending_def keys_delete)

lemma Pending_Track [simp]:
  "set (Pending (watcher_Track now c h w)) = insert (watcher_key c h) (set (Pending w))"
  by (auto simp: Pending_set watcher_Track_def)

lemma watcher_Run_run:
  assumes "wt_emitter w" and "\<forall>i \<in> set is. live i"
  shows "(\<exists>evs w'. watcher_Run is w = (evs, w', False) \<and>
    distinct (map emission_key evs) \<and> emission_key ` set evs = set (Pending w) \<inter> exits is \<and>
    (\<forall>v \<in> set evs. mv_Type v = ''tx.dropped'' \<and> mv_Status v = StatusDropped) \<and>
    Pending w' = filter (\<lambda>k. k \<notin> exits is) (Pending w))"
  using assms
proof (induction "is" arbitrary: w)
  case Nil
  then show ?case by simp
next
  case (Cons i "is")
  then obtain e where i: "i = WatchEvent e" by (cases i) (auto simp: live_def)
  let ?hit = "me_Kind e = ''exit'' \<and> event_key e \<in> set (Pending w)"
  let ?w = "if ?hit then w\<lparr>wt_own := AList.delete (event_key e) (wt_own w)\<rparr> else w"
  have "wt_emitter ?w" using Cons.prems(1) by simp
  then obtain evs w' where IH: "watcher_Run is ?w = (evs, w', False)" "distinct (map emission_key evs)"
    "emission_key ` set evs = set (Pending ?w) \<inter> exits is"
    "\<forall>v \<in> set evs. mv_Type v = ''tx.dropped'' \<and> mv_Status v = StatusDropped"
    "Pending w' = filter (\<lambda>k. k \<notin> exits is) (Pending ?w)"
    using Cons.IH [of ?w] Cons.prems(2) by auto
  show ?case
  proof (cases ?hit)
    case True
    then have P: "Pending ?w = filter (\<lambda>x. x \<noteq> event_key e) (Pending w)" by (simp add: Pending_delete)
    let ?v = "\<lparr>mv_Type = ''tx.dropped'', mv_ChainID = me_ChainID e, mv_TxHash = me_TxHash e, mv_Status = StatusDropped\<rparr>"
    have k: "emission_key ?v = event_key e" by (simp add: emission_key_def event_key_def)
    have "event_key e \<notin> emission_key ` set evs" unfolding IH(3) P by simp
    moreover have "watcher_Run (i # is) w = (?v # evs, w', False)"
      using True Cons.prems(1) IH(1) by (simp add: i OnEvent_eq)
    moreover have "emission_key ` set (?v # evs) = set (Pending w) \<inter> exits (i # is)"
      using True unfolding i by (auto simp: k IH(3) Pending_delete)
    moreover have "Pending w' = filter (\<lambda>k. k \<notin> exits (i # is)) (Pending w)"
      using True IH(5) unfolding P i by (simp add: conj_commute)
    ultimately show ?thesis using IH(2,4) by (simp add: k)
  next
    case False
    then have w: "?w = w" by (rule if_not_P)
    have "OnEvent e w = ([], w)" unfolding OnEvent_eq using False by (rule if_not_P)
    then have "watcher_Run (i # is) w = (evs, w', False)" using IH(1) unfolding w i by simp
    moreover have "set (Pending w) \<inter> exits (i # is) = set (Pending w) \<inter> exits is"
      "filter (\<lambda>k. k \<notin> exits (i # is)) (Pending w) = filter (\<lambda>k. k \<notin> exits is) (Pending w)"
      using False unfolding i by (auto intro: filter_cong)
    ultimately show ?thesis using IH(2-5) unfolding w by simp
  qed
qed

section \<open>Properties\<close>

text \<open>
  The watcher over any stream of mempool events: it emits one \<open>tx.dropped\<close> for each pending
  transaction of the gateway that leaves the mempool, however often its exit is reported, nothing
  for a transaction it does not track, and goes on watching exactly the ones that have not left.
  The loop returns when its channel is closed.
\<close>

theorem watcher_drops_each_once:
  assumes "wt_emitter w"
  shows "\<exists>evs w'. watcher_Run (map WatchEvent es @ [WatchClosed]) w = (evs, w', True) \<and>
    distinct (map (\<lambda>v. watcher_key (mv_ChainID v) (mv_TxHash v)) evs) \<and>
    (\<lambda>v. watcher_key (mv_ChainID v) (mv_TxHash v)) ` set evs =
      {k \<in> set (Pending w). \<exists>e \<in> set es. me_Kind e = ''exit'' \<and> watcher_key (me_ChainID e) (me_TxHash e) = k} \<and>
    (\<forall>v \<in> set evs. mv_Type v = ''tx.dropped'' \<and> mv_Status v = StatusDropped) \<and>
    set (Pending w') =
      {k \<in> set (Pending w). \<forall>e \<in> set es. me_Kind e = ''exit'' \<longrightarrow> watcher_key (me_ChainID e) (me_TxHash e) \<noteq> k}"
proof -
  have close: "watcher_Run (map WatchEvent es @ [WatchClosed]) w =
      (case watcher_Run (map WatchEvent es) w of (evs, w', _) \<Rightarrow> (evs, w', True))" for w
    by (induction es arbitrary: w) (simp_all split: prod.splits)
  obtain evs w' where *: "watcher_Run (map WatchEvent es) w = (evs, w', False)"
    "distinct (map emission_key evs)" "emission_key ` set evs = set (Pending w) \<inter> exits (map WatchEvent es)"
    "\<forall>v \<in> set evs. mv_Type v = ''tx.dropped'' \<and> mv_Status v = StatusDropped"
    "Pending w' = filter (\<lambda>k. k \<notin> exits (map WatchEvent es)) (Pending w)"
    using watcher_Run_run [OF assms, of "map WatchEvent es"] by (auto simp: live_def)
  have ex: "k \<in> exits (map WatchEvent es) \<longleftrightarrow>
      (\<exists>e \<in> set es. me_Kind e = ''exit'' \<and> watcher_key (me_ChainID e) (me_TxHash e) = k)" for k
    by (auto simp: exits_def event_key_def)
  have fold_key: "(\<lambda>v. watcher_key (mv_ChainID v) (mv_TxHash v)) = emission_key"
    by (simp add: emission_key_def fun_eq_iff)
  have "emission_key ` set evs = {k \<in> set (Pending w). \<exists>e \<in> set es. me_Kind e = ''exit'' \<and>
      watcher_key (me_ChainID e) (me_TxHash e) = k}"
    unfolding *(3) using ex by blast
  moreover have "set (Pending w') = {k \<in> set (Pending w). \<forall>e \<in> set es. me_Kind e = ''exit'' \<longrightarrow>
      watcher_key (me_ChainID e) (me_TxHash e) \<noteq> k}"
    unfolding *(5) set_filter using ex by blast
  ultimately show ?thesis using *(1,2,4) close [of w] unfolding fold_key by simp
qed

definition sample_exit :: mempool_event where
  "sample_exit = \<lparr>me_ChainID = ''ethereum'', me_TxHash = ''0xab'', me_Kind = ''exit'', me_SeenAt = 1\<rparr>"

theorem watcher_drops_each_once_witness:
  "\<exists>evs w'. watcher_Run (map WatchEvent [sample_exit, sample_exit] @ [WatchClosed])
      (watcher_Track 1 ''ethereum'' ''0xab'' (NewWatcher True 0)) = (evs, w', True) \<and> Pending w' = []"
proof -
  let ?w = "watcher_Track 1 ''ethereum'' ''0xab'' (NewWatcher True 0)"
  have em: "wt_emitter ?w" and P: "set (Pending ?w) = {watcher_key ''ethereum'' ''0xab''}"
    by (simp_all add: watcher_Track_def NewWatcher_def Pending_def)
  have k: "watcher_key (me_ChainID sample_exit) (me_TxHash sample_exit) = watcher_key ''ethereum'' ''0xab''"
    "me_Kind sample_exit = ''exit''"
    by (simp_all add: sample_exit_def)
  obtain evs w' where "watcher_Run (map WatchEvent [sample_exit, sample_exit] @ [WatchClosed]) ?w = (evs, w', True)"
    and P': "set (Pending w') = {k \<in> set (Pending ?w). \<forall>e \<in> set [sample_exit, sample_exit].
      me_Kind e = ''exit'' \<longrightarrow> watcher_key (me_ChainID e) (me_TxHash e) \<noteq> k}"
    using watcher_drops_each_once [OF em, of "[sample_exit, sample_exit]"] by blast
  moreover have "set (Pending w') = {}" unfolding P' P by (simp add: k)
  then have "Pending w' = []" by simp
  ultimately show ?thesis by blast
qed

end
