(* ===== verification/Subscriptions.thy ===== *)
theory Subscriptions
  imports Rpc_Adapters Mempool_Watcher "HOL-Library.Sublist"
begin

text \<open>
  The subscriptions an adapter hands out (\<open>SubscribeHeads\<close> and \<open>SubscribeMempool\<close> of
  \<open>internal/chain/adapters.go\<close> and of the stub in \<open>internal/chain/registry.go\<close>): a channel, a function to cancel it and, for the
  heads of a real adapter, the goroutine that fills the channel until its context is done.
\<close>

section \<open>Heads of a real adapter\<close>

text \<open>
  The state of a subscription: the goroutine's last height and the channel's buffer as its ticks use them, with the
  node behind; whether the channel is closed; and the heads received so far.
\<close>

record 'w heads_sub =
  hu_poll :: "(u64 \<times> head list) \<times> 'w"
  hu_closed :: bool
  hu_got :: "head list"

definition SubscribeHeads :: "'w \<Rightarrow> 'w heads_sub" where
  "SubscribeHeads w = \<lparr>hu_poll = ((0, []), w), hu_closed = False, hu_got = []\<rparr>"

text \<open>The cancel function that comes with the channel has an empty body.\<close>

definition heads_cancel :: "'w heads_sub \<Rightarrow> 'w heads_sub" where
  "heads_cancel s = s"

datatype sub_event = SubTick time | SubTake | SubCancel | SubDone

text \<open>
  The goroutine returns when the context is done and closes the channel on its way; ticks after that find nobody. What is in
  the buffer of a closed channel can still be received.
\<close>

fun sub_step ::
  "(time \<Rightarrow> (u64 \<times> head list) \<times> 'w \<Rightarrow> (u64 \<times> head list) \<times> 'w) \<Rightarrow> 'w heads_sub \<Rightarrow> sub_event \<Rightarrow> 'w heads_sub" where
  "sub_step tick s (SubTick now) = (if hu_closed s then s else s\<lparr>hu_poll := tick now (hu_poll s)\<rparr>)"
| "sub_step tick s SubTake =
     (case snd (fst (hu_poll s)) of
        [] \<Rightarrow> s
      | h # hs \<Rightarrow> s\<lparr>hu_poll := ((fst (fst (hu_poll s)), hs), snd (hu_poll s)), hu_got := hu_got s @ [h]\<rparr>)"
| "sub_step tick s SubCancel = heads_cancel s"
| "sub_step tick s SubDone = s\<lparr>hu_closed := True\<rparr>"

text \<open>Until the context is done a subscription behaves as the polled heads of the adapters, whether it is cancelled or not.\<close>

fun poll_events :: "sub_event list \<Rightarrow> poll_event list" where
  "poll_events [] = []"
| "poll_events (SubTick now # es) = PollTick now # poll_events es"
| "poll_events (SubTake # es) = PollTake # poll_events es"
| "poll_events (_ # es) = poll_events es"

lemma sub_run_polls:
  assumes "\<not> hu_closed s" and "SubDone \<notin> set es"
  shows "(hu_poll (run (sub_step tick) s es), hu_got (run (sub_step tick) s es)) =
      run (poll_step tick) (hu_poll s, hu_got s) (poll_events es) \<and> \<not> hu_closed (run (sub_step tick) s es)"
  using assms
proof (induction es arbitrary: s)
  case (Cons e es)
  obtain n ch w where s: "hu_poll s = ((n, ch), w)" by (metis surj_pair)
  show ?case
  proof (cases e)
    case (SubTick now)
    with Cons show ?thesis by simp
  next
    case SubTake
    with Cons s show ?thesis by (cases ch) simp_all
  next
    case SubCancel
    with Cons show ?thesis by (simp add: heads_cancel_def)
  qed (use Cons in simp)
qed simp

definition sub_rest :: "'w heads_sub \<Rightarrow> head list" where
  "sub_rest s = hu_got s @ snd (fst (hu_poll s))"

lemma sub_closed_step: "hu_closed s \<Longrightarrow> hu_closed (sub_step tick s e) \<and> sub_rest (sub_step tick s e) = sub_rest s"
  by (cases e) (auto simp: sub_rest_def heads_cancel_def split: list.split)

interpretation sub_closed: machine "sub_step tick" "\<lambda>s. hu_closed s \<and> sub_rest s = hs"
  by unfold_locales (use sub_closed_step in blast)

text \<open>
  A subscription of heads ends with its context and not with its cancel function. Cancelling at any points changes nothing: the goroutine goes
  on polling the node and sending heads. Once the context is done nothing is sent any more: what was received together with what
  is still in the channel stays the same.
\<close>

theorem heads_end_with_context:
  "run (sub_step tick) s es = run (sub_step tick) s (filter (\<lambda>e. e \<noteq> SubCancel) es) \<and>
   sub_rest (run (sub_step tick) s (es @ SubDone # fs)) = sub_rest (run (sub_step tick) s es)"
proof
  show "run (sub_step tick) s es = run (sub_step tick) s (filter (\<lambda>e. e \<noteq> SubCancel) es)"
    by (induction es arbitrary: s) (auto simp: heads_cancel_def)
  let ?s = "run (sub_step tick) s es"
  have "hu_closed (sub_step tick ?s SubDone) \<and> sub_rest (sub_step tick ?s SubDone) = sub_rest ?s" by (simp add: sub_rest_def)
  from sub_closed.run_inv [OF this, where es = fs] show "sub_rest (run (sub_step tick) s (es @ SubDone # fs)) = sub_rest ?s" by simp
qed

section \<open>Heads of the stub\<close>

text \<open>The stub hands out its one channel to everybody; what one subscriber takes the others do not see.\<close>

definition stub_SubscribeHeads :: "stub_adapter \<Rightarrow> head list" where
  "stub_SubscribeHeads s = sa_headsCh s"

datatype stub_event = StubEmit head | StubTake nat

text \<open>The state: the stub and the heads received, in order, each with the subscriber that got it.\<close>

fun stub_step :: "stub_adapter \<times> (nat \<times> head) list \<Rightarrow> stub_event \<Rightarrow> stub_adapter \<times> (nat \<times> head) list" where
  "stub_step (s, got) (StubEmit h) = (EmitHead h s, got)"
| "stub_step (s, got) (StubTake i) =
     (case stub_SubscribeHeads s of
        [] \<Rightarrow> (s, got)
      | h # hs \<Rightarrow> (s\<lparr>sa_headsCh := hs\<rparr>, got @ [(i, h)]))"

fun emitted_heads :: "stub_event list \<Rightarrow> head list" where
  "emitted_heads [] = []"
| "emitted_heads (StubEmit h # es) = h # emitted_heads es"
| "emitted_heads (StubTake i # es) = emitted_heads es"

lemma emitted_heads_append [simp]: "emitted_heads (es @ fs) = emitted_heads es @ emitted_heads fs"
  by (induction es rule: emitted_heads.induct) auto

lemma stub_run_subseq:
  "run stub_step (s0, []) es = (s, got) \<Longrightarrow>
   subseq (map snd got @ sa_headsCh s) (sa_headsCh s0 @ emitted_heads es) \<and> (length (sa_headsCh s0) \<le> 16 \<longrightarrow> length (sa_headsCh s) \<le> 16)"
proof (induction es arbitrary: s got rule: rev_induct)
  case (snoc e es)
  obtain t g where t: "run stub_step (s0, []) es = (t, g)" by fastforce
  note IH = snoc.IH [OF t]
  show ?case
  proof (cases e)
    case (StubEmit h)
    with t snoc.prems have "s = EmitHead h t" "got = g" by simp_all
    moreover have "subseq ((map snd g @ sa_headsCh t) @ [h]) ((sa_headsCh s0 @ emitted_heads es) @ [h])"
      using IH by (blast intro: list_emb_append_mono)
    moreover have "subseq (map snd g @ sa_headsCh t) ((sa_headsCh s0 @ emitted_heads es) @ [h])"
      using IH by blast
    ultimately show ?thesis using IH StubEmit by (auto simp: EmitHead_def stub_chan_cap_def)
  next
    case (StubTake i)
    with t snoc.prems IH show ?thesis
      by (auto simp: stub_SubscribeHeads_def split: list.splits)
  qed
qed simp

text \<open>
  The subscribers of a stub share its channel. However they take turns, the heads all of them have received, in the order of
  receipt, followed by what is still in the channel are a subsequence of the heads emitted: a head reaches one of the
  subscribers at most, and none when the channel holds sixteen.
\<close>

theorem stub_heads_shared:
  assumes "run stub_step (NewStubAdapter opts, []) es = (s, got)"
  shows "subseq (map snd got @ stub_SubscribeHeads s) (emitted_heads es) \<and> length (stub_SubscribeHeads s) \<le> 16"
  using stub_run_subseq [OF assms] by (simp add: NewStubAdapter_def stub_SubscribeHeads_def)

definition sample_emitted :: head where
  "sample_emitted = \<lparr>hd_ChainID = ''ethereum'', hd_Height = 101, hd_Hash = ''0xb'', hd_ParentHash = ''0xa'', hd_Timestamp = 1\<rparr>"

section \<open>Mempool events\<close>

text \<open>
  The mempool channel of a real adapter is made without a buffer and nobody keeps its sending end; the stub hands out its
  own. A channel is its buffered events, and whether anybody can send.
\<close>

record mempool_chan =
  mc_buf :: "mempool_event list"
  mc_sender :: bool

definition idle_mempool :: mempool_chan where
  "idle_mempool = \<lparr>mc_buf = [], mc_sender = False\<rparr>"

definition evm_SubscribeMempool :: "evm_adapter \<Rightarrow> string list \<Rightarrow> mempool_chan" where
  "evm_SubscribeMempool e ownAddrs = idle_mempool"

definition sol_SubscribeMempool :: "solana_adapter \<Rightarrow> string list \<Rightarrow> mempool_chan" where
  "sol_SubscribeMempool s ownAddrs = idle_mempool"

definition btc_SubscribeMempool :: "bitcoin_adapter \<Rightarrow> string list \<Rightarrow> mempool_chan" where
  "btc_SubscribeMempool b ownAddrs = idle_mempool"

definition stub_SubscribeMempool :: "string list \<Rightarrow> stub_adapter \<Rightarrow> mempool_chan" where
  "stub_SubscribeMempool ownAddrs s = \<lparr>mc_buf = sa_mempoolCh s, mc_sender = True\<rparr>"

text \<open>What a reader of the channel can meet: an event that is buffered or that a sender sends, or the end of its context.\<close>

definition readable :: "mempool_chan \<Rightarrow> watch_input \<Rightarrow> bool" where
  "readable c i \<longleftrightarrow> (case i of WatchDone \<Rightarrow> True | WatchClosed \<Rightarrow> False | WatchEvent e \<Rightarrow> mc_sender c \<or> e \<in> set (mc_buf c))"

lemma readable_idle: "readable idle_mempool i \<longleftrightarrow> i = WatchDone"
  by (cases i) (simp_all add: readable_def idle_mempool_def)

text \<open>
  The mempool subscription of a real adapter is silent: a watcher that reads it returns when its context ends and never before,
  emits nothing, and never forgets a transaction.
\<close>

theorem real_mempool_silent:
  assumes "c = evm_SubscribeMempool e addrs \<or> c = sol_SubscribeMempool s addrs \<or> c = btc_SubscribeMempool b addrs"
    and "list_all (readable c) is"
  shows "watcher_Run is w = ([], w, is \<noteq> [])"
proof -
  have "c = idle_mempool"
    using assms(1) by (auto simp: evm_SubscribeMempool_def sol_SubscribeMempool_def btc_SubscribeMempool_def)
  then have "\<forall>i \<in> set is. i = WatchDone" using assms(2) by (simp add: list_all_iff readable_idle)
  then show ?thesis by (cases "is") auto
qed

section \<open>Witnesses\<close>

theorem stub_heads_shared_witness:
  "let (s, got) = run stub_step (sample_stub, []) [StubEmit sample_emitted, StubTake 0, StubTake 1]
   in subseq (map snd got @ stub_SubscribeHeads s) [sample_emitted] \<and> got = [(0, sample_emitted)]"
proof -
  let ?es = "[StubEmit sample_emitted, StubTake 0, StubTake 1]"
  obtain s got where r: "run stub_step (sample_stub, []) ?es = (s, got)" by fastforce
  then have "got = [(0, sample_emitted)]"
    by (auto simp: EmitHead_def stub_SubscribeHeads_def sample_stub_def NewStubAdapter_def stub_chan_cap_def)
  with stub_heads_shared [OF r [unfolded sample_stub_def]] r show ?thesis by simp
qed

theorem real_mempool_silent_witness:
  "watcher_Run [WatchDone] (NewWatcher True 1) = ([], NewWatcher True 1, True)"
  using real_mempool_silent [of "evm_SubscribeMempool (NewEVMAdapter sample_rpc_config) []" "NewEVMAdapter sample_rpc_config" "[]"
      "NewSolanaAdapter sample_rpc_config" "NewBitcoinAdapter sample_rpc_config" "[WatchDone]" "NewWatcher True 1"]
  by (simp add: readable_def)

end
