(* ===== verification/Store_Spec.thy ===== *)
theory Store_Spec
  imports Chain_Types
begin

text \<open>
  The storage interfaces of \<open>internal/store/store.go\<close>: the persisted rows, and each Go interface
  as a record of the operations it lists over a state \<open>'s\<close> of the backend. Contexts are left out;
  an operation that reads the clock or draws an id takes the reading and the id as arguments. The
  contracts the clients rely on are the locales at the end: what a lookup returns after an update,
  when a transition takes place, and when the outbox accepts an entry.
\<close>

section \<open>Rows\<close>

record broadcast_row =
  br_ID :: uuid
  br_ChainID :: string
  br_TxHash :: string
  br_SignedTx :: bytes
  br_FromAddr :: string
  br_ToAddr :: string
  br_Value :: "int option"
  br_Nonce :: u64
  br_SubmittedAt :: time
  br_SubmittedBy :: string

record confirmation =
  cf_ID :: uuid
  cf_ChainID :: string
  cf_TxHash :: string
  cf_Status :: status
  cf_BlockHeight :: u64
  cf_BlockHash :: string
  cf_Confirmations :: u64
  cf_FirstSeenAt :: time
  cf_ConfirmedAt :: time
  cf_FinalizedAt :: time

record tip_row =
  tp_ID :: uuid
  tp_ChainID :: string
  tp_TipHeight :: u64
  tp_TipHash :: string
  tp_FinalizedHeight :: u64
  tp_UpdatedAt :: time

record fee_row =
  fw_ID :: uuid
  fw_ChainID :: string
  fw_Priority :: priority
  fw_GasLimit :: u64
  fw_MaxFeePerGas :: "int option"
  fw_MaxPriorityFeePerGas :: "int option"
  fw_GasPrice :: "int option"
  fw_TotalFee :: "int option"
  fw_SampleCount :: int
  fw_ComputedAt :: time
  fw_Strategy :: string

record reorg_event =
  re_ID :: uuid
  re_ChainID :: string
  re_DetectedAt :: time
  re_OldTipHash :: string
  re_NewTipHash :: string
  re_CommonAncestorHeight :: u64
  re_AffectedTxHashes :: "string list"

record outbox_entry =
  oe_ID :: uuid
  oe_ChainID :: string
  oe_TxHash :: string
  oe_Status :: status
  oe_BlockHeight :: u64
  oe_EventType :: string
  oe_Payload :: bytes
  oe_CreatedAt :: time
  oe_EmittedAt :: time

section \<open>Interfaces\<close>

text \<open>
  \<open>Transition\<close> returns an error, or nothing when the row's status is not the expected one, or the
  updated row; a \<open>nil\<close> mutator is the identity.
\<close>

record 's broadcast_store =
  bs_Insert :: "time \<Rightarrow> uuid \<Rightarrow> broadcast_row \<Rightarrow> 's \<Rightarrow> unit result \<times> 's"
  bs_GetByTxHash :: "string \<Rightarrow> string \<Rightarrow> 's \<Rightarrow> broadcast_row result"
  bs_Exists :: "string \<Rightarrow> string \<Rightarrow> 's \<Rightarrow> bool result"

record 's confirmation_store =
  cs_Upsert :: "time \<Rightarrow> uuid \<Rightarrow> confirmation \<Rightarrow> 's \<Rightarrow> unit result \<times> 's"
  cs_Get :: "string \<Rightarrow> string \<Rightarrow> 's \<Rightarrow> confirmation result"
  cs_ListByStatus :: "string \<Rightarrow> status \<Rightarrow> 's \<Rightarrow> confirmation list result"
  cs_ListAboveHeight :: "string \<Rightarrow> u64 \<Rightarrow> 's \<Rightarrow> confirmation list result"
  cs_Transition :: "string \<Rightarrow> string \<Rightarrow> status \<Rightarrow> status \<Rightarrow> (confirmation \<Rightarrow> confirmation) \<Rightarrow> 's \<Rightarrow>
    confirmation option result \<times> 's"

record 's tip_store =
  tps_Upsert :: "time \<Rightarrow> uuid \<Rightarrow> tip_row \<Rightarrow> 's \<Rightarrow> unit result \<times> 's"
  tps_Get :: "string \<Rightarrow> 's \<Rightarrow> tip_row result"

record 's fee_store =
  fs_Insert :: "time \<Rightarrow> uuid \<Rightarrow> fee_row \<Rightarrow> 's \<Rightarrow> unit result \<times> 's"
  fs_Latest :: "string \<Rightarrow> priority \<Rightarrow> 's \<Rightarrow> fee_row result"

record 's reorg_store =
  rs_Append :: "time \<Rightarrow> uuid \<Rightarrow> reorg_event \<Rightarrow> 's \<Rightarrow> unit result \<times> 's"
  rs_List :: "string \<Rightarrow> 's \<Rightarrow> reorg_event list result"

record 's outbox_store =
  os_Append :: "time \<Rightarrow> uuid \<Rightarrow> outbox_entry \<Rightarrow> 's \<Rightarrow> bool result \<times> 's"
  os_ListPending :: "int \<Rightarrow> 's \<Rightarrow> outbox_entry list result"
  os_MarkEmitted :: "time \<Rightarrow> uuid \<Rightarrow> 's \<Rightarrow> unit result \<times> 's"

text \<open>A mutator passed to \<open>Transition\<close> leaves the columns that identify the row alone.\<close>

definition keeps_key :: "(confirmation \<Rightarrow> confirmation) \<Rightarrow> bool" where
  "keeps_key m \<longleftrightarrow> (\<forall>r. cf_ChainID (m r) = cf_ChainID r \<and> cf_TxHash (m r) = cf_TxHash r)"

text \<open>Two rows that agree on everything but their id and the time they were first seen.\<close>

definition same_progress :: "confirmation \<Rightarrow> confirmation \<Rightarrow> bool" where
  "same_progress r r' \<longleftrightarrow>
     cf_ChainID r = cf_ChainID r' \<and> cf_TxHash r = cf_TxHash r' \<and> cf_Status r = cf_Status r' \<and>
     cf_BlockHeight r = cf_BlockHeight r' \<and> cf_BlockHash r = cf_BlockHash r' \<and>
     cf_Confirmations r = cf_Confirmations r' \<and> cf_ConfirmedAt r = cf_ConfirmedAt r' \<and>
     cf_FinalizedAt r = cf_FinalizedAt r'"

text \<open>
  A view of a store's rows that has moved along the lifecycle only: no row has appeared or vanished,
  and the statuses from the old to the new one of each row form a permitted history.
\<close>

definition progress_le :: "('k \<Rightarrow> confirmation option) \<Rightarrow> ('k \<Rightarrow> confirmation option) \<Rightarrow> bool" where
  "progress_le m m' \<longleftrightarrow>
     (\<forall>k. case m k of
        None \<Rightarrow> m' k = None
      | Some r \<Rightarrow> \<exists>r' path. m' k = Some r' \<and> lifecycle (cf_Status r) path (cf_Status r'))"

lemma progress_leD:
  "progress_le m m' \<Longrightarrow> m k = Some r \<Longrightarrow> \<exists>r' path. m' k = Some r' \<and> lifecycle (cf_Status r) path (cf_Status r')"
  by (auto simp: progress_le_def dest!: spec [of _ k])

lemma progress_le_refl: "progress_le m m"
  by (auto simp: progress_le_def intro: lifecycle.start split: option.split)

lemma progress_le_trans:
  assumes "progress_le l m" and "progress_le m n"
  shows "progress_le l n"
  unfolding progress_le_def
proof
  fix k
  show "case l k of None \<Rightarrow> n k = None | Some r \<Rightarrow> \<exists>r' path. n k = Some r' \<and> lifecycle (cf_Status r) path (cf_Status r')"
    using spec [OF assms(1) [unfolded progress_le_def], of k] spec [OF assms(2) [unfolded progress_le_def], of k]
    by (auto split: option.splits) (metis lifecycle_trans option.inject option.distinct(1))
qed

lemma progress_le_update:
  assumes "m k = Some r" and "CanTransitionTo (cf_Status r) (cf_Status r')"
  shows "progress_le m (m(k \<mapsto> r'))"
proof -
  have "\<exists>path. lifecycle (cf_Status r) path (cf_Status r')"
    using assms(2) lifecycle.start lifecycle.move [OF lifecycle.start] by (cases "cf_Status r = cf_Status r'") metis+
  then show ?thesis using assms(1) by (auto simp: progress_le_def intro: lifecycle.start split: option.split)
qed

definition outbox_id :: "outbox_entry \<Rightarrow> string \<times> string \<times> status \<times> u64" where
  "outbox_id e = (oe_ChainID e, oe_TxHash e, oe_Status e, oe_BlockHeight e)"

section \<open>Contracts\<close>

text \<open>
  The broadcast store keeps the first row inserted for a chain and hash. \<open>row\<close> reads the state;
  \<open>inv\<close> is the backend's own invariant.
\<close>

locale broadcast_contract =
  fixes ops :: "'s broadcast_store"
    and row :: "'s \<Rightarrow> string \<Rightarrow> string \<Rightarrow> broadcast_row option"
    and inv :: "'s \<Rightarrow> bool"
    and filled :: "time \<Rightarrow> uuid \<Rightarrow> broadcast_row \<Rightarrow> broadcast_row"
  assumes GetByTxHash: "bs_GetByTxHash ops c h s =
      (case row s c h of None \<Rightarrow> Inl (ErrNotFound c h) | Some r \<Rightarrow> Inr r)"
    and Exists: "bs_Exists ops c h s = Inr (row s c h \<noteq> None)"
    and Insert_ok: "inv s \<Longrightarrow> sep_free (br_ChainID b) \<Longrightarrow> fst (bs_Insert ops now u b s) = Inr ()"
    and Insert_inv: "inv s \<Longrightarrow> sep_free (br_ChainID b) \<Longrightarrow> inv (snd (bs_Insert ops now u b s))"
    and Insert_row: "inv s \<Longrightarrow> sep_free (br_ChainID b) \<Longrightarrow> sep_free c \<Longrightarrow>
      row (snd (bs_Insert ops now u b s)) c h =
        (case row s c h of
           Some r \<Rightarrow> Some r
         | None \<Rightarrow> if c = br_ChainID b \<and> h = br_TxHash b then Some (filled now u b) else None)"
    and filled_keeps: "br_TxHash (filled now u b) = br_TxHash b"
      "br_Nonce (filled now u b) = br_Nonce b" "br_SignedTx (filled now u b) = br_SignedTx b"
begin

lemma Insert_again:
  assumes "inv s" and "sep_free (br_ChainID b)" and "sep_free c" and "row s c h = Some r"
  shows "row (snd (bs_Insert ops now u b s)) c h = Some r"
  using assms by (simp add: Insert_row)

lemma Insert_then_Get:
  assumes "inv s" and "sep_free (br_ChainID b)"
  shows "\<exists>r. bs_GetByTxHash ops (br_ChainID b) (br_TxHash b) (snd (bs_Insert ops now u b s)) = Inr r"
  using assms by (simp add: GetByTxHash Insert_row split: option.splits)

end

text \<open>
  The confirmation store: \<open>Upsert\<close> replaces a row (a backend may keep the old id and first-seen
  time, hence \<open>stored\<close>), \<open>Transition\<close> is a compare-and-set on the status that refuses what the
  lifecycle forbids, the listings return exactly the matching rows.
\<close>

locale confirmation_contract =
  fixes ops :: "'s confirmation_store"
    and row :: "'s \<Rightarrow> string \<Rightarrow> string \<Rightarrow> confirmation option"
    and inv :: "'s \<Rightarrow> bool"
    and stored :: "time \<Rightarrow> uuid \<Rightarrow> confirmation option \<Rightarrow> confirmation \<Rightarrow> confirmation"
  assumes Get: "cs_Get ops c h s =
      (case row s c h of None \<Rightarrow> Inl (ErrNotFound c h) | Some r \<Rightarrow> Inr r)"
    and row_key: "inv s \<Longrightarrow> sep_free c \<Longrightarrow> row s c h = Some r \<Longrightarrow> cf_ChainID r = c \<and> cf_TxHash r = h"
    and Upsert_ok: "fst (cs_Upsert ops now u r s) = Inr ()"
    and Upsert_inv: "inv s \<Longrightarrow> sep_free (cf_ChainID r) \<Longrightarrow> inv (snd (cs_Upsert ops now u r s))"
    and Upsert_row: "inv s \<Longrightarrow> sep_free (cf_ChainID r) \<Longrightarrow> sep_free c \<Longrightarrow>
      row (snd (cs_Upsert ops now u r s)) c h =
        (if c = cf_ChainID r \<and> h = cf_TxHash r then Some (stored now u (row s c h) r) else row s c h)"
    and stored_same: "same_progress (stored now u old r) r"
    and Transition_fst: "fst (cs_Transition ops c h from to m s) =
      (case row s c h of
         None \<Rightarrow> Inl (ErrNotFound c h)
       | Some r \<Rightarrow>
           if cf_Status r \<noteq> from then Inr None
           else if \<not> CanTransitionTo from to then Inl (ErrInvalidTransition from to)
           else Inr (Some (m (r\<lparr>cf_Status := to\<rparr>))))"
    and Transition_inv: "inv s \<Longrightarrow> sep_free c \<Longrightarrow> keeps_key m \<Longrightarrow>
      inv (snd (cs_Transition ops c h from to m s))"
    and Transition_row: "inv s \<Longrightarrow> sep_free c \<Longrightarrow> sep_free c' \<Longrightarrow>
      row (snd (cs_Transition ops c h from to m s)) c' h' =
        (case fst (cs_Transition ops c h from to m s) of
           Inr (Some r) \<Rightarrow> if c' = c \<and> h' = h then Some r else row s c' h'
         | _ \<Rightarrow> row s c' h')"
    and ListByStatus: "inv s \<Longrightarrow> sep_free c \<Longrightarrow> \<exists>rs. cs_ListByStatus ops c st s = Inr rs \<and>
      set rs = {r. \<exists>h. row s c h = Some r \<and> cf_Status r = st} \<and> distinct (map cf_TxHash rs)"
    and ListAboveHeight: "inv s \<Longrightarrow> sep_free c \<Longrightarrow> \<exists>rs. cs_ListAboveHeight ops c n s = Inr rs \<and>
      set rs = {r. \<exists>h. row s c h = Some r \<and> n < cf_BlockHeight r} \<and> distinct (map cf_TxHash rs)"
begin

lemma Transition_other:
  assumes "inv s" and "sep_free c" and "sep_free c'" and "(c', h') \<noteq> (c, h)"
  shows "row (snd (cs_Transition ops c h from to m s)) c' h' = row s c' h'"
  using assms by (auto simp: Transition_row split: sum.splits option.splits)

lemma Transition_self:
  assumes "inv s" and "sep_free c" and "row s c h = Some r"
  shows "row (snd (cs_Transition ops c h from to m s)) c h =
    Some (if cf_Status r = from \<and> CanTransitionTo from to then m (r\<lparr>cf_Status := to\<rparr>) else r)"
  using assms by (simp add: Transition_row Transition_fst)

end

text \<open>
  The tip store holds the last tip written per chain; the reorg store is append-only.
\<close>

locale tip_contract =
  fixes ops :: "'s tip_store"
    and row :: "'s \<Rightarrow> string \<Rightarrow> tip_row option"
    and stored :: "time \<Rightarrow> uuid \<Rightarrow> tip_row \<Rightarrow> tip_row"
  assumes Get: "tps_Get ops c s =
      (case row s c of None \<Rightarrow> Inl (ErrNotFound c ''tip'') | Some r \<Rightarrow> Inr r)"
    and Upsert_row: "row (snd (tps_Upsert ops now u t s)) c =
      (if c = tp_ChainID t then Some (stored now u t) else row s c)"
    and stored_same: "tp_TipHash (stored now u t) = tp_TipHash t"
      "tp_TipHeight (stored now u t) = tp_TipHeight t"
      "tp_FinalizedHeight (stored now u t) = tp_FinalizedHeight t"
begin

lemma Get_after_Upsert:
  "tps_Get ops (tp_ChainID t) (snd (tps_Upsert ops now u t s)) = Inr (stored now u t)"
  by (simp add: Get Upsert_row)

end

locale reorg_contract =
  fixes ops :: "'s reorg_store"
    and events :: "'s \<Rightarrow> string \<Rightarrow> reorg_event list"
    and stored :: "time \<Rightarrow> uuid \<Rightarrow> reorg_event \<Rightarrow> reorg_event"
  assumes List: "rs_List ops c s = Inr (events s c)"
    and Append_ok: "fst (rs_Append ops now u e s) = Inr ()"
    and Append_events: "events (snd (rs_Append ops now u e s)) c =
      (if c = re_ChainID e then events s c @ [stored now u e] else events s c)"
    and stored_same: "re_AffectedTxHashes (stored now u e) = re_AffectedTxHashes e"
      "re_CommonAncestorHeight (stored now u e) = re_CommonAncestorHeight e"
begin

lemma append_only:
  "\<exists>new. events (snd (rs_Append ops now u e s)) c = events s c @ new"
  by (simp add: Append_events)

end

text \<open>
  The outbox: an entry is accepted exactly when none with the same chain, hash, status and height
  was accepted before, and accepted entries are never lost.
\<close>

locale outbox_contract =
  fixes ops :: "'s outbox_store"
    and entries :: "'s \<Rightarrow> outbox_entry list"
    and inv :: "'s \<Rightarrow> bool"
    and filled :: "time \<Rightarrow> uuid \<Rightarrow> outbox_entry \<Rightarrow> outbox_entry"
  assumes Append_fst: "inv s \<Longrightarrow> sep_free (oe_ChainID e) \<Longrightarrow> sep_free (oe_TxHash e) \<Longrightarrow>
      fst (os_Append ops now u e s) = Inr (outbox_id e \<notin> outbox_id ` set (entries s))"
    and Append_entries: "inv s \<Longrightarrow> sep_free (oe_ChainID e) \<Longrightarrow> sep_free (oe_TxHash e) \<Longrightarrow>
      entries (snd (os_Append ops now u e s)) =
        (if outbox_id e \<in> outbox_id ` set (entries s) then entries s else entries s @ [filled now u e])"
    and Append_inv: "inv s \<Longrightarrow> sep_free (oe_ChainID e) \<Longrightarrow> sep_free (oe_TxHash e) \<Longrightarrow>
      inv (snd (os_Append ops now u e s))"
    and filled_id: "outbox_id (filled now u e) = outbox_id e"
begin

lemma Append_distinct:
  assumes "inv s" and "sep_free (oe_ChainID e)" and "sep_free (oe_TxHash e)"
    and "distinct (map outbox_id (entries s))"
  shows "distinct (map outbox_id (entries (snd (os_Append ops now u e s))))"
  using assms by (auto simp: Append_entries filled_id)

end

end
