(* ===== verification/Mem_Store.thy ===== *)
theory Mem_Store
  imports Store_Spec
begin

text \<open>
  The in-memory stores of \<open>internal/store/memstore\<close>. Each store is its map or slice; its mutex
  makes every operation atomic, so an operation is a function of the state. Stored rows are copies,
  never aliases of the caller's, hence plain values. Every store is shown to satisfy the contract of
  its interface by an interpretation.
\<close>

definition key :: "string \<Rightarrow> string \<Rightarrow> string" where
  "key chainID txHash = chainID @ ''|'' @ txHash"

section \<open>BroadcastStore\<close>

type_synonym mem_broadcasts = "(string, broadcast_row) gomap"

definition NewBroadcastStore :: mem_broadcasts where
  "NewBroadcastStore = []"

definition fill_broadcast :: "time \<Rightarrow> uuid \<Rightarrow> broadcast_row \<Rightarrow> broadcast_row" where
  "fill_broadcast now u b =
     b\<lparr>br_ID := (if br_ID b = zero_uuid then u else br_ID b),
       br_SubmittedAt := (if br_SubmittedAt b = zero_time then now else br_SubmittedAt b)\<rparr>"

definition bcast_Insert :: "time \<Rightarrow> uuid \<Rightarrow> broadcast_row \<Rightarrow> mem_broadcasts \<Rightarrow> unit result \<times> mem_broadcasts" where
  "bcast_Insert now u b s =
     (let k = key (br_ChainID b) (br_TxHash b) in
      case map_of s k of
        Some _ \<Rightarrow> (Inr (), s)
      | None \<Rightarrow> (Inr (), AList.update k (fill_broadcast now u b) s))"

definition bcast_GetByTxHash :: "string \<Rightarrow> string \<Rightarrow> mem_broadcasts \<Rightarrow> broadcast_row result" where
  "bcast_GetByTxHash chainID txHash s =
     (case map_of s (key chainID txHash) of
        None \<Rightarrow> Inl (ErrNotFound chainID txHash)
      | Some b \<Rightarrow> Inr b)"

definition bcast_Exists :: "string \<Rightarrow> string \<Rightarrow> mem_broadcasts \<Rightarrow> bool result" where
  "bcast_Exists chainID txHash s = Inr (map_of s (key chainID txHash) \<noteq> None)"

definition mem_broadcast_store :: "mem_broadcasts broadcast_store" where
  "mem_broadcast_store =
     \<lparr>bs_Insert = bcast_Insert, bs_GetByTxHash = bcast_GetByTxHash, bs_Exists = bcast_Exists\<rparr>"

section \<open>ConfirmationStore\<close>

type_synonym mem_confirmations = "(string, confirmation) gomap"

definition NewConfirmationStore :: mem_confirmations where
  "NewConfirmationStore = []"

definition fill_confirmation :: "time \<Rightarrow> uuid \<Rightarrow> confirmation \<Rightarrow> confirmation" where
  "fill_confirmation now u c =
     c\<lparr>cf_ID := (if cf_ID c = zero_uuid then u else cf_ID c),
       cf_FirstSeenAt := (if cf_FirstSeenAt c = zero_time then now else cf_FirstSeenAt c)\<rparr>"

definition conf_Upsert :: "time \<Rightarrow> uuid \<Rightarrow> confirmation \<Rightarrow> mem_confirmations \<Rightarrow> unit result \<times> mem_confirmations" where
  "conf_Upsert now u c s =
     (Inr (), AList.update (key (cf_ChainID c) (cf_TxHash c)) (fill_confirmation now u c) s)"

definition conf_Get :: "string \<Rightarrow> string \<Rightarrow> mem_confirmations \<Rightarrow> confirmation result" where
  "conf_Get chainID txHash s =
     (case map_of s (key chainID txHash) of
        None \<Rightarrow> Inl (ErrNotFound chainID txHash)
      | Some c \<Rightarrow> Inr c)"

text \<open>Both listings iterate over the map, keep the matching rows and sort them by hash.\<close>

definition conf_ListByStatus :: "string \<Rightarrow> status \<Rightarrow> mem_confirmations \<Rightarrow> confirmation list result" where
  "conf_ListByStatus chainID st s =
     Inr (sort_key cf_TxHash
       (filter (\<lambda>c. cf_ChainID c = chainID \<and> cf_Status c = st) (map snd s)))"

definition conf_ListAboveHeight :: "string \<Rightarrow> u64 \<Rightarrow> mem_confirmations \<Rightarrow> confirmation list result" where
  "conf_ListAboveHeight chainID height s =
     Inr (sort_key cf_TxHash
       (filter (\<lambda>c. cf_ChainID c = chainID \<and> cf_BlockHeight c > height) (map snd s)))"

definition conf_Transition ::
  "string \<Rightarrow> string \<Rightarrow> status \<Rightarrow> status \<Rightarrow> (confirmation \<Rightarrow> confirmation) \<Rightarrow> mem_confirmations \<Rightarrow>
    confirmation option result \<times> mem_confirmations" where
  "conf_Transition chainID txHash from to mutator s =
     (let k = key chainID txHash in
      case map_of s k of
        None \<Rightarrow> (Inl (ErrNotFound chainID txHash), s)
      | Some c \<Rightarrow>
          if cf_Status c \<noteq> from then (Inr None, s)
          else if \<not> CanTransitionTo from to then (Inl (ErrInvalidTransition from to), s)
          else (let clone = mutator (c\<lparr>cf_Status := to\<rparr>)
                in (Inr (Some clone), AList.update k clone s)))"

definition mem_confirmation_store :: "mem_confirmations confirmation_store" where
  "mem_confirmation_store =
     \<lparr>cs_Upsert = conf_Upsert, cs_Get = conf_Get, cs_ListByStatus = conf_ListByStatus,
      cs_ListAboveHeight = conf_ListAboveHeight, cs_Transition = conf_Transition\<rparr>"

section \<open>TipStore\<close>

type_synonym mem_tips = "(string, tip_row) gomap"

definition NewTipStore :: mem_tips where
  "NewTipStore = []"

definition fill_tip :: "time \<Rightarrow> uuid \<Rightarrow> tip_row \<Rightarrow> tip_row" where
  "fill_tip now u t =
     t\<lparr>tp_ID := (if tp_ID t = zero_uuid then u else tp_ID t),
       tp_UpdatedAt := (if tp_UpdatedAt t = zero_time then now else tp_UpdatedAt t)\<rparr>"

definition tip_Upsert :: "time \<Rightarrow> uuid \<Rightarrow> tip_row \<Rightarrow> mem_tips \<Rightarrow> unit result \<times> mem_tips" where
  "tip_Upsert now u t s = (Inr (), AList.update (tp_ChainID t) (fill_tip now u t) s)"

definition tip_Get :: "string \<Rightarrow> mem_tips \<Rightarrow> tip_row result" where
  "tip_Get chainID s =
     (case map_of s chainID of None \<Rightarrow> Inl (ErrNotFound chainID ''tip'') | Some t \<Rightarrow> Inr t)"

definition mem_tip_store :: "mem_tips tip_store" where
  "mem_tip_store = \<lparr>tps_Upsert = tip_Upsert, tps_Get = tip_Get\<rparr>"

section \<open>FeeStore\<close>

type_synonym mem_fees = "(string, fee_row list) gomap"

definition NewFeeStore :: mem_fees where
  "NewFeeStore = []"

definition feeKey :: "string \<Rightarrow> priority \<Rightarrow> string" where
  "feeKey chainID p = chainID @ ''|'' @ p"

definition fill_fee :: "time \<Rightarrow> uuid \<Rightarrow> fee_row \<Rightarrow> fee_row" where
  "fill_fee now u r =
     r\<lparr>fw_ID := (if fw_ID r = zero_uuid then u else fw_ID r),
       fw_ComputedAt := (if fw_ComputedAt r = zero_time then now else fw_ComputedAt r)\<rparr>"

definition fee_rows :: "mem_fees \<Rightarrow> string \<Rightarrow> fee_row list" where
  "fee_rows s k = (case map_of s k of None \<Rightarrow> [] | Some rs \<Rightarrow> rs)"

definition fee_Insert :: "time \<Rightarrow> uuid \<Rightarrow> fee_row \<Rightarrow> mem_fees \<Rightarrow> unit result \<times> mem_fees" where
  "fee_Insert now u r s =
     (let k = feeKey (fw_ChainID r) (fw_Priority r)
      in (Inr (), AList.update k (fee_rows s k @ [fill_fee now u r]) s))"

definition fee_Latest :: "string \<Rightarrow> priority \<Rightarrow> mem_fees \<Rightarrow> fee_row result" where
  "fee_Latest chainID p s =
     (let rows = fee_rows s (feeKey chainID p) in
      if length rows = 0 then Inl (ErrNotFound chainID p) else Inr (rows ! (length rows - 1)))"

definition mem_fee_store :: "mem_fees fee_store" where
  "mem_fee_store = \<lparr>fs_Insert = fee_Insert, fs_Latest = fee_Latest\<rparr>"

section \<open>ReorgStore\<close>

type_synonym mem_reorgs = "(string, reorg_event list) gomap"

definition NewReorgStore :: mem_reorgs where
  "NewReorgStore = []"

definition fill_reorg :: "time \<Rightarrow> uuid \<Rightarrow> reorg_event \<Rightarrow> reorg_event" where
  "fill_reorg now u e =
     e\<lparr>re_ID := (if re_ID e = zero_uuid then u else re_ID e),
       re_DetectedAt := (if re_DetectedAt e = zero_time then now else re_DetectedAt e)\<rparr>"

definition reorg_entries :: "mem_reorgs \<Rightarrow> string \<Rightarrow> reorg_event list" where
  "reorg_entries s k = (case map_of s k of None \<Rightarrow> [] | Some es \<Rightarrow> es)"

definition reorg_Append :: "time \<Rightarrow> uuid \<Rightarrow> reorg_event \<Rightarrow> mem_reorgs \<Rightarrow> unit result \<times> mem_reorgs" where
  "reorg_Append now u e s =
     (Inr (), AList.update (re_ChainID e) (reorg_entries s (re_ChainID e) @ [fill_reorg now u e]) s)"

definition reorg_List :: "string \<Rightarrow> mem_reorgs \<Rightarrow> reorg_event list result" where
  "reorg_List chainID s = Inr (reorg_entries s chainID)"

definition mem_reorg_store :: "mem_reorgs reorg_store" where
  "mem_reorg_store = \<lparr>rs_Append = reorg_Append, rs_List = reorg_List\<rparr>"

section \<open>OutboxStore\<close>

record mem_outbox =
  ob_entries :: "outbox_entry list"
  ob_seen :: "(string, bool) gomap"

definition NewOutboxStore :: mem_outbox where
  "NewOutboxStore = \<lparr>ob_entries = [], ob_seen = []\<rparr>"

definition outboxKey :: "string \<Rightarrow> string \<Rightarrow> status \<Rightarrow> u64 \<Rightarrow> string" where
  "outboxKey chainID txHash st bh =
     chainID @ ''|'' @ txHash @ ''|'' @ status_string st @ ''|'' @ decimal (unat bh)"

definition fill_outbox :: "time \<Rightarrow> uuid \<Rightarrow> outbox_entry \<Rightarrow> outbox_entry" where
  "fill_outbox now u e =
     e\<lparr>oe_ID := (if oe_ID e = zero_uuid then u else oe_ID e),
       oe_CreatedAt := (if oe_CreatedAt e = zero_time then now else oe_CreatedAt e)\<rparr>"

definition outbox_Append :: "time \<Rightarrow> uuid \<Rightarrow> outbox_entry \<Rightarrow> mem_outbox \<Rightarrow> bool result \<times> mem_outbox" where
  "outbox_Append now u e s =
     (let dk = outboxKey (oe_ChainID e) (oe_TxHash e) (oe_Status e) (oe_BlockHeight e) in
      if map_of (ob_seen s) dk = Some True then (Inr False, s)
      else (Inr True, s\<lparr>ob_entries := ob_entries s @ [fill_outbox now u e],
                        ob_seen := AList.update dk True (ob_seen s)\<rparr>))"

text \<open>The listing stops as soon as it holds \<open>limit\<close> entries; the test comes after the append.\<close>

fun pending_loop :: "int \<Rightarrow> outbox_entry list \<Rightarrow> outbox_entry list \<Rightarrow> outbox_entry list" where
  "pending_loop limit [] out = out"
| "pending_loop limit (e # es) out =
     (if oe_EmittedAt e = zero_time
      then (let out = out @ [e] in
            if int (length out) \<ge> limit then out else pending_loop limit es out)
      else pending_loop limit es out)"

definition outbox_ListPending :: "int \<Rightarrow> mem_outbox \<Rightarrow> outbox_entry list result" where
  "outbox_ListPending limit s = Inr (pending_loop limit (ob_entries s) [])"

fun mark_first :: "time \<Rightarrow> uuid \<Rightarrow> outbox_entry list \<Rightarrow> outbox_entry list option" where
  "mark_first now u [] = None"
| "mark_first now u (e # es) =
     (if oe_ID e = u then Some (e\<lparr>oe_EmittedAt := now\<rparr> # es)
      else map_option ((#) e) (mark_first now u es))"

text \<open>\<open>uuid_str\<close> is the uuid package's \<open>String\<close>, used in the error only.\<close>

definition outbox_MarkEmitted ::
  "(uuid \<Rightarrow> string) \<Rightarrow> time \<Rightarrow> uuid \<Rightarrow> mem_outbox \<Rightarrow> unit result \<times> mem_outbox" where
  "outbox_MarkEmitted uuid_str now u s =
     (case mark_first now u (ob_entries s) of
        Some es \<Rightarrow> (Inr (), s\<lparr>ob_entries := es\<rparr>)
      | None \<Rightarrow> (Inl (ErrNotFound ''outbox'' (uuid_str u)), s))"

definition outbox_Snapshot :: "mem_outbox \<Rightarrow> outbox_entry list" where
  "outbox_Snapshot s = ob_entries s"

definition mem_outbox_store :: "(uuid \<Rightarrow> string) \<Rightarrow> mem_outbox outbox_store" where
  "mem_outbox_store uuid_str =
     \<lparr>os_Append = outbox_Append, os_ListPending = outbox_ListPending, os_MarkEmitted = outbox_MarkEmitted uuid_str\<rparr>"

lemmas mem_store_defs =
  mem_broadcast_store_def mem_confirmation_store_def mem_tip_store_def mem_fee_store_def
  mem_reorg_store_def mem_outbox_store_def

section \<open>All stores\<close>

record mem_all =
  all_Broadcast :: mem_broadcasts
  all_Confirmation :: mem_confirmations
  all_Tip :: mem_tips
  all_Fee :: mem_fees
  all_Reorg :: mem_reorgs
  all_Outbox :: mem_outbox

definition NewAll :: mem_all where
  "NewAll = \<lparr>all_Broadcast = NewBroadcastStore, all_Confirmation = NewConfirmationStore, all_Tip = NewTipStore,
     all_Fee = NewFeeStore, all_Reorg = NewReorgStore, all_Outbox = NewOutboxStore\<rparr>"

section \<open>Keys\<close>

lemma sep_join:
  assumes "sep_free a" and "sep_free b"
  shows "a @ CHR ''|'' # s = b @ CHR ''|'' # t \<longleftrightarrow> a = b \<and> s = t"
  using assms append_sep_inject [of "CHR ''|''" a b s t] by (auto simp: sep_free_def)

lemma key_inject [simp]:
  "sep_free c \<Longrightarrow> sep_free c' \<Longrightarrow> key c h = key c' h' \<longleftrightarrow> c = c' \<and> h = h'"
  by (simp add: key_def sep_join)

lemma outboxKey_inject:
  assumes "sep_free c" "sep_free c'" "sep_free h" "sep_free h'"
  shows "outboxKey c h st n = outboxKey c' h' st' n' \<longleftrightarrow> c = c' \<and> h = h' \<and> st = st' \<and> n = n'"
  using assms by (simp add: outboxKey_def sep_join word_unat_eq_iff)

section \<open>The broadcast store meets its contract\<close>

interpretation mem_broadcast: broadcast_contract mem_broadcast_store
  "\<lambda>s c h. map_of s (key c h)" "\<lambda>_. True" fill_broadcast
  by unfold_locales
    (auto simp: mem_broadcast_store_def bcast_GetByTxHash_def bcast_Exists_def bcast_Insert_def
      fill_broadcast_def Let_def split: option.splits)

section \<open>The confirmation store meets its contract\<close>

definition conf_row :: "mem_confirmations \<Rightarrow> string \<Rightarrow> string \<Rightarrow> confirmation option" where
  "conf_row s c h = map_of s (key c h)"

definition conf_inv :: "mem_confirmations \<Rightarrow> bool" where
  "conf_inv s \<longleftrightarrow> wf_map s \<and>
     (\<forall>k r. map_of s k = Some r \<longrightarrow> k = key (cf_ChainID r) (cf_TxHash r) \<and> sep_free (cf_ChainID r))"

lemma conf_inv_New [simp]: "conf_inv NewConfirmationStore"
  by (simp add: conf_inv_def NewConfirmationStore_def)

lemma conf_inv_update:
  "conf_inv s \<Longrightarrow> sep_free (cf_ChainID r) \<Longrightarrow>
   conf_inv (AList.update (key (cf_ChainID r) (cf_TxHash r)) r s)"
  by (simp add: conf_inv_def)

lemma conf_inv_rows:
  assumes "conf_inv s" and "sep_free c"
  shows "set (filter (\<lambda>r. cf_ChainID r = c \<and> P r) (map snd s)) = {r. \<exists>h. conf_row s c h = Some r \<and> P r}"
proof -
  have wf: "distinct (map fst s)" using assms(1) by (simp add: conf_inv_def wf_map_def)
  have "r \<in> set (map snd s) \<and> cf_ChainID r = c \<longleftrightarrow> (\<exists>h. conf_row s c h = Some r)" for r
  proof
    assume "r \<in> set (map snd s) \<and> cf_ChainID r = c"
    then obtain k where "map_of s k = Some r" and "cf_ChainID r = c" using wf by force
    with assms(1) have "map_of s (key c (cf_TxHash r)) = Some r" by (auto simp: conf_inv_def)
    then show "\<exists>h. conf_row s c h = Some r" by (auto simp: conf_row_def)
  next
    assume "\<exists>h. conf_row s c h = Some r"
    then obtain h where h: "map_of s (key c h) = Some r" by (auto simp: conf_row_def)
    with assms have "cf_ChainID r = c" by (metis conf_inv_def key_inject)
    with h show "r \<in> set (map snd s) \<and> cf_ChainID r = c" by (force dest: map_of_SomeD)
  qed
  then show ?thesis by auto
qed

lemma conf_inv_hashes:
  assumes "conf_inv s"
  shows "distinct (map cf_TxHash (filter (\<lambda>r. cf_ChainID r = c \<and> P r) (map snd s)))"
proof -
  let ?fs = "filter (\<lambda>kr. cf_ChainID (snd kr) = c \<and> P (snd kr)) s"
  have wf: "distinct (map fst s)" using assms by (simp add: conf_inv_def wf_map_def)
  have "fst kr = key c (cf_TxHash (snd kr))" if "kr \<in> set ?fs" for kr
    using assms wf that by (cases kr) (auto simp: conf_inv_def)
  then have eq: "map fst ?fs = map (key c) (map (cf_TxHash \<circ> snd) ?fs)" by simp
  have "distinct (map fst ?fs)" using wf by (simp add: distinct_map_filter)
  then have "distinct (map (key c) (map (cf_TxHash \<circ> snd) ?fs))" unfolding eq .
  then have "distinct (map (cf_TxHash \<circ> snd) ?fs)" by (rule distinct_map [THEN iffD1, THEN conjunct1])
  then show ?thesis by (simp add: filter_map comp_def)
qed

lemma distinct_sort_key: "distinct (map f xs) \<Longrightarrow> distinct (map f (sort_key f xs))"
  by (metis mset_map mset_sort mset_eq_imp_distinct_iff)

interpretation mem_confirmation: confirmation_contract mem_confirmation_store
  conf_row conf_inv "\<lambda>now u old. fill_confirmation now u"
proof (unfold_locales, goal_cases)
  case (1 c h s)
  show ?case by (simp add: mem_confirmation_store_def conf_Get_def conf_row_def)
next
  case (2 s c h r)
  then show ?case by (metis conf_inv_def conf_row_def key_inject)
next
  case (3 now u r s)
  show ?case by (simp add: mem_confirmation_store_def conf_Upsert_def)
next
  case (4 s r now u)
  then show ?case
    using conf_inv_update [of s "fill_confirmation now u r"]
    by (simp add: mem_confirmation_store_def conf_Upsert_def fill_confirmation_def)
next
  case (5 s r c now u h)
  then show ?case by (auto simp: mem_confirmation_store_def conf_Upsert_def conf_row_def)
next
  case (6 now u old r)
  show ?case by (simp add: same_progress_def fill_confirmation_def)
next
  case (7 c h st to m s)
  show ?case
    by (simp add: mem_confirmation_store_def conf_Transition_def conf_row_def Let_def split: option.splits)
next
  case (8 s c m h st to)
  then show ?case
    using conf_inv_update [of s "m (the (map_of s (key c h))\<lparr>cf_Status := to\<rparr>)"]
    by (auto simp: mem_confirmation_store_def conf_Transition_def Let_def keeps_key_def conf_inv_def
        split: option.splits)
next
  case (9 s c c' h st to m h')
  then show ?case
    by (auto simp: mem_confirmation_store_def conf_Transition_def conf_row_def Let_def split: option.splits)
next
  case (10 s c st)
  then show ?case
    using conf_inv_rows [of s c "\<lambda>r. cf_Status r = st"]
    by (simp add: mem_confirmation_store_def conf_ListByStatus_def distinct_sort_key conf_inv_hashes)
next
  case (11 s c n)
  then show ?case
    using conf_inv_rows [of s c "\<lambda>r. n < cf_BlockHeight r"]
    by (simp add: mem_confirmation_store_def conf_ListAboveHeight_def distinct_sort_key conf_inv_hashes)
qed

section \<open>The tip, reorg and outbox stores meet their contracts\<close>

interpretation mem_tip: tip_contract mem_tip_store map_of fill_tip
  by unfold_locales (auto simp: mem_tip_store_def tip_Get_def tip_Upsert_def fill_tip_def)

interpretation mem_reorg: reorg_contract mem_reorg_store reorg_entries fill_reorg
  by unfold_locales
    (auto simp: mem_reorg_store_def reorg_List_def reorg_Append_def reorg_entries_def fill_reorg_def
      split: option.splits)

definition entry_key :: "outbox_entry \<Rightarrow> string" where
  "entry_key e = outboxKey (oe_ChainID e) (oe_TxHash e) (oe_Status e) (oe_BlockHeight e)"

text \<open>The set of seen keys and the entries agree, and every entry's key is unambiguous.\<close>

definition outbox_inv :: "mem_outbox \<Rightarrow> bool" where
  "outbox_inv s \<longleftrightarrow>
     (\<forall>k. map_of (ob_seen s) k = Some True \<longleftrightarrow> k \<in> entry_key ` set (ob_entries s)) \<and>
     (\<forall>e \<in> set (ob_entries s). sep_free (oe_ChainID e) \<and> sep_free (oe_TxHash e))"

lemma outbox_inv_New [simp]: "outbox_inv NewOutboxStore"
  by (simp add: outbox_inv_def NewOutboxStore_def)

lemma fill_outbox_simps [simp]:
  "entry_key (fill_outbox now u e) = entry_key e" "outbox_id (fill_outbox now u e) = outbox_id e"
  "oe_ChainID (fill_outbox now u e) = oe_ChainID e" "oe_TxHash (fill_outbox now u e) = oe_TxHash e"
  "oe_EmittedAt (fill_outbox now u e) = oe_EmittedAt e"
  by (simp_all add: fill_outbox_def entry_key_def outbox_id_def)

lemma entry_key_inject:
  assumes "sep_free (oe_ChainID e)" "sep_free (oe_TxHash e)"
    and "sep_free (oe_ChainID f)" "sep_free (oe_TxHash f)"
  shows "entry_key e = entry_key f \<longleftrightarrow> outbox_id e = outbox_id f"
  using assms by (simp add: entry_key_def outbox_id_def outboxKey_inject)

lemma outbox_seen:
  assumes "outbox_inv s" and "sep_free (oe_ChainID e)" and "sep_free (oe_TxHash e)"
  shows "map_of (ob_seen s) (entry_key e) = Some True \<longleftrightarrow> outbox_id e \<in> outbox_id ` set (ob_entries s)"
  using assms by (auto simp: outbox_inv_def image_iff entry_key_inject)

lemma outbox_Append_unfold:
  "outbox_Append now u e s =
     (if map_of (ob_seen s) (entry_key e) = Some True then (Inr False, s)
      else (Inr True, s\<lparr>ob_entries := ob_entries s @ [fill_outbox now u e],
                        ob_seen := AList.update (entry_key e) True (ob_seen s)\<rparr>))"
  by (simp add: outbox_Append_def entry_key_def Let_def)

interpretation mem_outbox: outbox_contract "mem_outbox_store uuid_str" ob_entries outbox_inv fill_outbox
proof (unfold_locales, goal_cases)
  case (1 s e now u)
  then show ?case by (simp add: mem_outbox_store_def outbox_Append_unfold outbox_seen)
next
  case (2 s e now u)
  then show ?case by (simp add: mem_outbox_store_def outbox_Append_unfold outbox_seen)
next
  case (3 s e now u)
  then show ?case by (auto simp: mem_outbox_store_def outbox_Append_unfold outbox_inv_def)
next
  case (4 now u e)
  show ?case by simp
qed

section \<open>Runs of the outbox\<close>

text \<open>
  Any interleaving of the outbox's two updates, by any number of emitters and a relay.
\<close>

datatype outbox_op = OpAppend time uuid outbox_entry | OpMark time uuid

fun outbox_step :: "(uuid \<Rightarrow> string) \<Rightarrow> mem_outbox \<Rightarrow> outbox_op \<Rightarrow> mem_outbox" where
  "outbox_step uuid_str s (OpAppend now u e) = snd (outbox_Append now u e s)"
| "outbox_step uuid_str s (OpMark now u) = snd (outbox_MarkEmitted uuid_str now u s)"

fun op_ok :: "outbox_op \<Rightarrow> bool" where
  "op_ok (OpAppend now u e) \<longleftrightarrow> sep_free (oe_ChainID e) \<and> sep_free (oe_TxHash e)"
| "op_ok (OpMark now u) \<longleftrightarrow> True"

fun op_ids :: "outbox_op \<Rightarrow> (string \<times> string \<times> status \<times> u64) set" where
  "op_ids (OpAppend now u e) = {outbox_id e}"
| "op_ids (OpMark now u) = {}"

lemma mark_first_maps:
  "mark_first now u es = Some es' \<Longrightarrow> (\<And>e. f (e\<lparr>oe_EmittedAt := now\<rparr>) = f e) \<Longrightarrow> map f es' = map f es"
  by (induction es arbitrary: es') (auto split: if_splits)

lemma outbox_MarkEmitted_maps:
  assumes "\<And>e. f (e\<lparr>oe_EmittedAt := now\<rparr>) = f e"
  shows "map f (ob_entries (snd (outbox_MarkEmitted uuid_str now u s))) = map f (ob_entries s)"
    and "ob_seen (snd (outbox_MarkEmitted uuid_str now u s)) = ob_seen s"
  using mark_first_maps [of now u "ob_entries s" _ f] assms
  by (auto simp: outbox_MarkEmitted_def split: option.splits)

lemma outbox_MarkEmitted_inv:
  assumes "outbox_inv s"
  shows "outbox_inv (snd (outbox_MarkEmitted uuid_str now u s))"
proof -
  let ?s' = "snd (outbox_MarkEmitted uuid_str now u s)"
  have k: "map entry_key (ob_entries ?s') = map entry_key (ob_entries s)"
    and c: "map (\<lambda>e. sep_free (oe_ChainID e) \<and> sep_free (oe_TxHash e)) (ob_entries ?s') =
      map (\<lambda>e. sep_free (oe_ChainID e) \<and> sep_free (oe_TxHash e)) (ob_entries s)"
    and "ob_seen ?s' = ob_seen s"
    by (simp_all add: outbox_MarkEmitted_maps entry_key_def)
  moreover have "entry_key ` set (ob_entries ?s') = entry_key ` set (ob_entries s)"
    using k by (metis list.set_map)
  moreover have "(\<lambda>e. sep_free (oe_ChainID e) \<and> sep_free (oe_TxHash e)) ` set (ob_entries ?s') =
      (\<lambda>e. sep_free (oe_ChainID e) \<and> sep_free (oe_TxHash e)) ` set (ob_entries s)"
    using c by (metis list.set_map)
  ultimately show ?thesis using assms unfolding outbox_inv_def by (metis (no_types, lifting) image_iff)
qed

lemma outbox_step_ids:
  assumes "outbox_inv s" and "op_ok p"
  shows "outbox_id ` set (ob_entries (outbox_step uuid_str s p)) = outbox_id ` set (ob_entries s) \<union> op_ids p
    \<and> (distinct (map outbox_id (ob_entries s)) \<longrightarrow>
        distinct (map outbox_id (ob_entries (outbox_step uuid_str s p))))
    \<and> outbox_inv (outbox_step uuid_str s p)"
proof (cases p)
  case (OpAppend now u e)
  with assms show ?thesis
    using mem_outbox.Append_entries [of s e uuid_str now u] mem_outbox.Append_inv [of s e uuid_str now u]
      mem_outbox.Append_distinct [of s e uuid_str now u]
    by (auto simp: mem_outbox_store_def)
next
  case (OpMark now u)
  have "map outbox_id (ob_entries (outbox_step uuid_str s p)) = map outbox_id (ob_entries s)"
    using OpMark by (simp add: outbox_MarkEmitted_maps outbox_id_def)
  with OpMark assms show ?thesis by (simp add: outbox_MarkEmitted_inv) (metis list.set_map)
qed

lemma outbox_run_ids:
  assumes "outbox_inv s" and "distinct (map outbox_id (ob_entries s))" and "list_all op_ok ps"
  shows "distinct (map outbox_id (ob_entries (run (outbox_step uuid_str) s ps))) \<and>
    outbox_id ` set (ob_entries (run (outbox_step uuid_str) s ps)) =
      outbox_id ` set (ob_entries s) \<union> (\<Union>p \<in> set ps. op_ids p)"
  using assms
proof (induction ps arbitrary: s)
  case (Cons p ps)
  then have "op_ok p" and "list_all op_ok ps" by simp_all
  with Cons show ?case using outbox_step_ids [of s p uuid_str] by (simp add: Un_assoc)
qed simp

lemma pending_loop_eq:
  "pending_loop limit es out =
     out @ take (max 1 (nat (limit - int (length out)))) (filter (\<lambda>e. oe_EmittedAt e = zero_time) es)"
proof (induction es arbitrary: out)
  case (Cons e es)
  show ?case
  proof (cases "oe_EmittedAt e = zero_time \<and> int (length out) + 1 < limit")
    case True
    let ?n = "nat (limit - int (length (out @ [e])))"
    from True have "nat (limit - int (length out)) = Suc ?n" and "0 < ?n" by auto
    then have "max 1 (nat (limit - int (length out))) = Suc (max 1 ?n)" by (simp add: max_def)
    with True Cons.IH [of "out @ [e]"] show ?thesis by (simp add: Let_def)
  next
    case False
    then have "nat (limit - int (length out)) \<le> 1" if "oe_EmittedAt e = zero_time" using that by auto
    with False Cons.IH [of out] show ?thesis by (auto simp: Let_def max_absorb1)
  qed
qed simp

section \<open>Runs of transitions\<close>

text \<open>
  The three mutators the gateway passes to \<open>Transition\<close>: none, the one that records inclusion
  (confirmation worker), the one that records finality. A run is any sequence of such calls.
\<close>

datatype mutator = MutNone | MutInclude u64 string u64 time | MutFinal u64 time

fun apply_mutator :: "mutator \<Rightarrow> confirmation \<Rightarrow> confirmation" where
  "apply_mutator MutNone r = r"
| "apply_mutator (MutInclude height hash confs now) r =
     r\<lparr>cf_BlockHeight := height, cf_BlockHash := hash, cf_Confirmations := confs, cf_ConfirmedAt := now\<rparr>"
| "apply_mutator (MutFinal confs now) r = r\<lparr>cf_Confirmations := confs, cf_FinalizedAt := now\<rparr>"

datatype transition_call = TransitionCall string string status status mutator

fun transition_step :: "mem_confirmations \<Rightarrow> transition_call \<Rightarrow> mem_confirmations" where
  "transition_step s (TransitionCall c h st to m) = snd (conf_Transition c h st to (apply_mutator m) s)"

lemma apply_mutator_simps [simp]:
  "cf_ChainID (apply_mutator m r) = cf_ChainID r" "cf_TxHash (apply_mutator m r) = cf_TxHash r"
  "cf_Status (apply_mutator m r) = cf_Status r"
  by (cases m; simp)+

lemma apply_mutator_keeps_key [simp]: "keeps_key (apply_mutator m)"
  by (simp add: keeps_key_def)

definition conf_le :: "mem_confirmations \<Rightarrow> mem_confirmations \<Rightarrow> bool" where
  "conf_le s t \<longleftrightarrow> progress_le (map_of s) (map_of t)"

lemma transition_step_cases:
  "transition_step s (TransitionCall c h st to m) = s \<or>
   (\<exists>r. map_of s (key c h) = Some r \<and> cf_Status r = st \<and> CanTransitionTo st to \<and>
     transition_step s (TransitionCall c h st to m) =
       AList.update (key c h) (apply_mutator m (r\<lparr>cf_Status := to\<rparr>)) s)"
  by (auto simp: conf_Transition_def Let_def split: option.splits)

interpretation transitions: progress_machine transition_step conf_inv conf_le
proof (unfold_locales, goal_cases)
  case (1 s e)
  obtain c h st to m where "e = TransitionCall c h st to m" by (cases e)
  moreover have "conf_inv (AList.update (key c h) (apply_mutator m (r\<lparr>cf_Status := to\<rparr>)) s)"
    if "map_of s (key c h) = Some r" for r
  proof -
    from 1 that have "key c h = key (cf_ChainID r) (cf_TxHash r)" and "sep_free (cf_ChainID r)"
      by (auto simp: conf_inv_def)
    with 1 conf_inv_update [of s "apply_mutator m (r\<lparr>cf_Status := to\<rparr>)"] show ?thesis by simp
  qed
  ultimately show ?case using 1 transition_step_cases [of s c h st to m] by auto
next
  case (2 s)
  show ?case by (simp add: conf_le_def progress_le_refl)
next
  case (3 s t u)
  then show ?case unfolding conf_le_def by (rule progress_le_trans)
next
  case (4 s e)
  obtain c h st to m where "e = TransitionCall c h st to m" by (cases e)
  then show ?case using transition_step_cases [of s c h st to m]
    by (auto simp: conf_le_def progress_le_refl intro!: progress_le_update)
qed

section \<open>What the stores guarantee\<close>

text \<open>
  Outbox deduplication, for any interleaving of appends and acknowledgements from the empty
  outbox: no two entries share chain, hash, status and height, and the events recorded are exactly
  those that were ever appended. Chain ids and hashes hold no vertical bar, the separator of the
  dedup key.
\<close>

theorem outbox_run_exactly_once:
  assumes "list_all op_ok ps"
  shows "distinct (map outbox_id (ob_entries (run (outbox_step uuid_str) NewOutboxStore ps))) \<and>
    outbox_id ` set (ob_entries (run (outbox_step uuid_str) NewOutboxStore ps)) = (\<Union>p \<in> set ps. op_ids p)"
proof -
  have "ob_entries NewOutboxStore = []" by (simp add: NewOutboxStore_def)
  then show ?thesis using outbox_run_ids [OF outbox_inv_New _ assms] by simp
qed

definition sample_entry :: "u64 \<Rightarrow> outbox_entry" where
  "sample_entry bh = \<lparr>oe_ID = 0, oe_ChainID = ''ethereum'', oe_TxHash = ''0xab'', oe_Status = StatusConfirmed,
     oe_BlockHeight = bh, oe_EventType = ''tx.confirmed'', oe_Payload = [], oe_CreatedAt = 0, oe_EmittedAt = 0\<rparr>"

theorem outbox_run_exactly_once_witness:
  "outbox_id ` set (ob_entries (run (outbox_step (\<lambda>_. [])) NewOutboxStore
      [OpAppend 5 1 (sample_entry 7), OpMark 6 1, OpAppend 8 2 (sample_entry 7), OpAppend 9 3 (sample_entry 8)]))
   = {outbox_id (sample_entry 7), outbox_id (sample_entry 8)}"
proof -
  let ?ps = "[OpAppend 5 1 (sample_entry 7), OpMark 6 1, OpAppend 8 2 (sample_entry 7), OpAppend 9 3 (sample_entry 8)]"
  have "list_all op_ok ?ps" by (simp add: sample_entry_def sep_free_def)
  from outbox_run_exactly_once [OF this] show ?thesis by auto
qed

text \<open>
  \<open>ListPending\<close> returns the oldest entries not yet emitted, in insertion order, at most
  \<open>limit\<close> of them, except that a limit below one returns one entry.
\<close>

theorem outbox_ListPending_eq:
  "outbox_ListPending limit s =
     Inr (take (max 1 (nat limit)) (filter (\<lambda>e. oe_EmittedAt e = zero_time) (ob_entries s)))"
  by (simp add: outbox_ListPending_def pending_loop_eq)

lemma transition_run_lifecycle:
  assumes "conf_inv s" and "conf_Get c h s = Inr r"
  shows "\<exists>r' path. conf_Get c h (run transition_step s es) = Inr r' \<and>
    lifecycle (cf_Status r) path (cf_Status r') \<and>
    (IsTerminal (cf_Status r) \<longrightarrow> cf_Status r' = cf_Status r)"
proof -
  from assms(2) have "map_of s (key c h) = Some r" by (simp add: conf_Get_def split: option.splits)
  then obtain r' path where "map_of (run transition_step s es) (key c h) = Some r'"
    and "lifecycle (cf_Status r) path (cf_Status r')"
    using transitions.run_le [OF assms(1), of es] progress_leD unfolding conf_le_def by meson
  then show ?thesis using lifecycle_terminal_end by (auto simp: conf_Get_def)
qed

text \<open>
  Whatever sequence of \<open>Transition\<close> calls is made, with any expected statuses, targets and the
  gateway's mutators, a row's status moves along the lifecycle only: the row is still there, the
  statuses from the old to the new one form a permitted history, and a terminal status has not
  changed.
\<close>

theorem transitions_follow_lifecycle:
  assumes "conf_inv s" and "conf_Get c h s = Inr r"
  shows "\<exists>r' path. conf_Get c h (run transition_step s es) = Inr r' \<and>
    lifecycle (cf_Status r) path (cf_Status r') \<and>
    (IsTerminal (cf_Status r) \<longrightarrow> cf_Status r' = cf_Status r)"
  using assms by (rule transition_run_lifecycle)

definition sample_row :: "status \<Rightarrow> confirmation" where
  "sample_row st = \<lparr>cf_ID = 1, cf_ChainID = ''ethereum'', cf_TxHash = ''0xab'', cf_Status = st,
     cf_BlockHeight = 7, cf_BlockHash = [], cf_Confirmations = 0, cf_FirstSeenAt = 3,
     cf_ConfirmedAt = 0, cf_FinalizedAt = 0\<rparr>"

definition sample_confs :: "status \<Rightarrow> mem_confirmations" where
  "sample_confs st = [(key ''ethereum'' ''0xab'', sample_row st)]"

lemma sample_confs_inv [simp]: "conf_inv (sample_confs st)"
  by (auto simp: sample_confs_def sample_row_def conf_inv_def wf_map_def sep_free_def)

theorem transitions_follow_lifecycle_witness:
  "\<exists>r'. conf_Get ''ethereum'' ''0xab'' (run transition_step (sample_confs StatusFinalized)
      [TransitionCall ''ethereum'' ''0xab'' StatusFinalized StatusReorgedOut MutNone]) = Inr r' \<and>
    cf_Status r' = StatusFinalized"
proof -
  have "conf_Get ''ethereum'' ''0xab'' (sample_confs StatusFinalized) = Inr (sample_row StatusFinalized)"
    by (simp add: conf_Get_def sample_confs_def)
  from transitions_follow_lifecycle [OF sample_confs_inv this,
      of "[TransitionCall ''ethereum'' ''0xab'' StatusFinalized StatusReorgedOut MutNone]"]
  show ?thesis by (auto simp: sample_row_def)
qed

text \<open>
  The listings do not depend on the order in which Go happens to iterate over the map: any
  rearrangement of the entries gives the same list, sorted by hash.
\<close>

theorem listings_order_independent:
  assumes "conf_inv s" and "mset s = mset s'"
  shows "conf_ListByStatus c st s = conf_ListByStatus c st s' \<and>
    conf_ListAboveHeight c n s = conf_ListAboveHeight c n s'"
proof -
  have "mset (filter P (map snd s)) = mset (filter P (map snd s'))" for P
    using assms(2) by (simp add: mset_filter)
  then show ?thesis unfolding conf_ListByStatus_def conf_ListAboveHeight_def
    by (auto intro!: sort_key_perm conf_inv_hashes [OF assms(1)])
qed

theorem listings_order_independent_witness:
  "conf_ListByStatus ''ethereum'' StatusConfirmed
     [(key ''e'' ''2'', (sample_row StatusConfirmed)\<lparr>cf_ChainID := ''e'', cf_TxHash := ''2''\<rparr>),
      (key ''ethereum'' ''0xab'', sample_row StatusConfirmed)] =
   conf_ListByStatus ''ethereum'' StatusConfirmed
     [(key ''ethereum'' ''0xab'', sample_row StatusConfirmed),
      (key ''e'' ''2'', (sample_row StatusConfirmed)\<lparr>cf_ChainID := ''e'', cf_TxHash := ''2''\<rparr>)]"
proof (rule conjunct1 [OF listings_order_independent])
  show "conf_inv [(key ''e'' ''2'', (sample_row StatusConfirmed)\<lparr>cf_ChainID := ''e'', cf_TxHash := ''2''\<rparr>),
      (key ''ethereum'' ''0xab'', sample_row StatusConfirmed)]"
    by (auto simp: conf_inv_def wf_map_def sample_row_def sep_free_def)
qed simp

end
