(* ===== verification/Confirmation_Pool.thy ===== *)
theory Confirmation_Pool
  imports Mem_Store Chain_Adapter
begin

text \<open>
  The confirmation workers of \<open>internal/confirmation/pool.go\<close>: the sticky assignment of a tracked
  transaction to a worker, the bounded queues a head is fanned out to, and the handler that moves a
  row from broadcast over confirmed to finalized. The handler is parametric in the confirmation
  store and the adapter's answer; its effect on a row is shown to be a function of that row alone,
  for every store that meets the contract, and the properties instantiate the in-memory store.
\<close>

section \<open>State\<close>

record tracked =
  tk_chainID :: string
  tk_txHash :: string

record job =
  jb_chainID :: string
  jb_txHash :: string
  jb_tip :: u64

record conf_event =
  ev_Type :: string
  ev_ChainID :: string
  ev_TxHash :: string
  ev_Status :: status
  ev_PrevStatus :: status
  ev_BlockHeight :: u64
  ev_Confirmations :: u64
  ev_FinalizedAt :: time

text \<open>
  The pool's own state: the number of workers, one queue per worker (a channel of 64 jobs) and the
  tracked transactions. The store and the emitter are separate arguments.
\<close>

record worker_pool =
  wp_workers :: nat
  wp_queue :: "job list list"
  wp_finality :: u64
  wp_tracked :: "(string, tracked) gomap"

definition queue_cap :: nat where
  "queue_cap = 64"

definition NewWorkerPool :: "int \<Rightarrow> 'w chain_adapter \<Rightarrow> worker_pool" where
  "NewWorkerPool n a =
     (let n = (if n \<le> 0 then 4 else n) in
      \<lparr>wp_workers = nat n, wp_queue = replicate (nat n) [], wp_finality = ad_FinalityBlocks a,
       wp_tracked = []\<rparr>)"

section \<open>Sticky assignment\<close>

text \<open>The 32-bit FNV-1a hash of the standard library, over the bytes of chain id and hash.\<close>

definition fnv32a_step :: "u32 \<Rightarrow> char \<Rightarrow> u32" where
  "fnv32a_step h c = (h XOR of_char c) * 16777619"

definition fnv32a :: "string \<Rightarrow> u32" where
  "fnv32a s = foldl fnv32a_step 2166136261 s"

definition workerIndex :: "worker_pool \<Rightarrow> string \<Rightarrow> string \<Rightarrow> nat" where
  "workerIndex p chainID txHash = unat (fnv32a (chainID @ txHash) mod of_nat (wp_workers p))"

section \<open>Tracking and fan-out\<close>

definition Track :: "string \<Rightarrow> string \<Rightarrow> worker_pool \<Rightarrow> worker_pool" where
  "Track chainID txHash p =
     (let k = key chainID txHash in
      case map_of (wp_tracked p) k of
        Some _ \<Rightarrow> p
      | None \<Rightarrow> p\<lparr>wp_tracked := AList.update k \<lparr>tk_chainID = chainID, tk_txHash = txHash\<rparr> (wp_tracked p)\<rparr>)"

definition Tracked :: "worker_pool \<Rightarrow> tracked list" where
  "Tracked p = sort_key tk_txHash (map snd (wp_tracked p))"

definition enqueue :: "u64 \<Rightarrow> worker_pool \<Rightarrow> tracked \<Rightarrow> worker_pool" where
  "enqueue tip p t =
     (let idx = workerIndex p (tk_chainID t) (tk_txHash t) in
      if length (wp_queue p ! idx) < queue_cap
      then p\<lparr>wp_queue := (wp_queue p)[idx := wp_queue p ! idx @
             [\<lparr>jb_chainID = tk_chainID t, jb_txHash = tk_txHash t, jb_tip = tip\<rparr>]]\<rparr>
      else p)"

definition pool_OnHead :: "string \<Rightarrow> u64 \<Rightarrow> worker_pool \<Rightarrow> worker_pool" where
  "pool_OnHead chainID tip p =
     foldl (enqueue tip) p (filter (\<lambda>t. tk_chainID t = chainID) (map snd (wp_tracked p)))"

text \<open>Worker \<open>i\<close> takes the next job off its queue.\<close>

definition dequeue :: "nat \<Rightarrow> worker_pool \<Rightarrow> (job \<times> worker_pool) option" where
  "dequeue i p =
     (if i < wp_workers p
      then (case wp_queue p ! i of
              [] \<Rightarrow> None
            | j # js \<Rightarrow> Some (j, p\<lparr>wp_queue := (wp_queue p)[i := js]\<rparr>))
      else None)"

section \<open>The handler\<close>

text \<open>
  \<open>process\<close> returns the events it hands to the emitter and the store after it. The handler emits
  at most one event, as its last action, and ignores the emitter's result. \<open>clk\<close> gives the
  readings of the clock: 0 the one of \<open>Upsert\<close>, 1 the mutator's, 2 the event's; \<open>u\<close> is the id
  \<open>Upsert\<close> would draw.
\<close>

definition process_include ::
  "'s confirmation_store \<Rightarrow> (nat \<Rightarrow> time) \<Rightarrow> job \<Rightarrow> confirmation \<Rightarrow> 's \<Rightarrow> conf_event list \<times> 's" where
  "process_include ops clk j c s =
     (let (res, s') = cs_Transition ops (jb_chainID j) (jb_txHash j) (cf_Status c) StatusConfirmed
        (\<lambda>upd. upd\<lparr>cf_BlockHeight := cf_BlockHeight c, cf_BlockHash := cf_BlockHash c,
                   cf_Confirmations := cf_Confirmations c, cf_ConfirmedAt := clk 1\<rparr>) s in
      case res of
        Inr (Some _) \<Rightarrow>
          ([\<lparr>ev_Type = ''tx.confirmed'', ev_ChainID = jb_chainID j, ev_TxHash = jb_txHash j,
             ev_Status = StatusConfirmed, ev_PrevStatus = cf_Status c, ev_BlockHeight = cf_BlockHeight c,
             ev_Confirmations = cf_Confirmations c, ev_FinalizedAt = zero_time\<rparr>], s')
      | _ \<Rightarrow> ([], s'))"

definition process_confs ::
  "'s confirmation_store \<Rightarrow> u64 \<Rightarrow> (nat \<Rightarrow> time) \<Rightarrow> uuid \<Rightarrow> job \<Rightarrow> confirmation \<Rightarrow> 's \<Rightarrow>
    conf_event list \<times> 's" where
  "process_confs ops finality clk u j c0 s0 =
     (let confs = jb_tip j - cf_BlockHeight c0 + 1;
          (c, s) = (if confs > cf_Confirmations c0
                    then (let c = c0\<lparr>cf_Confirmations := confs\<rparr> in (c, snd (cs_Upsert ops (clk 0) u c s0)))
                    else (c0, s0)) in
      if cf_Status c = StatusConfirmed \<and> cf_Confirmations c \<ge> finality
      then (let (res, s') = cs_Transition ops (jb_chainID j) (jb_txHash j) StatusConfirmed StatusFinalized
              (\<lambda>upd. upd\<lparr>cf_Confirmations := cf_Confirmations c, cf_FinalizedAt := clk 1\<rparr>) s in
            case res of
              Inr (Some _) \<Rightarrow>
                ([\<lparr>ev_Type = ''tx.finalized'', ev_ChainID = jb_chainID j, ev_TxHash = jb_txHash j,
                   ev_Status = StatusFinalized, ev_PrevStatus = StatusConfirmed,
                   ev_BlockHeight = cf_BlockHeight c, ev_Confirmations = cf_Confirmations c,
                   ev_FinalizedAt = clk 2\<rparr>], s')
            | _ \<Rightarrow> ([], s'))
      else ([], s))"

text \<open>What the handler does with the row it has read.\<close>

definition process_row ::
  "'s confirmation_store \<Rightarrow> (string \<Rightarrow> tx_status option result) \<Rightarrow> u64 \<Rightarrow> (nat \<Rightarrow> time) \<Rightarrow> uuid \<Rightarrow> job \<Rightarrow>
    confirmation \<Rightarrow> 's \<Rightarrow> conf_event list \<times> 's" where
  "process_row ops getTxStatus finality clk u j c s =
     (if IsTerminal (cf_Status c) then ([], s)
      else if cf_BlockHeight c = 0 then
        (case getTxStatus (jb_txHash j) of
           Inl _ \<Rightarrow> ([], s)
         | Inr None \<Rightarrow> ([], s)
         | Inr (Some status) \<Rightarrow>
             if ts_BlockHeight status = 0 then ([], s)
             else (let c = c\<lparr>cf_BlockHeight := ts_BlockHeight status, cf_BlockHash := ts_BlockHash status,
                             cf_Confirmations := 1\<rparr> in
                   if cf_Status c = StatusMempool \<or> cf_Status c = StatusBroadcast
                   then process_include ops clk j c s
                   else process_confs ops finality clk u j c s))
      else process_confs ops finality clk u j c s)"

definition process ::
  "'s confirmation_store \<Rightarrow> (string \<Rightarrow> tx_status option result) \<Rightarrow> u64 \<Rightarrow> (nat \<Rightarrow> time) \<Rightarrow> uuid \<Rightarrow> job \<Rightarrow>
    's \<Rightarrow> conf_event list \<times> 's" where
  "process ops getTxStatus finality clk u j s =
     (case cs_Get ops (jb_chainID j) (jb_txHash j) s of
        Inl _ \<Rightarrow> ([], s)
      | Inr c \<Rightarrow> process_row ops getTxStatus finality clk u j c s)"

text \<open>An emitter may be absent; its result is ignored.\<close>

definition emit :: "(conf_event \<Rightarrow> 'b \<Rightarrow> unit result \<times> 'b) option \<Rightarrow> 'b \<Rightarrow> conf_event \<Rightarrow> 'b" where
  "emit emitter b e = (case emitter of None \<Rightarrow> b | Some em \<Rightarrow> snd (em e b))"

text \<open>
  The two halves of \<open>process_confs\<close>, each with one write to the store: other goroutines may run in
  between.
\<close>

definition process_count ::
  "'s confirmation_store \<Rightarrow> (nat \<Rightarrow> time) \<Rightarrow> uuid \<Rightarrow> job \<Rightarrow> confirmation \<Rightarrow> 's \<Rightarrow> confirmation \<times> 's" where
  "process_count ops clk u j c s =
     (let confs = jb_tip j - cf_BlockHeight c + 1 in
      if confs > cf_Confirmations c
      then (let c = c\<lparr>cf_Confirmations := confs\<rparr> in (c, snd (cs_Upsert ops (clk 0) u c s)))
      else (c, s))"

definition process_final ::
  "'s confirmation_store \<Rightarrow> u64 \<Rightarrow> (nat \<Rightarrow> time) \<Rightarrow> job \<Rightarrow> confirmation \<Rightarrow> 's \<Rightarrow> conf_event list \<times> 's" where
  "process_final ops finality clk j c s =
     (if cf_Status c = StatusConfirmed \<and> cf_Confirmations c \<ge> finality
      then (let (res, s') = cs_Transition ops (jb_chainID j) (jb_txHash j) StatusConfirmed StatusFinalized
              (\<lambda>upd. upd\<lparr>cf_Confirmations := cf_Confirmations c, cf_FinalizedAt := clk 1\<rparr>) s in
            case res of
              Inr (Some _) \<Rightarrow>
                ([\<lparr>ev_Type = ''tx.finalized'', ev_ChainID = jb_chainID j, ev_TxHash = jb_txHash j,
                   ev_Status = StatusFinalized, ev_PrevStatus = StatusConfirmed,
                   ev_BlockHeight = cf_BlockHeight c, ev_Confirmations = cf_Confirmations c,
                   ev_FinalizedAt = clk 2\<rparr>], s')
            | _ \<Rightarrow> ([], s'))
      else ([], s))"

lemma process_confs_halves:
  "process_confs ops finality clk u j c s =
     (let (c', s') = process_count ops clk u j c s in process_final ops finality clk j c' s')"
  by (simp add: process_confs_def process_count_def process_final_def Let_def)

section \<open>What the handler promises\<close>

text \<open>
  The specification: the handler acts on the one row its job names, as a function of that row, the
  node's answer and the job's tip. \<open>included\<close> is the block the node reports, if any;
  \<open>spec_confs\<close> takes the stored row and the handler's local copy of it, which differ when
  inclusion was only just learned.
\<close>

definition included :: "tx_status option result \<Rightarrow> (u64 \<times> string) option" where
  "included ans =
     (case ans of
        Inr (Some st) \<Rightarrow> if ts_BlockHeight st = 0 then None else Some (ts_BlockHeight st, ts_BlockHash st)
      | _ \<Rightarrow> None)"

definition spec_confs ::
  "u64 \<Rightarrow> (nat \<Rightarrow> time) \<Rightarrow> u64 \<Rightarrow> confirmation \<Rightarrow> confirmation \<Rightarrow> conf_event list \<times> confirmation" where
  "spec_confs finality clk tip r c =
     (let n = tip - cf_BlockHeight c + 1;
          k = max (cf_Confirmations c) n;
          r' = (if n > cf_Confirmations c then c\<lparr>cf_Confirmations := n\<rparr> else r)
      in if cf_Status c = StatusConfirmed \<and> k \<ge> finality
         then ([\<lparr>ev_Type = ''tx.finalized'', ev_ChainID = cf_ChainID c, ev_TxHash = cf_TxHash c,
                 ev_Status = StatusFinalized, ev_PrevStatus = StatusConfirmed,
                 ev_BlockHeight = cf_BlockHeight c, ev_Confirmations = k, ev_FinalizedAt = clk 2\<rparr>],
               r'\<lparr>cf_Status := StatusFinalized, cf_Confirmations := k, cf_FinalizedAt := clk 1\<rparr>)
         else ([], r'))"

definition spec_row ::
  "u64 \<Rightarrow> tx_status option result \<Rightarrow> (nat \<Rightarrow> time) \<Rightarrow> u64 \<Rightarrow> confirmation \<Rightarrow> conf_event list \<times> confirmation" where
  "spec_row finality ans clk tip r =
     (if IsTerminal (cf_Status r) then ([], r)
      else if cf_BlockHeight r \<noteq> 0 then spec_confs finality clk tip r r
      else (case included ans of
              None \<Rightarrow> ([], r)
            | Some (h, b) \<Rightarrow>
                let c = r\<lparr>cf_BlockHeight := h, cf_BlockHash := b, cf_Confirmations := 1\<rparr> in
                if cf_Status r = StatusMempool \<or> cf_Status r = StatusBroadcast
                then ([\<lparr>ev_Type = ''tx.confirmed'', ev_ChainID = cf_ChainID r, ev_TxHash = cf_TxHash r,
                        ev_Status = StatusConfirmed, ev_PrevStatus = cf_Status r, ev_BlockHeight = h,
                        ev_Confirmations = 1, ev_FinalizedAt = zero_time\<rparr>],
                      r\<lparr>cf_Status := StatusConfirmed, cf_BlockHeight := h, cf_BlockHash := b,
                        cf_Confirmations := 1, cf_ConfirmedAt := clk 1\<rparr>)
                else spec_confs finality clk tip r c))"

lemma same_progress_refl [simp, intro]: "same_progress r r"
  by (simp add: same_progress_def)

lemma same_progress_trans: "same_progress r q \<Longrightarrow> same_progress q p \<Longrightarrow> same_progress r p"
  by (simp add: same_progress_def)

definition same_outcome :: "conf_event list \<times> confirmation \<Rightarrow> conf_event list \<times> confirmation \<Rightarrow> bool" where
  "same_outcome a b \<longleftrightarrow> fst a = fst b \<and> same_progress (snd a) (snd b)"

lemma spec_confs_cong:
  assumes "same_progress r q" and "same_progress c d"
  shows "same_outcome (spec_confs fin clk tip r c) (spec_confs fin clk tip q d)"
  using assms by (auto simp: spec_confs_def same_progress_def same_outcome_def Let_def)

lemma spec_row_cong:
  assumes "same_progress r q"
  shows "same_outcome (spec_row fin ans clk tip r) (spec_row fin ans clk tip q)"
proof -
  note eqs = assms [unfolded same_progress_def]
  have "same_outcome (spec_confs fin clk tip r (r\<lparr>cf_BlockHeight := h, cf_BlockHash := b, cf_Confirmations := 1\<rparr>))
      (spec_confs fin clk tip q (q\<lparr>cf_BlockHeight := h, cf_BlockHash := b, cf_Confirmations := 1\<rparr>))" for h b
    by (rule spec_confs_cong [OF assms]) (use eqs in \<open>simp add: same_progress_def\<close>)
  then show ?thesis using eqs spec_confs_cong [OF assms assms, of fin clk tip] assms
    by (auto simp: spec_row_def Let_def same_outcome_def same_progress_def split: option.splits)
qed

lemma spec_confs_key:
  assumes "e \<in> set (fst (spec_confs fin clk tip r c))"
  shows "ev_ChainID e = cf_ChainID c \<and> ev_TxHash e = cf_TxHash c"
  using assms by (auto simp: spec_confs_def Let_def split: if_splits)

lemma spec_row_key:
  assumes "e \<in> set (fst (spec_row fin ans clk tip r))"
  shows "ev_ChainID e = cf_ChainID r \<and> ev_TxHash e = cf_TxHash r"
  using assms by (auto simp: spec_row_def Let_def split: if_splits option.splits dest!: spec_confs_key)

text \<open>
  A sequence of jobs as the workers handle them, each with the answer the node gives at that moment,
  the clock readings and the id. The specification of the sequence for one transaction looks at its
  own rounds only.
\<close>

record round =
  rd_job :: job
  rd_answer :: "string \<Rightarrow> tx_status option result"
  rd_clk :: "nat \<Rightarrow> time"
  rd_uuid :: uuid

fun process_rounds ::
  "'s confirmation_store \<Rightarrow> u64 \<Rightarrow> round list \<Rightarrow> 's \<Rightarrow> conf_event list \<times> 's" where
  "process_rounds ops fin [] s = ([], s)"
| "process_rounds ops fin (rd # rds) s =
     (let (es, s1) = process ops (rd_answer rd) fin (rd_clk rd) (rd_uuid rd) (rd_job rd) s;
          (es', s2) = process_rounds ops fin rds s1
      in (es @ es', s2))"

fun spec_rounds :: "u64 \<Rightarrow> string \<Rightarrow> string \<Rightarrow> round list \<Rightarrow> confirmation \<Rightarrow> conf_event list \<times> confirmation" where
  "spec_rounds fin c h [] r = ([], r)"
| "spec_rounds fin c h (rd # rds) r =
     (if jb_chainID (rd_job rd) = c \<and> jb_txHash (rd_job rd) = h
      then (let (es, r1) = spec_row fin (rd_answer rd h) (rd_clk rd) (jb_tip (rd_job rd)) r;
                (es', r2) = spec_rounds fin c h rds r1
            in (es @ es', r2))
      else spec_rounds fin c h rds r)"

definition rounds_ok :: "round list \<Rightarrow> bool" where
  "rounds_ok rds \<longleftrightarrow> list_all (\<lambda>rd. sep_free (jb_chainID (rd_job rd))) rds"

definition events_of :: "string \<Rightarrow> string \<Rightarrow> conf_event list \<Rightarrow> conf_event list" where
  "events_of c h es = filter (\<lambda>e. ev_ChainID e = c \<and> ev_TxHash e = h) es"

lemma events_of_append [simp]: "events_of c h (es @ fs) = events_of c h es @ events_of c h fs"
  by (simp add: events_of_def)

lemma spec_rounds_cong:
  "same_progress r q \<Longrightarrow> same_outcome (spec_rounds fin c h rds r) (spec_rounds fin c h rds q)"
proof (induction rds arbitrary: r q)
  case (Cons rd rds)
  let ?f = "\<lambda>r. spec_row fin (rd_answer rd h) (rd_clk rd) (jb_tip (rd_job rd)) r"
  have o: "fst (?f r) = fst (?f q)" "same_progress (snd (?f r)) (snd (?f q))"
    using spec_row_cong [OF Cons.prems] by (auto simp: same_outcome_def)
  show ?case
    using Cons.IH [OF o(2)] Cons.IH [OF Cons.prems] o(1)
    by (auto simp: same_outcome_def case_prod_unfold Let_def)
qed (simp add: same_outcome_def)

text \<open>
  In any store that meets the contract: a store operation on one row leaves the others alone, and
  chains of such operations compose.
\<close>

context confirmation_contract
begin

definition handled :: "string \<Rightarrow> string \<Rightarrow> 's \<Rightarrow> 's \<Rightarrow> confirmation \<Rightarrow> bool" where
  "handled c h s s' r \<longleftrightarrow> inv s' \<and> (\<exists>x. row s' c h = Some x \<and> same_progress x r) \<and>
     (\<forall>c' h'. sep_free c' \<longrightarrow> (c', h') \<noteq> (c, h) \<longrightarrow> row s' c' h' = row s c' h')"

lemma handled_same: "inv s \<Longrightarrow> row s c h = Some r \<Longrightarrow> handled c h s s r"
  by (auto simp: handled_def)

lemma handled_trans: "handled c h s s1 r1 \<Longrightarrow> handled c h s1 s2 r2 \<Longrightarrow> handled c h s s2 r2"
  by (simp add: handled_def)

lemma handled_Upsert:
  "inv s \<Longrightarrow> sep_free c \<Longrightarrow> cf_ChainID q = c \<Longrightarrow> cf_TxHash q = h \<Longrightarrow>
   handled c h s (snd (cs_Upsert ops now u q s)) q"
  by (auto simp: handled_def Upsert_inv Upsert_row stored_same)

lemma handled_Transition:
  assumes "inv s" "sep_free c" "row s c h = Some r" "keeps_key m" "CanTransitionTo (cf_Status r) to"
  shows "handled c h s (snd (cs_Transition ops c h (cf_Status r) to m s)) (m (r\<lparr>cf_Status := to\<rparr>)) \<and>
    (\<exists>q. fst (cs_Transition ops c h (cf_Status r) to m s) = Inr (Some q))"
  using assms by (auto simp: handled_def Transition_inv Transition_self Transition_other Transition_fst)

lemma process_confs_handled:
  assumes "inv s" and "sep_free (jb_chainID j)" and "row s (jb_chainID j) (jb_txHash j) = Some r"
    and "cf_ChainID c = jb_chainID j" and "cf_TxHash c = jb_txHash j" and "cf_Status c = cf_Status r"
  shows "fst (process_confs ops fin clk u j c s) = fst (spec_confs fin clk (jb_tip j) r c) \<and>
    handled (jb_chainID j) (jb_txHash j) s (snd (process_confs ops fin clk u j c s))
      (snd (spec_confs fin clk (jb_tip j) r c))"
proof -
  let ?c = "jb_chainID j" and ?h = "jb_txHash j"
  let ?n = "jb_tip j - cf_BlockHeight c + 1"
  define c1 where "c1 = (if ?n > cf_Confirmations c then c\<lparr>cf_Confirmations := ?n\<rparr> else c)"
  define r1 where "r1 = (if ?n > cf_Confirmations c then c1 else r)"
  define s1 where "s1 = (if ?n > cf_Confirmations c then snd (cs_Upsert ops (clk 0) u c1 s) else s)"
  have h1: "handled ?c ?h s s1 r1"
    using assms by (auto simp: s1_def r1_def c1_def intro: handled_Upsert handled_same)
  then obtain x where x: "row s1 ?c ?h = Some x" "same_progress x r1" and inv1: "inv s1"
    by (auto simp: handled_def)
  have st: "cf_Status x = cf_Status c" using x(2) assms(6) by (auto simp: same_progress_def r1_def c1_def)
  have k: "cf_Confirmations c1 = max (cf_Confirmations c) ?n"
    using linorder_linear by (auto simp: c1_def max_def)
  let ?m = "\<lambda>upd. upd\<lparr>cf_Confirmations := cf_Confirmations c1, cf_FinalizedAt := clk 1\<rparr>"
  have eq: "process_confs ops fin clk u j c s =
    (if cf_Status c = StatusConfirmed \<and> cf_Confirmations c1 \<ge> fin
      then (case cs_Transition ops ?c ?h StatusConfirmed StatusFinalized ?m s1 of (res, s') \<Rightarrow>
        case res of Inr (Some _) \<Rightarrow> (fst (spec_confs fin clk (jb_tip j) r c), s') | _ \<Rightarrow> ([], s'))
      else ([], s1))"
    using assms(4,5) by (auto simp: process_confs_def spec_confs_def c1_def s1_def Let_def max_def
        split: sum.split option.split prod.split)
  show ?thesis
  proof (cases "cf_Status c = StatusConfirmed \<and> cf_Confirmations c1 \<ge> fin")
    case True
    with st have "CanTransitionTo (cf_Status x) StatusFinalized" by (simp add: CanTransitionTo_def)
    from handled_Transition [OF inv1 assms(2) x(1) _ this, of ?m] True st
    obtain q where q: "fst (cs_Transition ops ?c ?h StatusConfirmed StatusFinalized ?m s1) = Inr (Some q)"
      and h2: "handled ?c ?h s1 (snd (cs_Transition ops ?c ?h StatusConfirmed StatusFinalized ?m s1))
        (?m (x\<lparr>cf_Status := StatusFinalized\<rparr>))"
      by (auto simp: keeps_key_def)
    have "same_progress (?m (x\<lparr>cf_Status := StatusFinalized\<rparr>)) (snd (spec_confs fin clk (jb_tip j) r c))"
      using x(2) True k by (auto simp: same_progress_def spec_confs_def Let_def r1_def c1_def)
    with handled_trans [OF h1 h2] q True show ?thesis
      by (auto simp: eq handled_def case_prod_unfold intro: same_progress_trans)
  next
    case False
    then have "\<not> (cf_Status c = StatusConfirmed \<and> max (cf_Confirmations c) ?n \<ge> fin)" by (simp add: k)
    then have "spec_confs fin clk (jb_tip j) r c = ([], r1)"
      by (auto simp: spec_confs_def Let_def r1_def c1_def)
    with False h1 show ?thesis by (auto simp: eq)
  qed
qed

lemma process_include_handled:
  assumes "inv s" and "sep_free (jb_chainID j)" and "row s (jb_chainID j) (jb_txHash j) = Some r"
    and "cf_Status c = cf_Status r" and "cf_Status r = StatusMempool \<or> cf_Status r = StatusBroadcast"
  shows "fst (process_include ops clk j c s) =
      [\<lparr>ev_Type = ''tx.confirmed'', ev_ChainID = jb_chainID j, ev_TxHash = jb_txHash j,
        ev_Status = StatusConfirmed, ev_PrevStatus = cf_Status r, ev_BlockHeight = cf_BlockHeight c,
        ev_Confirmations = cf_Confirmations c, ev_FinalizedAt = zero_time\<rparr>] \<and>
    handled (jb_chainID j) (jb_txHash j) s (snd (process_include ops clk j c s))
      (r\<lparr>cf_Status := StatusConfirmed, cf_BlockHeight := cf_BlockHeight c, cf_BlockHash := cf_BlockHash c,
         cf_Confirmations := cf_Confirmations c, cf_ConfirmedAt := clk 1\<rparr>)"
proof -
  let ?m = "\<lambda>upd. upd\<lparr>cf_BlockHeight := cf_BlockHeight c, cf_BlockHash := cf_BlockHash c,
    cf_Confirmations := cf_Confirmations c, cf_ConfirmedAt := clk 1\<rparr>"
  have "CanTransitionTo (cf_Status r) StatusConfirmed" using assms(5) by (auto simp: CanTransitionTo_def)
  from handled_Transition [OF assms(1-3) _ this, of ?m] assms(4) show ?thesis
    by (auto simp: process_include_def keeps_key_def case_prod_unfold Let_def)
qed

text \<open>The handler refines the specification of its row, and touches no other row.\<close>

lemma process_refines:
  assumes "inv s" and "sep_free (jb_chainID j)" and "row s (jb_chainID j) (jb_txHash j) = Some r"
  shows "fst (process ops ans fin clk u j s) = fst (spec_row fin (ans (jb_txHash j)) clk (jb_tip j) r) \<and>
    handled (jb_chainID j) (jb_txHash j) s (snd (process ops ans fin clk u j s))
      (snd (spec_row fin (ans (jb_txHash j)) clk (jb_tip j) r))"
proof -
  let ?c = "\<lambda>h b. r\<lparr>cf_BlockHeight := h, cf_BlockHash := b, cf_Confirmations := 1\<rparr>"
  have r: "cf_ChainID r = jb_chainID j" "cf_TxHash r = jb_txHash j"
    using row_key [OF assms] by simp_all
  note confs = process_confs_handled [OF assms, of r fin clk u] process_confs_handled [OF assms, of "?c h b" fin clk u for h b]
  note incl = process_include_handled [OF assms, of "?c h b" clk for h b]
  show ?thesis
    using r confs incl handled_same [OF assms(1,3)] assms(3)
    by (auto simp: process_def Get process_row_def spec_row_def included_def Let_def
        split: sum.splits option.splits)
qed

lemma process_missing:
  assumes "row s (jb_chainID j) (jb_txHash j) = None"
  shows "process ops ans fin clk u j s = ([], s)"
  using assms by (simp add: process_def Get)

lemma process_other_events:
  assumes "inv s" and "sep_free (jb_chainID j)" and "(jb_chainID j, jb_txHash j) \<noteq> (c, h)"
  shows "events_of c h (fst (process ops ans fin clk u j s)) = []"
proof (cases "row s (jb_chainID j) (jb_txHash j)")
  case None
  then show ?thesis by (simp add: process_missing events_of_def)
next
  case (Some r)
  with process_refines [OF assms(1,2) Some, of ans fin clk u] row_key [OF assms(1,2) Some] assms(3)
  show ?thesis by (auto simp: events_of_def filter_empty_conv dest: spec_row_key)
qed

lemma process_own_events:
  assumes "inv s" and "sep_free (jb_chainID j)" and "row s (jb_chainID j) (jb_txHash j) = Some r"
  shows "events_of (jb_chainID j) (jb_txHash j) (fst (process ops ans fin clk u j s)) =
    fst (spec_row fin (ans (jb_txHash j)) clk (jb_tip j) r)"
  using process_refines [OF assms, of ans fin clk u] row_key [OF assms]
  by (auto simp: events_of_def filter_id_conv dest: spec_row_key)

lemma process_inv:
  assumes "inv s" and "sep_free (jb_chainID j)"
  shows "inv (snd (process ops ans fin clk u j s))"
  using assms process_refines [OF assms] by (cases "row s (jb_chainID j) (jb_txHash j)")
    (auto simp: process_missing handled_def)

lemma process_other_row:
  assumes "inv s" and "sep_free (jb_chainID j)" and "sep_free c" and "(jb_chainID j, jb_txHash j) \<noteq> (c, h)"
  shows "row (snd (process ops ans fin clk u j s)) c h = row s c h"
  using assms process_refines [OF assms(1,2)] by (cases "row s (jb_chainID j) (jb_txHash j)")
    (auto simp: process_missing handled_def)

text \<open>The same for whole sequences of jobs, over all transactions.\<close>

lemma process_rounds_refine:
  assumes "inv s" and "sep_free c" and "row s c h = Some r" and "rounds_ok rds"
  shows "inv (snd (process_rounds ops fin rds s)) \<and>
    events_of c h (fst (process_rounds ops fin rds s)) = fst (spec_rounds fin c h rds r) \<and>
    (\<exists>x. row (snd (process_rounds ops fin rds s)) c h = Some x \<and>
       same_progress x (snd (spec_rounds fin c h rds r)))"
  using assms
proof (induction rds arbitrary: s r)
  case Nil
  then show ?case by (simp add: events_of_def)
next
  case (Cons rd rds)
  let ?j = "rd_job rd"
  let ?p = "process ops (rd_answer rd) fin (rd_clk rd) (rd_uuid rd) ?j s"
  have ok: "sep_free (jb_chainID ?j)" "rounds_ok rds" using Cons.prems by (simp_all add: rounds_ok_def)
  have inv1: "inv (snd ?p)" using Cons.prems(1) ok(1) by (rule process_inv)
  show ?case
  proof (cases "jb_chainID ?j = c \<and> jb_txHash ?j = h")
    case True
    let ?o = "spec_row fin (rd_answer rd h) (rd_clk rd) (jb_tip ?j) r"
    from True Cons.prems(3) have row: "row s (jb_chainID ?j) (jb_txHash ?j) = Some r" by simp
    from process_refines [OF Cons.prems(1) ok(1) row, of "rd_answer rd" fin "rd_clk rd" "rd_uuid rd"] True
    obtain x where x: "row (snd ?p) c h = Some x" "same_progress x (snd ?o)" by (auto simp: handled_def)
    from process_own_events [OF Cons.prems(1) ok(1) row, of "rd_answer rd" fin "rd_clk rd" "rd_uuid rd"] True
    have ev: "events_of c h (fst ?p) = fst ?o" by simp
    from Cons.IH [OF inv1 Cons.prems(2) x(1) ok(2)] spec_rounds_cong [OF x(2), of fin c h rds] ev True
    show ?thesis by (auto simp: case_prod_unfold Let_def same_outcome_def intro: same_progress_trans)
  next
    case False
    have "row (snd ?p) c h = Some r"
      using process_other_row [OF Cons.prems(1) ok(1) Cons.prems(2)] False Cons.prems(3) by simp
    from Cons.IH [OF inv1 Cons.prems(2) this ok(2)] False
      process_other_events [OF Cons.prems(1) ok(1), of c h]
    show ?thesis by (auto simp: case_prod_unfold Let_def)
  qed
qed

end

section \<open>Consequences of the specification\<close>

text \<open>
  The status moves the handler makes, and the events that go with a move. A job's own rounds are
  those that name its chain and hash.
\<close>

definition advances :: "status \<Rightarrow> status \<Rightarrow> bool" where
  "advances st st' \<longleftrightarrow> st = st' \<or>
     (st = StatusBroadcast \<or> st = StatusMempool) \<and> (st' = StatusConfirmed \<or> st' = StatusFinalized) \<or>
     st = StatusConfirmed \<and> st' = StatusFinalized"

definition status_events :: "status \<Rightarrow> status \<Rightarrow> string list" where
  "status_events st st' =
     (if st = st' then []
      else if st = StatusConfirmed then [''tx.finalized'']
      else if st' = StatusConfirmed then [''tx.confirmed'']
      else [''tx.confirmed'', ''tx.finalized''])"

definition own :: "string \<Rightarrow> string \<Rightarrow> round \<Rightarrow> bool" where
  "own c h rd \<longleftrightarrow> jb_chainID (rd_job rd) = c \<and> jb_txHash (rd_job rd) = h"

lemma spec_rounds_own:
  "spec_rounds fin c h (rd # rds) r =
     (if own c h rd
      then (fst (spec_row fin (rd_answer rd h) (rd_clk rd) (jb_tip (rd_job rd)) r) @
              fst (spec_rounds fin c h rds (snd (spec_row fin (rd_answer rd h) (rd_clk rd) (jb_tip (rd_job rd)) r))),
            snd (spec_rounds fin c h rds (snd (spec_row fin (rd_answer rd h) (rd_clk rd) (jb_tip (rd_job rd)) r))))
      else spec_rounds fin c h rds r)"
  by (simp add: own_def case_prod_unfold Let_def)

lemma advances_simps [simp]:
  "advances st st" "advances StatusBroadcast StatusConfirmed" "advances StatusMempool StatusConfirmed"
  by (simp_all add: advances_def)

lemma status_events_simps [simp]:
  "status_events st st = []" "status_events StatusBroadcast StatusConfirmed = [''tx.confirmed'']"
  "status_events StatusMempool StatusConfirmed = [''tx.confirmed'']"
  by (simp_all add: status_events_def)

lemma advances_trans: "advances a b \<Longrightarrow> advances b c \<Longrightarrow> advances a c"
  by (auto simp: advances_def)

lemma status_events_trans:
  "advances a b \<Longrightarrow> advances b c \<Longrightarrow> status_events a b @ status_events b c = status_events a c"
  by (auto simp: advances_def status_events_def)

lemma spec_confs_advances:
  assumes "cf_Status c = cf_Status r"
  shows "advances (cf_Status r) (cf_Status (snd (spec_confs fin clk tip r c))) \<and>
    map ev_Type (fst (spec_confs fin clk tip r c)) =
      status_events (cf_Status r) (cf_Status (snd (spec_confs fin clk tip r c)))"
  using assms by (auto simp: spec_confs_def Let_def advances_def status_events_def)

lemma spec_row_advances:
  "advances (cf_Status r) (cf_Status (snd (spec_row fin ans clk tip r))) \<and>
   map ev_Type (fst (spec_row fin ans clk tip r)) =
     status_events (cf_Status r) (cf_Status (snd (spec_row fin ans clk tip r)))"
proof -
  note a = spec_confs_advances [of r r fin clk tip]
    spec_confs_advances [of "r\<lparr>cf_BlockHeight := h, cf_BlockHash := b, cf_Confirmations := 1\<rparr>" r fin clk tip for h b]
  show ?thesis using a by (auto simp: spec_row_def Let_def split: option.splits)
qed

lemma spec_row_grows:
  assumes "cf_BlockHeight r \<noteq> 0"
  shows "cf_BlockHeight (snd (spec_row fin ans clk tip r)) = cf_BlockHeight r \<and>
    cf_Confirmations r \<le> cf_Confirmations (snd (spec_row fin ans clk tip r))"
  using assms by (auto simp: spec_row_def spec_confs_def Let_def)

lemma spec_rounds_advances:
  "advances (cf_Status r) (cf_Status (snd (spec_rounds fin c h rds r))) \<and>
   map ev_Type (fst (spec_rounds fin c h rds r)) =
     status_events (cf_Status r) (cf_Status (snd (spec_rounds fin c h rds r)))"
proof (induction rds arbitrary: r)
  case Nil
  then show ?case by (simp add: advances_def status_events_def)
next
  case (Cons rd rds)
  let ?r1 = "snd (spec_row fin (rd_answer rd h) (rd_clk rd) (jb_tip (rd_job rd)) r)"
  show ?case
    using Cons.IH [of r] Cons.IH [of ?r1] spec_row_advances [of r fin "rd_answer rd h" "rd_clk rd" "jb_tip (rd_job rd)"]
    by (auto simp: spec_rounds_own status_events_trans simp del: spec_rounds.simps intro: advances_trans)
qed

lemma spec_rounds_grows:
  assumes "cf_BlockHeight r \<noteq> 0"
  shows "cf_BlockHeight (snd (spec_rounds fin c h rds r)) = cf_BlockHeight r \<and>
    cf_Confirmations r \<le> cf_Confirmations (snd (spec_rounds fin c h rds r))"
  using assms
proof (induction rds arbitrary: r)
  case (Cons rd rds)
  let ?r1 = "snd (spec_row fin (rd_answer rd h) (rd_clk rd) (jb_tip (rd_job rd)) r)"
  show ?case
    using Cons.IH [of r] Cons.IH [of ?r1] Cons.prems
      spec_row_grows [OF Cons.prems, of fin "rd_answer rd h" "rd_clk rd" "jb_tip (rd_job rd)"]
    by (auto simp: spec_rounds_own simp del: spec_rounds.simps)
qed simp

lemma spec_confs_shape:
  "e \<in> set (fst (spec_confs fin clk tip r c)) \<Longrightarrow> ev_Type e = ''tx.finalized'' \<and> ev_Status e = StatusFinalized"
  by (auto simp: spec_confs_def Let_def split: if_splits)

lemma spec_rounds_shape:
  assumes "e \<in> set (fst (spec_rounds fin c h rds r))"
  shows "ev_Type e = ''tx.confirmed'' \<and> ev_Status e = StatusConfirmed \<or>
    ev_Type e = ''tx.finalized'' \<and> ev_Status e = StatusFinalized"
  using assms
proof (induction rds arbitrary: r)
  case (Cons rd rds)
  have "ev_Type e = ''tx.confirmed'' \<and> ev_Status e = StatusConfirmed \<or>
      ev_Type e = ''tx.finalized'' \<and> ev_Status e = StatusFinalized"
    if "e \<in> set (fst (spec_row fin ans clk tip r))" for ans clk tip
    using that by (auto simp: spec_row_def Let_def split: if_splits option.splits dest!: spec_confs_shape)
  with Cons show ?case by (auto simp: spec_rounds_own simp del: spec_rounds.simps split: if_splits)
qed simp

lemma spec_rounds_terminal: "IsTerminal (cf_Status r) \<Longrightarrow> snd (spec_rounds fin c h rds r) = r"
  by (induction rds) (auto simp: spec_rounds_own spec_row_def simp del: spec_rounds.simps(2))

text \<open>The handler finalizes a confirmed row exactly at the round that shows enough confirmations.\<close>

definition deep_enough :: "u64 \<Rightarrow> confirmation \<Rightarrow> round \<Rightarrow> bool" where
  "deep_enough fin r rd \<longleftrightarrow>
     unat (cf_BlockHeight r) + unat fin \<le> unat (jb_tip (rd_job rd)) + 1 \<or> fin \<le> cf_Confirmations r"

lemma spec_rounds_finalized_iff:
  assumes "cf_Status r = StatusConfirmed" and "cf_BlockHeight r \<noteq> 0"
    and "\<forall>rd \<in> set rds. own c h rd \<longrightarrow> cf_BlockHeight r \<le> jb_tip (rd_job rd)"
  shows "cf_Status (snd (spec_rounds fin c h rds r)) = StatusFinalized \<longleftrightarrow>
    (\<exists>rd \<in> set rds. own c h rd \<and> deep_enough fin r rd)"
  using assms
proof (induction rds arbitrary: r)
  case (Cons rd rds)
  let ?tip = "jb_tip (rd_job rd)"
  let ?r1 = "snd (spec_row fin (rd_answer rd h) (rd_clk rd) ?tip r)"
  let ?n = "?tip - cf_BlockHeight r + 1"
  show ?case
  proof (cases "own c h rd")
    case False
    with Cons show ?thesis by (simp add: spec_rounds_own del: spec_rounds.simps)
  next
    case True
    then have le: "cf_BlockHeight r \<le> ?tip" using Cons.prems(3) by simp
    have deep: "deep_enough fin r rd \<longleftrightarrow> fin \<le> max (cf_Confirmations r) ?n"
      using unat_confs [OF Cons.prems(2) le] le
      unfolding deep_enough_def le_max_iff_disj unfolding word_le_nat_alt by auto
    show ?thesis
    proof (cases "deep_enough fin r rd")
      case deep': True
      then have "cf_Status ?r1 = StatusFinalized"
        using Cons.prems(1,2) deep by (simp add: spec_row_def spec_confs_def Let_def)
      with True deep' show ?thesis
        using spec_rounds_terminal [of ?r1] by (auto simp: spec_rounds_own simp del: spec_rounds.simps)
    next
      case shallow: False
      then have r1: "cf_Status ?r1 = StatusConfirmed" "cf_BlockHeight ?r1 = cf_BlockHeight r"
        "\<not> fin \<le> cf_Confirmations ?r1"
        using Cons.prems(1,2) deep by (auto simp: spec_row_def spec_confs_def Let_def le_max_iff_disj)
      then have "deep_enough fin ?r1 x \<longleftrightarrow> deep_enough fin r x" for x
        using shallow by (auto simp: deep_enough_def)
      with r1 Cons.IH [of ?r1] Cons.prems True shallow show ?thesis
        by (auto simp: spec_rounds_own simp del: spec_rounds.simps)
    qed
  qed
qed simp

text \<open>A row that has a height but is neither confirmed nor terminal is never moved again.\<close>

lemma spec_rounds_stuck:
  assumes "cf_BlockHeight r \<noteq> 0" and "cf_Status r \<noteq> StatusConfirmed"
  shows "cf_Status (snd (spec_rounds fin c h rds r)) = cf_Status r \<and> fst (spec_rounds fin c h rds r) = []"
  using assms
proof (induction rds arbitrary: r)
  case (Cons rd rds)
  let ?o = "spec_row fin (rd_answer rd h) (rd_clk rd) (jb_tip (rd_job rd)) r"
  have "cf_BlockHeight (snd ?o) \<noteq> 0" "cf_Status (snd ?o) = cf_Status r" "fst ?o = []"
    using Cons.prems by (auto simp: spec_row_def spec_confs_def Let_def)
  with Cons show ?case by (simp add: spec_rounds_own del: spec_rounds.simps)
qed simp

text \<open>A row the node reports included is confirmed by the round that asks.\<close>

lemma spec_row_include:
  assumes "cf_Status r = StatusBroadcast \<or> cf_Status r = StatusMempool" and "cf_BlockHeight r = 0"
    and "included ans = Some (b, bh)"
  shows "cf_Status (snd (spec_row fin ans clk tip r)) = StatusConfirmed \<and>
    cf_BlockHeight (snd (spec_row fin ans clk tip r)) = b \<and>
    cf_Confirmations (snd (spec_row fin ans clk tip r)) = 1"
  using assms by (auto simp: spec_row_def Let_def)

lemma included_height: "included ans = Some (b, bh) \<Longrightarrow> b \<noteq> 0"
  by (auto simp: included_def split: sum.splits option.splits if_splits)

section \<open>Sample inputs\<close>

definition sample_status :: tx_status where
  "sample_status = \<lparr>ts_ChainID = ''ethereum'', ts_TxHash = ''0xab'', ts_Status = StatusConfirmed,
     ts_Confirmations = 1, ts_BlockHeight = 100, ts_BlockHash = ''0xbb'', ts_FinalizedAt = 0\<rparr>"

definition sample_round :: "u64 \<Rightarrow> round" where
  "sample_round tip = \<lparr>rd_job = \<lparr>jb_chainID = ''ethereum'', jb_txHash = ''0xab'', jb_tip = tip\<rparr>,
     rd_answer = (\<lambda>_. Inr (Some sample_status)), rd_clk = (\<lambda>_. 5), rd_uuid = 9\<rparr>"

definition sample_pending :: mem_confirmations where
  "sample_pending = [(key ''ethereum'' ''0xab'', (sample_row StatusMempool)\<lparr>cf_BlockHeight := 0\<rparr>)]"

lemma sample_pending_inv [simp]: "conf_inv sample_pending"
  by (auto simp: sample_pending_def sample_row_def conf_inv_def wf_map_def sep_free_def)

lemma sample_facts [simp]:
  "sep_free ''ethereum''" "rounds_ok (map sample_round tips)" "own ''ethereum'' ''0xab'' (sample_round tip)"
  "jb_tip (rd_job (sample_round tip)) = tip"
  "conf_Get ''ethereum'' ''0xab'' (sample_confs st) = Inr (sample_row st)"
  "conf_Get ''ethereum'' ''0xab'' sample_pending = Inr ((sample_row StatusMempool)\<lparr>cf_BlockHeight := 0\<rparr>)"
  "cf_Status (sample_row st) = st" "cf_BlockHeight (sample_row st) = 7" "cf_Confirmations (sample_row st) = 0"
  "included (rd_answer (sample_round tip) ''0xab'') = Some (100, ''0xbb'')"
  by (simp_all add: sep_free_def rounds_ok_def list_all_iff own_def sample_round_def conf_Get_def
      sample_confs_def sample_pending_def sample_row_def included_def sample_status_def)

section \<open>Properties of the handler on the in-memory store\<close>

abbreviation "mem_rounds \<equiv> process_rounds mem_confirmation_store"

lemma mem_rounds_refine:
  assumes "conf_inv s" and "sep_free c" and "conf_Get c h s = Inr r" and "rounds_ok rds"
  shows "\<exists>r'. conf_Get c h (snd (mem_rounds fin rds s)) = Inr r' \<and>
    same_progress r' (snd (spec_rounds fin c h rds r)) \<and>
    events_of c h (fst (mem_rounds fin rds s)) = fst (spec_rounds fin c h rds r)"
proof -
  from assms(3) have "conf_row s c h = Some r"
    by (simp add: conf_Get_def conf_row_def split: option.splits)
  from mem_confirmation.process_rounds_refine [OF assms(1,2) this assms(4), of fin]
  show ?thesis by (auto simp: conf_Get_def conf_row_def)
qed

text \<open>
  C1. The confirmation workers, for every sequence of jobs over any transactions, any answers of the
  node and any tips: a row's status only moves from broadcast or mempool to confirmed and on to
  finalized, and the events emitted for it are exactly those of the moves made, each once and in
  order. A known block height never changes and the confirmation count never falls.
\<close>

theorem workers_events_reflect_status:
  assumes "conf_inv s" and "sep_free c" and "conf_Get c h s = Inr r" and "rounds_ok rds"
  shows "\<exists>r'. conf_Get c h (snd (mem_rounds fin rds s)) = Inr r' \<and>
    advances (cf_Status r) (cf_Status r') \<and>
    map ev_Type (events_of c h (fst (mem_rounds fin rds s))) = status_events (cf_Status r) (cf_Status r') \<and>
    (cf_BlockHeight r \<noteq> 0 \<longrightarrow>
       cf_BlockHeight r' = cf_BlockHeight r \<and> cf_Confirmations r \<le> cf_Confirmations r')"
  using mem_rounds_refine [OF assms, of fin] spec_rounds_advances [of r fin c h rds]
    spec_rounds_grows [of r fin c h rds]
  by (auto simp: same_progress_def)

theorem workers_events_reflect_status_witness:
  "\<exists>r'. conf_Get ''ethereum'' ''0xab'' (snd (mem_rounds 3 (map sample_round [100, 101]) (sample_confs StatusDropped))) = Inr r' \<and>
    advances StatusDropped (cf_Status r') \<and> cf_BlockHeight r' = 7"
  using workers_events_reflect_status
    [of "sample_confs StatusDropped" "''ethereum''" "''0xab''" "sample_row StatusDropped" "map sample_round [100, 101]" 3]
  by (auto simp del: list.map process_rounds.simps)

text \<open>
  C22. When a confirmed row is finalized: with no head below the row's block, a sequence of jobs
  leaves the row finalized if and only if one of its jobs shows a tip at least \<open>finality - 1\<close> blocks
  above the block, or the row already counted enough confirmations and is looked at once more. So the depth below the tip alone
  decides: the chain's finality gadget is never asked, although \<open>README.md\<close> (reorg policy, 5), \<open>PROJECT_PLAN.md\<close> (stage 6) and the comment
  on \<open>StatusFinalized\<close> demand that it agrees.
\<close>

theorem finalized_iff_deep_enough:
  assumes "conf_inv s" and "sep_free c" and "conf_Get c h s = Inr r" and "rounds_ok rds"
    and "cf_Status r = StatusConfirmed" and "cf_BlockHeight r \<noteq> 0"
    and "\<forall>rd \<in> set rds. own c h rd \<longrightarrow> cf_BlockHeight r \<le> jb_tip (rd_job rd)"
  shows "\<exists>r'. conf_Get c h (snd (mem_rounds fin rds s)) = Inr r' \<and>
    (cf_Status r' = StatusFinalized \<longleftrightarrow> (\<exists>rd \<in> set rds. own c h rd \<and> deep_enough fin r rd))"
  using mem_rounds_refine [OF assms(1-4), of fin] spec_rounds_finalized_iff [OF assms(5-7), of fin]
  by (auto simp: same_progress_def)

theorem finalized_iff_deep_enough_witness:
  "\<exists>r'. conf_Get ''ethereum'' ''0xab'' (snd (mem_rounds 3 (map sample_round [8, 9]) (sample_confs StatusConfirmed))) = Inr r' \<and>
    cf_Status r' = StatusFinalized"
proof -
  have "\<forall>rd \<in> set (map sample_round [8, 9]). own ''ethereum'' ''0xab'' rd \<longrightarrow>
      cf_BlockHeight (sample_row StatusConfirmed) \<le> jb_tip (rd_job rd)" by simp
  from finalized_iff_deep_enough [OF sample_confs_inv sample_facts(1) sample_facts(5) sample_facts(2) _ _ this, of 3]
  show ?thesis by (auto simp: deep_enough_def simp del: process_rounds.simps)
qed

lemma included_finalizes:
  assumes "cf_Status r = StatusBroadcast \<or> cf_Status r = StatusMempool" and "cf_BlockHeight r = 0"
    and "own c h rd" and "included (rd_answer rd h) = Some (b, bh)"
    and "\<forall>rd \<in> set rds. own c h rd \<longrightarrow> b \<le> jb_tip (rd_job rd)"
    and "\<exists>rd \<in> set rds. own c h rd \<and> unat b + unat fin \<le> unat (jb_tip (rd_job rd)) + 1"
  shows "cf_Status (snd (spec_rounds fin c h (rd # rds) r)) = StatusFinalized \<and>
    cf_BlockHeight (snd (spec_rounds fin c h (rd # rds) r)) = b"
proof -
  let ?r1 = "snd (spec_row fin (rd_answer rd h) (rd_clk rd) (jb_tip (rd_job rd)) r)"
  let ?o = "spec_rounds fin c h (rd # rds) r"
  have b: "b \<noteq> 0" using assms(4) by (rule included_height)
  have r1: "cf_Status ?r1 = StatusConfirmed" "cf_BlockHeight ?r1 = b"
    using spec_row_include [OF assms(1,2,4)] by simp_all
  have o: "snd ?o = snd (spec_rounds fin c h rds ?r1)"
    using assms(3) by (simp add: spec_rounds_own del: spec_rounds.simps)
  have "cf_Status (snd ?o) = StatusFinalized"
    unfolding o by (subst spec_rounds_finalized_iff) (use r1 b assms(5,6) in \<open>auto simp: deep_enough_def\<close>)
  moreover have "cf_BlockHeight (snd ?o) = b"
    unfolding o using spec_rounds_grows [of ?r1 fin c h rds] r1 b by simp
  ultimately show ?thesis by blast
qed

text \<open>
  A transaction the node has included reaches finality: the row waits in broadcast or mempool,
  the first job learns of block \<open>b\<close>, later jobs bring heads not below \<open>b\<close>, and one of them is
  \<open>finality - 1\<close> blocks above it. Then the row is finalized, and exactly one confirmed and one
  finalized event were emitted, in this order.
\<close>

theorem included_reaches_finality:
  assumes "conf_inv s" and "sep_free c" and "conf_Get c h s = Inr r" and "rounds_ok (rd # rds)"
    and "cf_Status r = StatusBroadcast \<or> cf_Status r = StatusMempool" and "cf_BlockHeight r = 0"
    and "own c h rd" and "included (rd_answer rd h) = Some (b, bh)"
    and "\<forall>rd \<in> set rds. own c h rd \<longrightarrow> b \<le> jb_tip (rd_job rd)"
    and "\<exists>rd \<in> set rds. own c h rd \<and> unat b + unat fin \<le> unat (jb_tip (rd_job rd)) + 1"
  shows "\<exists>r'. conf_Get c h (snd (mem_rounds fin (rd # rds) s)) = Inr r' \<and>
    cf_Status r' = StatusFinalized \<and> cf_BlockHeight r' = b \<and>
    map ev_Type (events_of c h (fst (mem_rounds fin (rd # rds) s))) = [''tx.confirmed'', ''tx.finalized'']"
proof -
  let ?o = "spec_rounds fin c h (rd # rds) r"
  have fin: "cf_Status (snd ?o) = StatusFinalized \<and> cf_BlockHeight (snd ?o) = b"
    using included_finalizes [OF assms(5-10)] .
  moreover have "map ev_Type (fst ?o) = [''tx.confirmed'', ''tx.finalized'']"
    using spec_rounds_advances [of r fin c h "rd # rds"] fin assms(5) by (auto simp: status_events_def)
  ultimately show ?thesis
    using mem_rounds_refine [OF assms(1-4), of fin] by (auto simp: same_progress_def simp del: spec_rounds.simps)
qed

theorem included_reaches_finality_witness:
  "\<exists>r'. conf_Get ''ethereum'' ''0xab'' (snd (mem_rounds 3 (map sample_round [100, 101, 102]) sample_pending)) = Inr r' \<and>
    cf_Status r' = StatusFinalized \<and> cf_BlockHeight r' = 100"
proof -
  have ok: "rounds_ok (sample_round 100 # map sample_round [101, 102])"
    using sample_facts(2) [of "[100, 101, 102]"] by simp
  have st: "cf_Status ((sample_row StatusMempool)\<lparr>cf_BlockHeight := 0\<rparr>) = StatusBroadcast \<or>
      cf_Status ((sample_row StatusMempool)\<lparr>cf_BlockHeight := 0\<rparr>) = StatusMempool"
    and "\<forall>rd \<in> set (map sample_round [101, 102]). own ''ethereum'' ''0xab'' rd \<longrightarrow> 100 \<le> jb_tip (rd_job rd)"
    and "\<exists>rd \<in> set (map sample_round [101, 102]). own ''ethereum'' ''0xab'' rd \<and>
      unat (100 :: u64) + unat (3 :: u64) \<le> unat (jb_tip (rd_job rd)) + 1" by simp_all
  from included_reaches_finality [OF sample_pending_inv sample_facts(1,6) ok st _ sample_facts(3,10) this(2,3)]
  show ?thesis by (auto simp del: process_rounds.simps)
qed



text \<open>
  A row that has a block height but is not confirmed, such as one the reorg detector marked
  reorged out or put back to mempool, is never moved again by the workers and produces no event,
  whatever the node answers: the handler asks for inclusion only while the height is zero.
\<close>

theorem reorged_rows_stuck:
  assumes "conf_inv s" and "sep_free c" and "conf_Get c h s = Inr r" and "rounds_ok rds"
    and "cf_BlockHeight r \<noteq> 0" and "cf_Status r \<noteq> StatusConfirmed"
  shows "\<exists>r'. conf_Get c h (snd (mem_rounds fin rds s)) = Inr r' \<and> cf_Status r' = cf_Status r \<and>
    events_of c h (fst (mem_rounds fin rds s)) = []"
  using mem_rounds_refine [OF assms(1-4), of fin] spec_rounds_stuck [OF assms(5,6), of fin c h rds]
  by (auto simp: same_progress_def)

theorem reorged_rows_stuck_witness:
  "\<exists>r'. conf_Get ''ethereum'' ''0xab'' (snd (mem_rounds 3 (map sample_round [100, 200]) (sample_confs StatusReorgedOut))) = Inr r' \<and>
    cf_Status r' = StatusReorgedOut"
  using reorged_rows_stuck [of "sample_confs StatusReorgedOut" "''ethereum''" "''0xab''"
      "sample_row StatusReorgedOut" "map sample_round [100, 200]" 3]
  by (auto simp del: list.map process_rounds.simps)

text \<open>
  C40. The handler reads the row, and later writes its copy back. When the reorg detector's
  transition to reorged out falls in between, the write undoes it: the row is confirmed again, or
  finalized, although the lifecycle has no step from reorged out to finalized.
\<close>

theorem reorg_between_read_and_write_lost:
  assumes "conf_inv s" and "sep_free c" and "conf_Get c h s = Inr r" and "own c h rd"
    and "cf_Status r = StatusConfirmed" and "cf_BlockHeight r \<noteq> 0"
    and "cf_Confirmations r < jb_tip (rd_job rd) - cf_BlockHeight r + 1"
  shows "\<exists>r1 r2. conf_Get c h (snd (conf_Transition c h StatusConfirmed StatusReorgedOut id s)) = Inr r1 \<and>
    cf_Status r1 = StatusReorgedOut \<and>
    conf_Get c h (snd (process_row mem_confirmation_store (rd_answer rd) fin (rd_clk rd) (rd_uuid rd) (rd_job rd) r
      (snd (conf_Transition c h StatusConfirmed StatusReorgedOut id s)))) = Inr r2 \<and>
    cf_Status r2 = (if fin \<le> jb_tip (rd_job rd) - cf_BlockHeight r + 1 then StatusFinalized else StatusConfirmed)"
proof -
  have row: "map_of s (key c h) = Some r" using assms(3) by (simp add: conf_Get_def split: option.splits)
  then have k: "cf_ChainID r = c" "cf_TxHash r = h"
    using mem_confirmation.row_key [OF assms(1,2)] by (simp_all add: conf_row_def)
  have j: "jb_chainID (rd_job rd) = c" "jb_txHash (rd_job rd) = h" using assms(4) by (simp_all add: own_def)
  have t: "CanTransitionTo StatusConfirmed StatusReorgedOut" "CanTransitionTo StatusConfirmed StatusFinalized"
    by (simp_all add: CanTransitionTo_def)
  show ?thesis
    using row k j t assms(5-7)
    by (simp add: process_row_def process_confs_def conf_Transition_def conf_Get_def conf_Upsert_def
        mem_confirmation_store_def fill_confirmation_def Let_def)
qed

theorem reorg_between_read_and_write_lost_witness:
  "\<exists>r2. conf_Get ''ethereum'' ''0xab'' (snd (process_row mem_confirmation_store (rd_answer (sample_round 20)) 3
      (rd_clk (sample_round 20)) (rd_uuid (sample_round 20)) (rd_job (sample_round 20)) (sample_row StatusConfirmed)
      (snd (conf_Transition ''ethereum'' ''0xab'' StatusConfirmed StatusReorgedOut id (sample_confs StatusConfirmed))))) = Inr r2 \<and>
    cf_Status r2 = StatusFinalized"
proof -
  have "cf_Confirmations (sample_row StatusConfirmed) <
      jb_tip (rd_job (sample_round 20)) - cf_BlockHeight (sample_row StatusConfirmed) + 1" by simp
  from reorg_between_read_and_write_lost [OF sample_confs_inv sample_facts(1,5,3) _ _ this, of 3]
  show ?thesis by auto
qed

section \<open>The pool\<close>

text \<open>
  A run of the pool: transactions are tracked, heads arrive, workers take jobs, in any order.
\<close>

datatype pool_op = PoolTrack string string | PoolHead string u64 | PoolWork nat

fun pool_step :: "worker_pool \<Rightarrow> pool_op \<Rightarrow> worker_pool" where
  "pool_step p (PoolTrack c h) = Track c h p"
| "pool_step p (PoolHead c tip) = pool_OnHead c tip p"
| "pool_step p (PoolWork i) = (case dequeue i p of None \<Rightarrow> p | Some (j, p') \<Rightarrow> p')"

text \<open>Every queued job sits with its own worker, and no queue exceeds its channel's buffer.\<close>

definition pool_inv :: "worker_pool \<Rightarrow> bool" where
  "pool_inv p \<longleftrightarrow> 0 < wp_workers p \<and> wp_workers p < 2 ^ 32 \<and> length (wp_queue p) = wp_workers p \<and>
     (\<forall>i < wp_workers p. length (wp_queue p ! i) \<le> queue_cap \<and>
        (\<forall>j \<in> set (wp_queue p ! i). workerIndex p (jb_chainID j) (jb_txHash j) = i))"

lemma workerIndex_workers: "wp_workers p = wp_workers q \<Longrightarrow> workerIndex p = workerIndex q"
  by (intro ext) (simp add: workerIndex_def)

lemma workerIndex_less:
  assumes "0 < wp_workers p" and "wp_workers p < 2 ^ 32"
  shows "workerIndex p c h < wp_workers p"
proof -
  have "unat (of_nat (wp_workers p) :: u32) = wp_workers p"
    using assms(2) by (simp add: unat_of_nat)
  then show ?thesis using assms(1) by (simp add: workerIndex_def unat_mod_distrib)
qed

lemma enqueue_inv:
  assumes "pool_inv p"
  shows "pool_inv (enqueue tip p t)"
proof -
  have w: "workerIndex (p\<lparr>wp_queue := q\<rparr>) = workerIndex p" for q by (rule workerIndex_workers) simp
  have "workerIndex p (tk_chainID t) (tk_txHash t) < wp_workers p"
    using assms by (intro workerIndex_less) (simp_all add: pool_inv_def)
  then show ?thesis
    using assms by (auto simp: enqueue_def pool_inv_def Let_def w nth_list_update)
qed

lemma foldl_enqueue_inv: "pool_inv p \<Longrightarrow> pool_inv (foldl (enqueue tip) p ts)"
  by (induction ts arbitrary: p) (auto simp: enqueue_inv)

lemma foldl_enqueue_fields: "wp_workers (foldl (enqueue tip) p ts) = wp_workers p"
  by (induction ts arbitrary: p) (auto simp: enqueue_def Let_def)

interpretation pool: machine pool_step pool_inv
proof
  fix p e
  assume inv: "pool_inv p"
  show "pool_inv (pool_step p e)"
  proof (cases e)
    case (PoolTrack c h)
    have w: "workerIndex (p\<lparr>wp_tracked := q\<rparr>) = workerIndex p" for q by (rule workerIndex_workers) simp
    from PoolTrack inv show ?thesis by (auto simp: Track_def Let_def pool_inv_def w split: option.splits)
  next
    case (PoolHead c tip)
    with inv show ?thesis by (simp add: pool_OnHead_def foldl_enqueue_inv)
  next
    case (PoolWork i)
    have w: "workerIndex (p\<lparr>wp_queue := q\<rparr>) = workerIndex p" for q by (rule workerIndex_workers) simp
    from PoolWork inv show ?thesis
      by (auto simp: dequeue_def pool_inv_def w nth_list_update split: list.splits)
  qed
qed

lemma NewWorkerPool_inv: "n < 2 ^ 32 \<Longrightarrow> pool_inv (NewWorkerPool n a)"
  by (auto simp: NewWorkerPool_def pool_inv_def Let_def nat_less_iff)

lemma pool_step_workers: "wp_workers (pool_step p e) = wp_workers p"
  by (cases e) (auto simp: Track_def pool_OnHead_def dequeue_def Let_def foldl_enqueue_fields
      split: option.splits list.splits)

lemma pool_run_workers: "wp_workers (run pool_step p es) = wp_workers p"
  by (induction es arbitrary: p) (auto simp: pool_step_workers)

lemma pool_inv_sticky:
  assumes "pool_inv p" and "pool_inv q" and "wp_workers q = wp_workers p"
  shows "workerIndex p c h < wp_workers p \<and>
   (\<forall>i < wp_workers p. length (wp_queue q ! i) \<le> 64 \<and>
      (\<forall>j \<in> set (wp_queue q ! i). workerIndex p (jb_chainID j) (jb_txHash j) = i))"
proof -
  have "workerIndex q = workerIndex p" using assms(3) by (rule workerIndex_workers)
  with assms workerIndex_less [of p c h] show ?thesis by (simp add: pool_inv_def queue_cap_def)
qed

text \<open>
  Sticky workers: in a pool made for fewer than 2 to the 32 workers, after any run the index of
  every transaction names an existing worker, each queued job waits in the queue of its own
  worker, and no queue holds more than 64 jobs. So no transaction is ever handled by two workers.
\<close>

theorem workers_sticky:
  assumes "n < 2 ^ 32"
  shows "workerIndex (NewWorkerPool n a) c h < wp_workers (NewWorkerPool n a) \<and>
   (\<forall>i < wp_workers (NewWorkerPool n a).
      length (wp_queue (run pool_step (NewWorkerPool n a) es) ! i) \<le> 64 \<and>
      (\<forall>j \<in> set (wp_queue (run pool_step (NewWorkerPool n a) es) ! i).
         workerIndex (NewWorkerPool n a) (jb_chainID j) (jb_txHash j) = i))"
proof (rule pool_inv_sticky)
  show "pool_inv (NewWorkerPool n a)" using assms by (rule NewWorkerPool_inv)
  then show "pool_inv (run pool_step (NewWorkerPool n a) es)" by (rule pool.run_inv)
qed (rule pool_run_workers)

theorem workers_sticky_witness:
  "workerIndex (NewWorkerPool 8 (stub_ops sample_stub)) ''ethereum'' ''0xab'' < 8"
  using workers_sticky [of 8 "stub_ops sample_stub" "''ethereum''" "''0xab''"] by (simp add: NewWorkerPool_def)

end
