(* ===== verification/Pool_Lifecycle.thy ===== *)
theory Pool_Lifecycle
  imports Confirmation_Pool
begin

text \<open>
  The goroutines of the confirmation workers (\<open>worker\<close> and \<open>Stop\<close> of \<open>internal/confirmation/pool.go\<close>):
  each worker takes jobs off its queue until the queue is closed and empty, then it is counted off the wait
  group; \<open>Stop\<close> closes the queues and waits. Heads, registrations and the workers interleave as a step
  relation. A send on a closed channel and a second close panic.
\<close>

section \<open>State and operations\<close>

text \<open>
  \<open>pr_done\<close> records, per worker, the jobs it has handed to \<open>process\<close>; \<open>pr_exited\<close> which workers have
  returned.
\<close>

record pool_run =
  pr_pool :: worker_pool
  pr_closed :: bool
  pr_wg :: int
  pr_exited :: "bool list"
  pr_done :: "job list list"

definition start_pool :: "int \<Rightarrow> 'w chain_adapter \<Rightarrow> pool_run" where
  "start_pool n a =
     (let p = NewWorkerPool n a in
      \<lparr>pr_pool = p, pr_closed = False, pr_wg = int (wp_workers p), pr_exited = replicate (wp_workers p) False,
       pr_done = replicate (wp_workers p) []\<rparr>)"

text \<open>A head: \<open>None\<close> is the panic of a send on a closed queue, which a \<open>select\<close> with a default does not avoid.\<close>

definition pool_head :: "string \<Rightarrow> u64 \<Rightarrow> pool_run \<Rightarrow> pool_run option" where
  "pool_head chainID tip r =
     (if pr_closed r
      then (if list_ex (\<lambda>t. tk_chainID t = chainID) (map snd (wp_tracked (pr_pool r))) then None else Some r)
      else Some (r\<lparr>pr_pool := pool_OnHead chainID tip (pr_pool r)\<rparr>))"

text \<open>The first part of \<open>Stop\<close>: \<open>None\<close> is the panic of closing a queue twice. The second part returns when the wait group is at zero.\<close>

definition Stop_close :: "pool_run \<Rightarrow> pool_run option" where
  "Stop_close r = (if pr_closed r then None else Some (r\<lparr>pr_closed := True\<rparr>))"

definition Stop_returns :: "pool_run \<Rightarrow> bool" where
  "Stop_returns r \<longleftrightarrow> pr_closed r \<and> pr_wg r = 0"

text \<open>Worker \<open>i\<close>: the next job of its queue, or its return when the queue is closed and empty.\<close>

definition worker_takes :: "nat \<Rightarrow> pool_run \<Rightarrow> pool_run option" where
  "worker_takes i r =
     (case dequeue i (pr_pool r) of
        None \<Rightarrow> None
      | Some (j, p) \<Rightarrow> Some (r\<lparr>pr_pool := p, pr_done := (pr_done r)[i := pr_done r ! i @ [j]]\<rparr>))"

definition worker_exits :: "nat \<Rightarrow> pool_run \<Rightarrow> pool_run option" where
  "worker_exits i r =
     (if i < wp_workers (pr_pool r) \<and> \<not> pr_exited r ! i \<and> pr_closed r \<and> wp_queue (pr_pool r) ! i = []
      then Some (r\<lparr>pr_exited := (pr_exited r)[i := True], pr_wg := pr_wg r - 1\<rparr>) else None)"

datatype pool_label = PTrack string string | PHead string u64 | PTake nat | PExit nat | PStop

inductive pool_act :: "pool_run \<Rightarrow> pool_label \<Rightarrow> pool_run \<Rightarrow> bool" where
  act_track: "pool_act r (PTrack c h) (r\<lparr>pr_pool := Track c h (pr_pool r)\<rparr>)"
| act_head: "pool_head c tip r = Some r' \<Longrightarrow> pool_act r (PHead c tip) r'"
| act_take: "worker_takes i r = Some r' \<Longrightarrow> pool_act r (PTake i) r'"
| act_exit: "worker_exits i r = Some r' \<Longrightarrow> pool_act r (PExit i) r'"
| act_stop: "Stop_close r = Some r' \<Longrightarrow> pool_act r PStop r'"

section \<open>Invariant\<close>

definition workers_left :: "pool_run \<Rightarrow> nat" where
  "workers_left r = length (filter (\<lambda>b. \<not> b) (pr_exited r))"

definition pool_run_inv :: "pool_run \<Rightarrow> bool" where
  "pool_run_inv r \<longleftrightarrow>
     pool_inv (pr_pool r) \<and> length (pr_exited r) = wp_workers (pr_pool r) \<and> length (pr_done r) = wp_workers (pr_pool r) \<and>
     pr_wg r = int (workers_left r) \<and>
     (\<forall>i < wp_workers (pr_pool r). pr_exited r ! i \<longrightarrow> pr_closed r \<and> wp_queue (pr_pool r) ! i = [])"

lemma pool_Track_inv: "pool_inv p \<Longrightarrow> pool_inv (Track c h p)"
  using pool.step_inv [of p "PoolTrack c h"] by simp

lemma pool_OnHead_inv: "pool_inv p \<Longrightarrow> pool_inv (pool_OnHead c tip p)"
  using pool.step_inv [of p "PoolHead c tip"] by simp

lemma dequeue_inv: "pool_inv p \<Longrightarrow> dequeue i p = Some (j, p') \<Longrightarrow> pool_inv p'"
  using pool.step_inv [of p "PoolWork i"] by simp

lemma Track_fields [simp]: "wp_workers (Track c h p) = wp_workers p" "wp_queue (Track c h p) = wp_queue p"
  by (auto simp: Track_def Let_def split: option.splits)

lemma pool_OnHead_workers [simp]: "wp_workers (pool_OnHead c tip p) = wp_workers p"
  by (simp add: pool_OnHead_def foldl_enqueue_fields)

lemma dequeue_Some:
  "dequeue i p = Some (j, p') \<longleftrightarrow>
    i < wp_workers p \<and> (\<exists>js. wp_queue p ! i = j # js \<and> p' = p\<lparr>wp_queue := (wp_queue p)[i := js]\<rparr>)"
  by (auto simp: dequeue_def split: list.splits)

lemma pool_head_Some:
  "pool_head c tip r = Some r' \<longleftrightarrow>
    (if pr_closed r then r' = r \<and> \<not> list_ex (\<lambda>t. tk_chainID t = c) (map snd (wp_tracked (pr_pool r)))
     else r' = r\<lparr>pr_pool := pool_OnHead c tip (pr_pool r)\<rparr>)"
  by (auto simp: pool_head_def)

lemma worker_takes_Some:
  "worker_takes i r = Some r' \<longleftrightarrow>
    (\<exists>j p. dequeue i (pr_pool r) = Some (j, p) \<and> r' = r\<lparr>pr_pool := p, pr_done := (pr_done r)[i := pr_done r ! i @ [j]]\<rparr>)"
  by (auto simp: worker_takes_def split: option.splits)

lemma worker_exits_Some:
  "worker_exits i r = Some r' \<longleftrightarrow>
    i < wp_workers (pr_pool r) \<and> \<not> pr_exited r ! i \<and> pr_closed r \<and> wp_queue (pr_pool r) ! i = [] \<and>
    r' = r\<lparr>pr_exited := (pr_exited r)[i := True], pr_wg := pr_wg r - 1\<rparr>"
  by (auto simp: worker_exits_def)

lemma Stop_close_Some: "Stop_close r = Some r' \<longleftrightarrow> \<not> pr_closed r \<and> r' = r\<lparr>pr_closed := True\<rparr>"
  by (auto simp: Stop_close_def)

lemmas pool_act_simps = pool_head_Some worker_takes_Some worker_exits_Some Stop_close_Some

lemma workers_left_exit:
  assumes "i < length (pr_exited r)" and "\<not> pr_exited r ! i"
  shows "Suc (workers_left (r\<lparr>pr_exited := (pr_exited r)[i := True], pr_wg := w\<rparr>)) = workers_left r"
  using assms by (simp add: workers_left_def filter_update_less)

lemma workers_left_cong [simp]:
  "workers_left (r\<lparr>pr_pool := p\<rparr>) = workers_left r" "workers_left (r\<lparr>pr_closed := b\<rparr>) = workers_left r"
  "workers_left (r\<lparr>pr_pool := p, pr_done := d\<rparr>) = workers_left r"
  by (simp_all add: workers_left_def)

lemma pool_act_inv: "pool_act r l r' \<Longrightarrow> pool_run_inv r \<Longrightarrow> pool_run_inv r'"
proof (induction rule: pool_act.induct)
  case (act_track r c h)
  then show ?case by (simp add: pool_run_inv_def pool_Track_inv)
next
  case (act_head c tip r r')
  then show ?case by (auto simp: pool_run_inv_def pool_act_simps pool_OnHead_inv split: if_splits)
next
  case (act_take i r r')
  then obtain j p where p: "dequeue i (pr_pool r) = Some (j, p)"
    and r': "r' = r\<lparr>pr_pool := p, pr_done := (pr_done r)[i := pr_done r ! i @ [j]]\<rparr>" by (auto simp: pool_act_simps)
  have "pool_inv p" using p act_take.prems by (auto simp: pool_run_inv_def dest: dequeue_inv)
  with p act_take.prems show ?case
    by (auto simp: pool_run_inv_def r' dequeue_Some nth_list_update pool_inv_def)
next
  case (act_exit i r r')
  then have r': "r' = r\<lparr>pr_exited := (pr_exited r)[i := True], pr_wg := pr_wg r - 1\<rparr>"
    and i: "i < length (pr_exited r)" "\<not> pr_exited r ! i" and q: "pr_closed r" "wp_queue (pr_pool r) ! i = []"
    by (auto simp: pool_act_simps pool_run_inv_def)
  from workers_left_exit [OF i, of "pr_wg r - 1"] i(1) q act_exit.prems show ?case
    by (auto simp: pool_run_inv_def r' nth_list_update split: if_splits)
next
  case (act_stop r r')
  then show ?case by (auto simp: pool_run_inv_def pool_act_simps)
qed

interpretation pool_run: step_system pool_act pool_run_inv
  by unfold_locales (rule pool_act_inv)

lemma start_pool_inv: "n < 2 ^ 32 \<Longrightarrow> pool_run_inv (start_pool n a)"
  using NewWorkerPool_inv [of n a] by (simp add: pool_run_inv_def start_pool_def workers_left_def Let_def)

section \<open>Stopping\<close>

text \<open>A closed pool takes no more jobs: what a worker has done and what waits for it do not change.\<close>

definition worker_jobs :: "nat \<Rightarrow> pool_run \<Rightarrow> job list" where
  "worker_jobs i r = pr_done r ! i @ wp_queue (pr_pool r) ! i"

definition drains_to :: "pool_run \<Rightarrow> pool_run \<Rightarrow> bool" where
  "drains_to r0 r \<longleftrightarrow> pool_run_inv r \<and> pr_closed r \<and> wp_workers (pr_pool r) = wp_workers (pr_pool r0) \<and>
     (\<forall>i < wp_workers (pr_pool r0). worker_jobs i r = worker_jobs i r0)"

lemma drains_to_step: "pool_act r l r' \<Longrightarrow> drains_to r0 r \<Longrightarrow> drains_to r0 r'"
proof (induction rule: pool_act.induct)
  case (act_take i r r')
  have inv: "pool_run_inv r'" using pool_act_inv [OF pool_act.act_take] act_take by (simp add: drains_to_def)
  obtain j js where q: "i < wp_workers (pr_pool r)" "wp_queue (pr_pool r) ! i = j # js"
    "r' = r\<lparr>pr_pool := (pr_pool r)\<lparr>wp_queue := (wp_queue (pr_pool r))[i := js]\<rparr>, pr_done := (pr_done r)[i := pr_done r ! i @ [j]]\<rparr>"
    using act_take.hyps by (auto simp: pool_act_simps dequeue_Some)
  have "worker_jobs k r' = worker_jobs k r" if "k < wp_workers (pr_pool r)" for k
    using that q act_take.prems by (auto simp: worker_jobs_def nth_list_update drains_to_def pool_run_inv_def pool_inv_def)
  with inv q(3) act_take.prems show ?case by (auto simp: drains_to_def)
next
  case (act_exit i r r')
  have inv: "pool_run_inv r'" using pool_act_inv [OF pool_act.act_exit] act_exit by (simp add: drains_to_def)
  with act_exit show ?case by (auto simp: drains_to_def pool_act_simps worker_jobs_def)
next
  case (act_track r c h)
  have inv: "pool_run_inv (r\<lparr>pr_pool := Track c h (pr_pool r)\<rparr>)"
    using pool_act_inv [OF pool_act.act_track] act_track by (simp add: drains_to_def)
  with act_track show ?case by (auto simp: drains_to_def worker_jobs_def)
qed (auto simp: drains_to_def pool_act_simps)

interpretation drains: step_system pool_act "drains_to r0" for r0
  by unfold_locales (rule drains_to_step)

fun drain_work :: "pool_label \<Rightarrow> bool" where
  "drain_work (PTake i) = True"
| "drain_work (PExit i) = True"
| "drain_work _ = False"

definition drain_left :: "pool_run \<Rightarrow> nat" where
  "drain_left r = sum_list (map length (wp_queue (pr_pool r))) + workers_left r"

interpretation drain_bound: bounded_system pool_act "\<lambda>r. pool_run_inv r \<and> pr_closed r" drain_work drain_left
proof
  fix r l r'
  assume a: "pool_act r l r'"
  have closed: "pr_closed r'" if "pr_closed r" using a that by cases (auto simp: pool_act_simps)
  show "pool_run_inv r \<and> pr_closed r \<Longrightarrow> pool_run_inv r' \<and> pr_closed r'" using a closed pool_act_inv by blast
  show "drain_left r' < drain_left r" if "pool_run_inv r \<and> pr_closed r" "drain_work l"
    using a that
  proof cases
    case (act_take i)
    then obtain j js where q: "i < wp_workers (pr_pool r)" "wp_queue (pr_pool r) ! i = j # js"
      "r' = r\<lparr>pr_pool := (pr_pool r)\<lparr>wp_queue := (wp_queue (pr_pool r))[i := js]\<rparr>, pr_done := (pr_done r)[i := pr_done r ! i @ [j]]\<rparr>"
      by (auto simp: pool_act_simps dequeue_Some)
    then have "sum_list (map length ((wp_queue (pr_pool r))[i := js])) < sum_list (map length (wp_queue (pr_pool r)))"
      using that(1) by (intro sum_list_update_less) (auto simp: pool_run_inv_def pool_inv_def)
    then show ?thesis by (simp add: q(3) drain_left_def)
  next
    case (act_exit i)
    then have r': "r' = r\<lparr>pr_exited := (pr_exited r)[i := True], pr_wg := pr_wg r - 1\<rparr>"
      and i: "i < length (pr_exited r)" "\<not> pr_exited r ! i" using that(1) by (auto simp: pool_act_simps pool_run_inv_def)
    from workers_left_exit [OF i, of "pr_wg r - 1"] show ?thesis by (simp add: r' drain_left_def)
  qed auto
  show "drain_left r' \<le> drain_left r" if "pool_run_inv r \<and> pr_closed r" "\<not> drain_work l"
    using a that by cases (auto simp: pool_act_simps drain_left_def)
qed

lemma worker_enabled:
  assumes "pool_run_inv r" and "pr_closed r" and "pr_wg r \<noteq> 0"
  shows "\<exists>l r'. drain_work l \<and> pool_act r l r'"
proof -
  have "filter (\<lambda>b. \<not> b) (pr_exited r) \<noteq> []" using assms by (auto simp: pool_run_inv_def workers_left_def)
  then obtain i where i: "i < wp_workers (pr_pool r)" "\<not> pr_exited r ! i"
    using assms(1) by (auto simp: pool_run_inv_def filter_empty_conv in_set_conv_nth)
  show ?thesis
  proof (cases "wp_queue (pr_pool r) ! i")
    case Nil
    with i assms(2) have "\<exists>r'. worker_exits i r = Some r'" by (simp add: worker_exits_def)
    then show ?thesis using pool_act.act_exit drain_work.simps(2) by blast
  next
    case (Cons j js)
    with i(1) have "\<exists>r'. worker_takes i r = Some r'" by (simp add: worker_takes_Some dequeue_Some)
    then show ?thesis using pool_act.act_take drain_work.simps(1) by blast
  qed
qed

lemma Stop_returns_queues:
  assumes "pool_run_inv r" and "Stop_returns r" and "i < wp_workers (pr_pool r)"
  shows "wp_queue (pr_pool r) ! i = []"
proof -
  have "length (filter (\<lambda>b. \<not> b) (pr_exited r)) = 0"
    using assms(1,2) by (simp add: pool_run_inv_def Stop_returns_def workers_left_def)
  then have "pr_exited r ! i" using assms(1,3) by (auto simp: pool_run_inv_def filter_empty_conv)
  with assms(1,3) show ?thesis by (simp add: pool_run_inv_def)
qed

text \<open>
  C13. \<open>Stop\<close> drains the pool. After it has closed the queues, in whatever order the workers go on, one of
  them can take a step until \<open>Stop\<close> returns, and together they take at most one step per queued
  job and one per worker. When \<open>Stop\<close> returns, every worker has handled the jobs that were waiting
  for it, all of them, in their order, and nothing else.
\<close>

theorem stop_drains_queues:
  assumes "n < 2 ^ 32" and "steps pool_act (start_pool n a) ls r" and "pr_closed r" and "steps pool_act r ms t"
  shows "(Stop_returns t \<or> (\<exists>l u. drain_work l \<and> pool_act t l u)) \<and>
    length (filter drain_work ms) \<le> sum_list (map length (wp_queue (pr_pool r))) + workers_left r \<and>
    (Stop_returns t \<longrightarrow> (\<forall>i < wp_workers (pr_pool r). pr_done t ! i = pr_done r ! i @ wp_queue (pr_pool r) ! i))"
proof (intro conjI impI allI)
  have r: "pool_run_inv r" using assms(2) start_pool_inv [OF assms(1)] by (rule pool_run.steps_inv)
  have "drains_to r r" using r assms(3) by (simp add: drains_to_def)
  with assms(4) have t: "drains_to r t" by (rule drains.steps_inv)
  then show "Stop_returns t \<or> (\<exists>l u. drain_work l \<and> pool_act t l u)"
    using worker_enabled [of t] by (auto simp: drains_to_def Stop_returns_def)
  show "length (filter drain_work ms) \<le> sum_list (map length (wp_queue (pr_pool r))) + workers_left r"
    using drain_bound.steps_work [OF assms(4)] r assms(3) by (simp add: drain_left_def)
  fix i assume "Stop_returns t" and i: "i < wp_workers (pr_pool r)"
  then have "wp_queue (pr_pool t) ! i = []" using t Stop_returns_queues [of t i] by (simp add: drains_to_def)
  with t i show "pr_done t ! i = pr_done r ! i @ wp_queue (pr_pool r) ! i" by (auto simp: drains_to_def worker_jobs_def)
qed

section \<open>Heads after Stop\<close>

lemma pool_OnHead_tracked [simp]: "wp_tracked (pool_OnHead c tip p) = wp_tracked p"
proof -
  have "wp_tracked (foldl (enqueue tip) p ts) = wp_tracked p" for ts
    by (induction ts arbitrary: p) (auto simp: enqueue_def Let_def)
  then show ?thesis by (simp add: pool_OnHead_def)
qed

lemma Track_keeps: "map_of (wp_tracked p) k = Some t \<Longrightarrow> map_of (wp_tracked (Track c h p)) k = Some t"
  by (auto simp: Track_def Let_def split: option.splits)

interpretation tracked: step_system pool_act "\<lambda>r. map_of (wp_tracked (pr_pool r)) k = Some t" for k t
proof
  fix r l r'
  assume "pool_act r l r'" and "map_of (wp_tracked (pr_pool r)) k = Some t"
  then show "map_of (wp_tracked (pr_pool r')) k = Some t"
    by cases (auto simp: pool_act_simps dequeue_Some Track_keeps split: if_splits)
qed

interpretation closed: step_system pool_act pr_closed
proof
  fix r l r'
  assume "pool_act r l r'" and "pr_closed r"
  then show "pr_closed r'" by cases (auto simp: pool_act_simps)
qed

inductive_cases act_stopE: "pool_act r PStop r'"

text \<open>
  A pool that is stopped while a transaction is tracked cannot be told of a head of its chain any more:
  the call panics, at any time after \<open>Stop\<close>. So whoever stops the workers has to stop the followers first.
\<close>

theorem head_after_stop_panics:
  assumes "steps pool_act r ls t" and "PStop \<in> set ls"
    and "map_of (wp_tracked (pr_pool r)) k = Some \<lparr>tk_chainID = c, tk_txHash = h\<rparr>"
  shows "pool_head c tip t = None"
proof -
  from assms(1,2) obtain u v ls2 where "pool_act u PStop v" and v: "steps pool_act v ls2 t" by (rule steps_split)
  then have "pr_closed v" by (auto simp: pool_act_simps elim: act_stopE)
  with v have "pr_closed t" by (rule closed.steps_inv)
  moreover have "map_of (wp_tracked (pr_pool t)) k = Some \<lparr>tk_chainID = c, tk_txHash = h\<rparr>"
    using assms(1,3) by (rule tracked.steps_inv)
  then have "(k, \<lparr>tk_chainID = c, tk_txHash = h\<rparr>) \<in> set (wp_tracked (pr_pool t))" by (rule map_of_SomeD)
  ultimately show ?thesis by (force simp: pool_head_def list_ex_iff)
qed

section \<open>Witnesses\<close>

text \<open>One worker, one tracked transaction, one head; the pool is stopped and drains.\<close>

definition sample_pool_run :: pool_run where
  "sample_pool_run = (start_pool 1 (stub_ops sample_stub))\<lparr>pr_pool := Track ''ethereum'' ''0x1'' (NewWorkerPool 1 (stub_ops sample_stub))\<rparr>"

lemma sample_pool_tracks: "pool_act (start_pool 1 (stub_ops sample_stub)) (PTrack ''ethereum'' ''0x1'') sample_pool_run"
  using act_track [of "start_pool 1 (stub_ops sample_stub)" "''ethereum''" "''0x1''"]
  by (simp add: sample_pool_run_def start_pool_def Let_def)

theorem stop_drains_queues_witness:
  "\<exists>r t. steps pool_act (start_pool 1 (stub_ops sample_stub)) [PTrack ''ethereum'' ''0x1'', PHead ''ethereum'' 7, PStop] r \<and>
    steps pool_act r [PTake 0, PExit 0] t \<and> pr_done t ! 0 = [\<lparr>jb_chainID = ''ethereum'', jb_txHash = ''0x1'', jb_tip = 7\<rparr>]"
proof -
  let ?j = "\<lparr>jb_chainID = ''ethereum'', jb_txHash = ''0x1'', jb_tip = 7\<rparr>"
  let ?p = "pool_OnHead ''ethereum'' 7 (pr_pool sample_pool_run)"
  let ?head = "sample_pool_run\<lparr>pr_pool := ?p\<rparr>"
  let ?closed = "?head\<lparr>pr_closed := True\<rparr>"
  let ?taken = "?closed\<lparr>pr_pool := ?p\<lparr>wp_queue := [[]]\<rparr>, pr_done := [[?j]]\<rparr>"
  let ?ended = "?taken\<lparr>pr_exited := [True], pr_wg := 0\<rparr>"
  have p: "wp_workers (pr_pool sample_pool_run) = 1" "wp_queue ?p = [[?j]]" by code_simp+
  have f: "\<not> pr_closed sample_pool_run" "pr_exited sample_pool_run = [False]" "pr_wg sample_pool_run = 1" "pr_done sample_pool_run = [[]]"
    by code_simp+
  have "pool_act sample_pool_run (PHead ''ethereum'' 7) ?head" by (rule act_head) (simp add: pool_head_Some f)
  moreover have "pool_act ?head PStop ?closed" by (rule act_stop) (simp add: Stop_close_Some f)
  ultimately have r: "steps pool_act (start_pool 1 (stub_ops sample_stub)) [PTrack ''ethereum'' ''0x1'', PHead ''ethereum'' 7, PStop] ?closed"
    using sample_pool_tracks by (blast intro: steps_Cons)
  have "pool_act ?closed (PTake 0) ?taken" by (rule act_take) (simp add: worker_takes_Some dequeue_Some p f)
  moreover have "pool_act ?taken (PExit 0) ?ended" by (rule act_exit) (simp add: worker_exits_Some p f)
  ultimately have t: "steps pool_act ?closed [PTake 0, PExit 0] ?ended" by (blast intro: steps_Cons)
  from stop_drains_queues [OF _ r _ t] have "pr_done ?ended ! 0 = [?j]" by (simp add: Stop_returns_def p f)
  with r t show ?thesis by blast
qed

theorem head_after_stop_panics_witness:
  "\<exists>r. steps pool_act sample_pool_run [PStop] r \<and> pool_head ''ethereum'' 8 r = None"
proof -
  have "pool_act sample_pool_run PStop (sample_pool_run\<lparr>pr_closed := True\<rparr>)"
    by (rule act_stop) (simp add: Stop_close_Some sample_pool_run_def start_pool_def Let_def)
  then have r: "steps pool_act sample_pool_run [PStop] (sample_pool_run\<lparr>pr_closed := True\<rparr>)" by (rule steps_single)
  have "map_of (wp_tracked (pr_pool sample_pool_run)) (key ''ethereum'' ''0x1'') = Some \<lparr>tk_chainID = ''ethereum'', tk_txHash = ''0x1''\<rparr>"
    by code_simp
  from head_after_stop_panics [OF r _ this] r show ?thesis by auto
qed

end
