(* ===== verification/Postgres_Store.thy ===== *)
theory Postgres_Store
  imports Mem_Store
begin

text \<open>
  The PostgreSQL stores of \<open>internal/store/postgres\<close>. A table is the list of its rows in the order
  of their insertion, with the constraints of \<open>migrations/001_init.sql\<close>; a statement is the function
  of the table that its SQL text says. The database is outside the gateway, so whether a statement
  fails is an argument: \<open>FailBefore\<close> leaves the table alone, \<open>FailAfter\<close> is a statement that took
  effect although the client got an error (a lost answer). Two more parameters stand for the server:
  \<open>ts\<close> rounds a time to the resolution of \<open>TIMESTAMPTZ\<close>, and \<open>arr\<close> maps the text of an array
  literal to the text the server returns for it. Columns the Go rows do not have (\<open>created_at\<close>,
  \<open>updated_at\<close>) are left out.
\<close>

section \<open>Statements\<close>

datatype pg_fault = NoFault | FailBefore error | FailAfter error

text \<open>A statement with the effect and answer \<open>r\<close> on the table \<open>t\<close>, under a fault.\<close>

definition statement :: "pg_fault \<Rightarrow> 't \<Rightarrow> 'a result \<times> 't \<Rightarrow> 'a result \<times> 't" where
  "statement f t r =
     (case f of NoFault \<Rightarrow> r | FailBefore e \<Rightarrow> (Inl e, t) | FailAfter e \<Rightarrow> (Inl e, snd r))"

definition query :: "error option \<Rightarrow> 'a result \<Rightarrow> 'a result" where
  "query f r = (case f of None \<Rightarrow> r | Some e \<Rightarrow> Inl e)"

text \<open>The driver refuses a \<open>uint64\<close> with its highest bit set, before anything is sent.\<close>

definition fits_bigint :: "u64 \<Rightarrow> bool" where
  "fits_bigint w \<longleftrightarrow> unat w < 2 ^ 63"

definition high_bit_error :: error where
  "high_bit_error = ErrMessage ''uint64 values with high bit set are not supported''"

definition duplicate_key :: error where
  "duplicate_key = ErrRemote ''duplicate key value violates unique constraint''"

definition update_rows :: "('r \<Rightarrow> bool) \<Rightarrow> ('r \<Rightarrow> 'r) \<Rightarrow> 'r list \<Rightarrow> 'r list" where
  "update_rows P f t = map (\<lambda>r. if P r then f r else r) t"

section \<open>Helpers\<close>

definition bigStr :: "int option \<Rightarrow> string" where
  "bigStr b = (case b of None \<Rightarrow> ''0'' | Some n \<Rightarrow> big_String n)"

text \<open>A \<open>TEXT[]\<close> literal, written and read without quoting.\<close>

fun pqArray_loop :: "nat \<Rightarrow> string list \<Rightarrow> string \<Rightarrow> string" where
  "pqArray_loop i [] out = out"
| "pqArray_loop i (s # ss) out = pqArray_loop (i + 1) ss ((if i > 0 then out @ '','' else out) @ s)"

definition pqArray :: "string list \<Rightarrow> string" where
  "pqArray ss = pqArray_loop 0 ss ''{'' @ ''}''"

definition trimBraces :: "string \<Rightarrow> string" where
  "trimBraces s = rev (dropWhile (\<lambda>c. c = CHR ''}'') (rev (dropWhile (\<lambda>c. c = CHR ''{'') s)))"

text \<open>The loop cuts at every comma; \<open>cur\<close> is the part since the last one.\<close>

fun parseArray_loop :: "string \<Rightarrow> string \<Rightarrow> string list \<Rightarrow> string list" where
  "parseArray_loop [] cur out = out @ [cur]"
| "parseArray_loop (c # s) cur out =
     (if c = CHR '','' then parseArray_loop s [] (out @ [cur]) else parseArray_loop s (cur @ [c]) out)"

definition parseArray :: "string \<Rightarrow> string list" where
  "parseArray s = (let s = trimBraces s in if s = [] then [] else parseArray_loop s [] [])"

definition pg_id :: "uuid \<Rightarrow> uuid \<Rightarrow> uuid" where
  "pg_id cid u = (if cid = zero_uuid then u else cid)"

section \<open>BroadcastStore\<close>

definition is_broadcast :: "string \<Rightarrow> string \<Rightarrow> broadcast_row \<Rightarrow> bool" where
  "is_broadcast c h r \<longleftrightarrow> br_ChainID r = c \<and> br_TxHash r = h"

text \<open>The text of a \<open>nil\<close> value is \<open><nil>\<close>, which is no \<open>NUMERIC\<close>.\<close>

definition pg_bcast_Insert ::
  "(time \<Rightarrow> time) \<Rightarrow> pg_fault \<Rightarrow> time \<Rightarrow> uuid \<Rightarrow> broadcast_row \<Rightarrow> broadcast_row list \<Rightarrow> unit result \<times> broadcast_row list" where
  "pg_bcast_Insert ts f now u b t =
     (if \<not> fits_bigint (br_Nonce b) then (Inl high_bit_error, t)
      else statement f t
        (case br_Value b of
           None \<Rightarrow> (Inl (ErrRemote ''invalid input syntax for type numeric''), t)
         | Some v \<Rightarrow>
             if list_ex (is_broadcast (br_ChainID b) (br_TxHash b)) t then (Inr (), t)
             else if list_ex (\<lambda>r. br_ID r = pg_id (br_ID b) u) t then (Inl duplicate_key, t)
             else (Inr (), t @ [b\<lparr>br_ID := pg_id (br_ID b) u, br_SubmittedAt := ts (br_SubmittedAt b)\<rparr>])))"

text \<open>\<open>Scan\<close> reads the value as text and \<open>SetString\<close> parses it.\<close>

definition pg_bcast_GetByTxHash :: "error option \<Rightarrow> string \<Rightarrow> string \<Rightarrow> broadcast_row list \<Rightarrow> broadcast_row result" where
  "pg_bcast_GetByTxHash f chainID txHash t =
     query f
       (case find (is_broadcast chainID txHash) t of
          None \<Rightarrow> Inl (ErrNotFound chainID txHash)
        | Some b \<Rightarrow> Inr (b\<lparr>br_Value := big_SetString (bigStr (br_Value b))\<rparr>))"

definition pg_bcast_Exists :: "error option \<Rightarrow> string \<Rightarrow> string \<Rightarrow> broadcast_row list \<Rightarrow> bool result" where
  "pg_bcast_Exists f chainID txHash t = query f (Inr (list_ex (is_broadcast chainID txHash) t))"

definition pg_broadcast_store :: "(time \<Rightarrow> time) \<Rightarrow> error option \<Rightarrow> pg_fault \<Rightarrow> broadcast_row list broadcast_store" where
  "pg_broadcast_store ts fq fx =
     \<lparr>bs_Insert = pg_bcast_Insert ts fx, bs_GetByTxHash = pg_bcast_GetByTxHash fq, bs_Exists = pg_bcast_Exists fq\<rparr>"

section \<open>ConfirmationStore\<close>

definition is_confirmation :: "string \<Rightarrow> string \<Rightarrow> confirmation \<Rightarrow> bool" where
  "is_confirmation c h r \<longleftrightarrow> cf_ChainID r = c \<and> cf_TxHash r = h"

text \<open>The columns that both \<open>ON CONFLICT DO UPDATE\<close> and \<open>UPDATE\<close> set.\<close>

definition set_progress :: "(time \<Rightarrow> time) \<Rightarrow> confirmation \<Rightarrow> confirmation \<Rightarrow> confirmation" where
  "set_progress ts c r =
     r\<lparr>cf_Status := cf_Status c, cf_BlockHeight := cf_BlockHeight c, cf_BlockHash := cf_BlockHash c,
       cf_Confirmations := cf_Confirmations c, cf_ConfirmedAt := ts (cf_ConfirmedAt c), cf_FinalizedAt := ts (cf_FinalizedAt c)\<rparr>"

text \<open>A zero first-seen time is no \<open>NULL\<close>, so \<open>COALESCE\<close> keeps it.\<close>

definition pg_conf_Upsert ::
  "(time \<Rightarrow> time) \<Rightarrow> pg_fault \<Rightarrow> time \<Rightarrow> uuid \<Rightarrow> confirmation \<Rightarrow> confirmation list \<Rightarrow> unit result \<times> confirmation list" where
  "pg_conf_Upsert ts f now u c t =
     (if \<not> (fits_bigint (cf_BlockHeight c) \<and> fits_bigint (cf_Confirmations c)) then (Inl high_bit_error, t)
      else statement f t
        (if list_ex (is_confirmation (cf_ChainID c) (cf_TxHash c)) t
         then (Inr (), update_rows (is_confirmation (cf_ChainID c) (cf_TxHash c)) (set_progress ts c) t)
         else if list_ex (\<lambda>r. cf_ID r = pg_id (cf_ID c) u) t then (Inl duplicate_key, t)
         else (Inr (), t @ [set_progress ts c (c\<lparr>cf_ID := pg_id (cf_ID c) u, cf_FirstSeenAt := ts (cf_FirstSeenAt c)\<rparr>)])))"

definition pg_conf_Get :: "error option \<Rightarrow> string \<Rightarrow> string \<Rightarrow> confirmation list \<Rightarrow> confirmation result" where
  "pg_conf_Get f chainID txHash t =
     query f
       (case find (is_confirmation chainID txHash) t of
          None \<Rightarrow> Inl (ErrNotFound chainID txHash)
        | Some c \<Rightarrow> Inr c)"

definition pg_conf_ListByStatus :: "error option \<Rightarrow> string \<Rightarrow> status \<Rightarrow> confirmation list \<Rightarrow> confirmation list result" where
  "pg_conf_ListByStatus f chainID st t = query f (Inr (filter (\<lambda>c. cf_ChainID c = chainID \<and> cf_Status c = st) t))"

definition pg_conf_ListAboveHeight :: "error option \<Rightarrow> string \<Rightarrow> u64 \<Rightarrow> confirmation list \<Rightarrow> confirmation list result" where
  "pg_conf_ListAboveHeight f chainID height t =
     (if \<not> fits_bigint height then Inl high_bit_error
      else query f (Inr (filter (\<lambda>c. cf_ChainID c = chainID \<and> cf_BlockHeight c > height) t)))"

text \<open>
  The transaction of \<open>Transition\<close>: \<open>fq\<close> is the failure of its first part (begin and select), \<open>fx\<close>
  that of its last (update and commit). A return in between rolls back.
\<close>

definition pg_conf_Transition ::
  "(time \<Rightarrow> time) \<Rightarrow> error option \<Rightarrow> pg_fault \<Rightarrow> string \<Rightarrow> string \<Rightarrow> status \<Rightarrow> status \<Rightarrow> (confirmation \<Rightarrow> confirmation) \<Rightarrow>
    confirmation list \<Rightarrow> confirmation option result \<times> confirmation list" where
  "pg_conf_Transition ts fq fx chainID txHash from to mutator t =
     (case query fq
        (case find (is_confirmation chainID txHash) t of
           None \<Rightarrow> Inl (ErrNotFound chainID txHash)
         | Some c \<Rightarrow> Inr c) of
        Inl e \<Rightarrow> (Inl e, t)
      | Inr c \<Rightarrow>
          if cf_Status c \<noteq> from then (Inr None, t)
          else if \<not> CanTransitionTo from to then (Inl (ErrInvalidTransition from to), t)
          else
            (let c = mutator (c\<lparr>cf_Status := to\<rparr>) in
             if \<not> (fits_bigint (cf_BlockHeight c) \<and> fits_bigint (cf_Confirmations c)) then (Inl high_bit_error, t)
             else statement fx t
               (Inr (Some c), update_rows (is_confirmation chainID txHash) (set_progress ts c) t)))"

definition pg_confirmation_store :: "(time \<Rightarrow> time) \<Rightarrow> error option \<Rightarrow> pg_fault \<Rightarrow> confirmation list confirmation_store" where
  "pg_confirmation_store ts fq fx =
     \<lparr>cs_Upsert = pg_conf_Upsert ts fx, cs_Get = pg_conf_Get fq, cs_ListByStatus = pg_conf_ListByStatus fq,
      cs_ListAboveHeight = pg_conf_ListAboveHeight fq, cs_Transition = pg_conf_Transition ts fq fx\<rparr>"

section \<open>TipStore\<close>

text \<open>
  The server resolves the columns a statement names before it touches a row: one that the table does not
  have is an error. \<open>cols\<close> are the columns of the table and \<open>tip_columns\<close> those that both statements of
  the store name, in the order of the text; the table of the migration is \<open>chain_tips_columns\<close>.
\<close>

definition unknown_column :: "string list \<Rightarrow> string list \<Rightarrow> string option" where
  "unknown_column cols named = find (\<lambda>c. c \<notin> set cols) named"

definition undefined_column :: "string \<Rightarrow> error" where
  "undefined_column c = ErrRemote (''undefined column '' @ c)"

definition chain_tips_columns :: "string list" where
  "chain_tips_columns = [''chain_id'', ''tip_height'', ''tip_hash'', ''finalized_height'', ''created_at'', ''updated_at'']"

definition tip_columns :: "string list" where
  "tip_columns = [''id'', ''chain_id'', ''tip_height'', ''tip_hash'', ''finalized_height'', ''updated_at'']"

definition pg_tip_Upsert ::
  "string list \<Rightarrow> (time \<Rightarrow> time) \<Rightarrow> pg_fault \<Rightarrow> time \<Rightarrow> uuid \<Rightarrow> tip_row \<Rightarrow> tip_row list \<Rightarrow> unit result \<times> tip_row list" where
  "pg_tip_Upsert cols ts f now u tp t =
     (if \<not> (fits_bigint (tp_TipHeight tp) \<and> fits_bigint (tp_FinalizedHeight tp)) then (Inl high_bit_error, t)
      else statement f t
        (case unknown_column cols tip_columns of
           Some c \<Rightarrow> (Inl (undefined_column c), t)
         | None \<Rightarrow>
             if list_ex (\<lambda>r. tp_ChainID r = tp_ChainID tp) t
             then (Inr (), update_rows (\<lambda>r. tp_ChainID r = tp_ChainID tp)
               (\<lambda>r. r\<lparr>tp_TipHeight := tp_TipHeight tp, tp_TipHash := tp_TipHash tp,
                      tp_FinalizedHeight := tp_FinalizedHeight tp, tp_UpdatedAt := ts now\<rparr>) t)
             else (Inr (), t @ [tp\<lparr>tp_ID := pg_id (tp_ID tp) u, tp_UpdatedAt := ts (tp_UpdatedAt tp)\<rparr>])))"

definition pg_tip_Get :: "string list \<Rightarrow> error option \<Rightarrow> string \<Rightarrow> tip_row list \<Rightarrow> tip_row result" where
  "pg_tip_Get cols f chainID t =
     query f
       (case unknown_column cols tip_columns of
          Some c \<Rightarrow> Inl (undefined_column c)
        | None \<Rightarrow>
            (case find (\<lambda>r. tp_ChainID r = chainID) t of
               None \<Rightarrow> Inl (ErrNotFound chainID ''tip'')
             | Some r \<Rightarrow> Inr r))"

definition pg_tip_store :: "string list \<Rightarrow> (time \<Rightarrow> time) \<Rightarrow> error option \<Rightarrow> pg_fault \<Rightarrow> tip_row list tip_store" where
  "pg_tip_store cols ts fq fx = \<lparr>tps_Upsert = pg_tip_Upsert cols ts fx, tps_Get = pg_tip_Get cols fq\<rparr>"

section \<open>FeeStore\<close>

text \<open>A \<open>NUMERIC\<close> column written and read as text; a \<open>nil\<close> is written as zero.\<close>

definition pg_num :: "int option \<Rightarrow> int option" where
  "pg_num b = big_SetString (bigStr b)"

definition pg_fee_Insert ::
  "(time \<Rightarrow> time) \<Rightarrow> pg_fault \<Rightarrow> time \<Rightarrow> uuid \<Rightarrow> fee_row \<Rightarrow> fee_row list \<Rightarrow> unit result \<times> fee_row list" where
  "pg_fee_Insert ts f now u r t =
     (let new = r\<lparr>fw_ID := pg_id (fw_ID r) u, fw_MaxFeePerGas := pg_num (fw_MaxFeePerGas r),
                  fw_MaxPriorityFeePerGas := pg_num (fw_MaxPriorityFeePerGas r), fw_GasPrice := pg_num (fw_GasPrice r),
                  fw_TotalFee := pg_num (fw_TotalFee r), fw_ComputedAt := ts (fw_ComputedAt r)\<rparr> in
      if \<not> fits_bigint (fw_GasLimit r) then (Inl high_bit_error, t)
      else statement f t
        (if \<not> (- (2 ^ 31) \<le> fw_SampleCount r \<and> fw_SampleCount r < 2 ^ 31) then (Inl (ErrRemote ''integer out of range''), t)
         else if list_ex (\<lambda>x. fw_ID x = fw_ID new \<or>
              fw_ChainID x = fw_ChainID new \<and> fw_Priority x = fw_Priority new \<and> fw_ComputedAt x = fw_ComputedAt new) t
         then (Inl duplicate_key, t)
         else (Inr (), t @ [new])))"

text \<open>\<open>ORDER BY computed_at DESC LIMIT 1\<close>: the newest row, the first such in a tie.\<close>

fun newest :: "('r \<Rightarrow> time) \<Rightarrow> 'r list \<Rightarrow> 'r option" where
  "newest at [] = None"
| "newest at (r # rs) =
     (case newest at rs of None \<Rightarrow> Some r | Some r' \<Rightarrow> Some (if at r' > at r then r' else r))"

definition pg_fee_Latest :: "error option \<Rightarrow> string \<Rightarrow> priority \<Rightarrow> fee_row list \<Rightarrow> fee_row result" where
  "pg_fee_Latest f chainID p t =
     query f
       (case newest fw_ComputedAt (filter (\<lambda>r. fw_ChainID r = chainID \<and> fw_Priority r = p) t) of
          None \<Rightarrow> Inl (ErrNotFound chainID p)
        | Some r \<Rightarrow>
            Inr (r\<lparr>fw_MaxFeePerGas := pg_num (fw_MaxFeePerGas r), fw_MaxPriorityFeePerGas := pg_num (fw_MaxPriorityFeePerGas r),
                   fw_GasPrice := pg_num (fw_GasPrice r), fw_TotalFee := pg_num (fw_TotalFee r)\<rparr>))"

definition pg_fee_store :: "(time \<Rightarrow> time) \<Rightarrow> error option \<Rightarrow> pg_fault \<Rightarrow> fee_row list fee_store" where
  "pg_fee_store ts fq fx = \<lparr>fs_Insert = pg_fee_Insert ts fx, fs_Latest = pg_fee_Latest fq\<rparr>"

section \<open>ReorgStore\<close>

text \<open>A row of \<open>reorg_events\<close> keeps the array as the text the server returns.\<close>

record pg_reorg_row =
  pr_event :: reorg_event
  pr_affected :: string

definition pg_reorg_Append ::
  "(time \<Rightarrow> time) \<Rightarrow> (string \<Rightarrow> string option) \<Rightarrow> pg_fault \<Rightarrow> time \<Rightarrow> uuid \<Rightarrow> reorg_event \<Rightarrow> pg_reorg_row list \<Rightarrow>
    unit result \<times> pg_reorg_row list" where
  "pg_reorg_Append ts arr f now u e t =
     (if \<not> fits_bigint (re_CommonAncestorHeight e) then (Inl high_bit_error, t)
      else statement f t
        (case arr (pqArray (re_AffectedTxHashes e)) of
           None \<Rightarrow> (Inl (ErrRemote ''malformed array literal''), t)
         | Some a \<Rightarrow>
             if list_ex (\<lambda>r. re_ID (pr_event r) = pg_id (re_ID e) u) t then (Inl duplicate_key, t)
             else (Inr (), t @ [\<lparr>pr_event = e\<lparr>re_ID := pg_id (re_ID e) u, re_DetectedAt := ts (re_DetectedAt e)\<rparr>,
                                  pr_affected = a\<rparr>])))"

definition pg_reorg_List :: "error option \<Rightarrow> string \<Rightarrow> pg_reorg_row list \<Rightarrow> reorg_event list result" where
  "pg_reorg_List f chainID t =
     query f
       (Inr (map (\<lambda>r. (pr_event r)\<lparr>re_AffectedTxHashes := parseArray (pr_affected r)\<rparr>)
          (sort_key (\<lambda>r. re_DetectedAt (pr_event r)) (filter (\<lambda>r. re_ChainID (pr_event r) = chainID) t))))"

definition pg_reorg_store ::
  "(time \<Rightarrow> time) \<Rightarrow> (string \<Rightarrow> string option) \<Rightarrow> error option \<Rightarrow> pg_fault \<Rightarrow> pg_reorg_row list reorg_store" where
  "pg_reorg_store ts arr fq fx = \<lparr>rs_Append = pg_reorg_Append ts arr fx, rs_List = pg_reorg_List fq\<rparr>"

section \<open>OutboxStore\<close>

text \<open>A row of \<open>outbox\<close> with its nullable \<open>emitted_at\<close>.\<close>

record pg_outbox_row =
  po_entry :: outbox_entry
  po_emitted :: "time option"

definition pg_outbox_Append ::
  "(time \<Rightarrow> time) \<Rightarrow> pg_fault \<Rightarrow> time \<Rightarrow> uuid \<Rightarrow> outbox_entry \<Rightarrow> pg_outbox_row list \<Rightarrow> bool result \<times> pg_outbox_row list" where
  "pg_outbox_Append ts f now u e t =
     (if \<not> fits_bigint (oe_BlockHeight e) then (Inl high_bit_error, t)
      else statement f t
        (if list_ex (\<lambda>r. outbox_id (po_entry r) = outbox_id e) t then (Inr False, t)
         else if list_ex (\<lambda>r. oe_ID (po_entry r) = pg_id (oe_ID e) u) t then (Inl duplicate_key, t)
         else (Inr True, t @ [\<lparr>po_entry = e\<lparr>oe_ID := pg_id (oe_ID e) u, oe_CreatedAt := ts (oe_CreatedAt e)\<rparr>,
                                po_emitted = None\<rparr>])))"

definition pg_outbox_ListPending :: "error option \<Rightarrow> int \<Rightarrow> pg_outbox_row list \<Rightarrow> outbox_entry list result" where
  "pg_outbox_ListPending f limit t =
     query f
       (if limit < 0 then Inl (ErrRemote ''LIMIT must not be negative'')
        else Inr (map (\<lambda>r. (po_entry r)\<lparr>oe_EmittedAt := (case po_emitted r of None \<Rightarrow> zero_time | Some x \<Rightarrow> x)\<rparr>)
          (take (nat limit) (sort_key (\<lambda>r. oe_ID (po_entry r)) (filter (\<lambda>r. po_emitted r = None) t)))))"

definition pg_outbox_MarkEmitted ::
  "(time \<Rightarrow> time) \<Rightarrow> (uuid \<Rightarrow> string) \<Rightarrow> pg_fault \<Rightarrow> time \<Rightarrow> uuid \<Rightarrow> pg_outbox_row list \<Rightarrow> unit result \<times> pg_outbox_row list" where
  "pg_outbox_MarkEmitted ts uuid_str f now u t =
     statement f t
       (if list_ex (\<lambda>r. oe_ID (po_entry r) = u) t
        then (Inr (), update_rows (\<lambda>r. oe_ID (po_entry r) = u) (\<lambda>r. r\<lparr>po_emitted := Some (ts now)\<rparr>) t)
        else (Inl (ErrNotFound ''outbox'' (uuid_str u)), t))"

definition pg_outbox_store ::
  "(time \<Rightarrow> time) \<Rightarrow> (uuid \<Rightarrow> string) \<Rightarrow> error option \<Rightarrow> pg_fault \<Rightarrow> pg_outbox_row list outbox_store" where
  "pg_outbox_store ts uuid_str fq fx =
     \<lparr>os_Append = pg_outbox_Append ts fx, os_ListPending = pg_outbox_ListPending fq,
      os_MarkEmitted = pg_outbox_MarkEmitted ts uuid_str fx\<rparr>"

section \<open>The database\<close>

record pg_db =
  db_broadcasts :: "broadcast_row list"
  db_confirmations :: "confirmation list"
  db_tips :: "tip_row list"
  db_fees :: "fee_row list"
  db_reorgs :: "pg_reorg_row list"
  db_outbox :: "pg_outbox_row list"

text \<open>
  \<open>Open\<close> connects, pings and creates the tables that do not exist yet; each step may fail. The tables
  that exist are kept.
\<close>

definition pg_Open :: "error option \<Rightarrow> error option \<Rightarrow> error option \<Rightarrow> pg_db \<Rightarrow> pg_db result" where
  "pg_Open fopen fping fmigrate db =
     (case fopen of
        Some e \<Rightarrow> Inl e
      | None \<Rightarrow>
          (case fping of
             Some e \<Rightarrow> Inl e
           | None \<Rightarrow> (case fmigrate of Some e \<Rightarrow> Inl (ErrWrapped ''migrate'' e) | None \<Rightarrow> Inr db)))"

section \<open>Arrays\<close>

lemma pqArray_loop_eq: "pqArray_loop (Suc i) ss out = out @ concat (map ((#) CHR '','') ss)"
  by (induction ss arbitrary: i out) auto

lemma pqArray_join: "pqArray ss = ''{'' @ go_join CHR '','' ss @ ''}''"
  by (cases ss) (simp_all add: pqArray_def go_join_def pqArray_loop_eq [of 0, simplified])

lemma parseArray_loop_eq: "parseArray_loop s cur out = out @ (case go_split CHR '','' s of [] \<Rightarrow> [cur] | p # ps \<Rightarrow> (cur @ p) # ps)"
  by (induction s cur out rule: parseArray_loop.induct) (auto split: list.splits)

definition plain_element :: "string \<Rightarrow> bool" where
  "plain_element h \<longleftrightarrow> h \<noteq> [] \<and> CHR '','' \<notin> set h \<and> CHR ''{'' \<notin> set h \<and> CHR ''}'' \<notin> set h"

lemma go_join_chars: "set (go_join sep ws) \<subseteq> insert sep (\<Union>w \<in> set ws. set w)"
  by (cases ws) (auto simp: go_join_def)

lemma trimBraces_wrapped:
  assumes "CHR ''{'' \<notin> set s" and "CHR ''}'' \<notin> set s"
  shows "trimBraces (''{'' @ s @ ''}'') = s"
proof -
  have free: "dropWhile (\<lambda>c. c = b) w = w" if "b \<notin> set w" for b :: char and w
    using that by (cases w) auto
  have "dropWhile (\<lambda>c. c = CHR ''{'') (s @ ''}'') = s @ ''}''"
    using assms(1) by (intro free) auto
  then show ?thesis using assms(2) free [of "CHR ''}''" "rev s"] by (simp add: trimBraces_def)
qed

lemma parseArray_pqArray:
  assumes "list_all plain_element hs"
  shows "parseArray (pqArray hs) = hs"
proof (cases "hs = []")
  case True
  then show ?thesis by (simp add: pqArray_join go_join_def parseArray_def trimBraces_wrapped [of "[]", simplified])
next
  case False
  have "CHR ''{'' \<notin> set (go_join CHR '','' hs)" "CHR ''}'' \<notin> set (go_join CHR '','' hs)"
    using assms go_join_chars [of "CHR '',''" hs] by (auto simp: list_all_iff plain_element_def)
  then have trim: "trimBraces (pqArray hs) = go_join CHR '','' hs"
    unfolding pqArray_join by (rule trimBraces_wrapped)
  have split: "go_split CHR '','' (go_join CHR '','' hs) = hs"
    using False assms by (intro go_split_join) (auto simp: list_all_iff plain_element_def)
  moreover have "go_join CHR '','' hs \<noteq> []"
    using False assms by (cases hs) (auto simp: go_join_def plain_element_def)
  ultimately show ?thesis using False by (simp add: parseArray_def trim parseArray_loop_eq split: list.split)
qed

section \<open>Rows by key\<close>

definition pg_row :: "confirmation list \<Rightarrow> string \<times> string \<Rightarrow> confirmation option" where
  "pg_row t k = find (is_confirmation (fst k) (snd k)) t"

lemma is_confirmation_set_progress [simp]: "is_confirmation c h (set_progress ts x r) \<longleftrightarrow> is_confirmation c h r"
  by (simp add: is_confirmation_def set_progress_def)

lemma find_row_key: "pg_row t k = Some r \<Longrightarrow> is_confirmation (fst k) (snd k) r \<and> r \<in> set t"
  by (auto simp: pg_row_def find_Some_iff)

lemma pg_row_update:
  "pg_row (update_rows (is_confirmation c h) (set_progress ts x) t) =
     (\<lambda>k. if k = (c, h) then map_option (set_progress ts x) (pg_row t k) else pg_row t k)"
proof
  fix k
  have excl: "is_confirmation (fst k) (snd k) r \<Longrightarrow> is_confirmation c h r \<longleftrightarrow> k = (c, h)" for r
    by (auto simp: is_confirmation_def)
  show "pg_row (update_rows (is_confirmation c h) (set_progress ts x) t) k =
      (if k = (c, h) then map_option (set_progress ts x) (pg_row t k) else pg_row t k)"
    by (induction t) (auto simp: pg_row_def update_rows_def excl)
qed

lemma pg_row_append:
  "pg_row (t @ [r]) k = (case pg_row t k of Some x \<Rightarrow> Some x | None \<Rightarrow> if is_confirmation (fst k) (snd k) r then Some r else None)"
  by (induction t) (auto simp: pg_row_def)

lemma list_ex_pg_row: "list_ex (is_confirmation c h) t \<longleftrightarrow> pg_row t (c, h) \<noteq> None"
  by (induction t) (auto simp: pg_row_def)

section \<open>Transitions on a database that may fail\<close>

datatype pg_call = PgCall "error option" pg_fault transition_call

fun pg_transition_step :: "(time \<Rightarrow> time) \<Rightarrow> confirmation list \<Rightarrow> pg_call \<Rightarrow> confirmation list" where
  "pg_transition_step ts t (PgCall fq fx (TransitionCall c h st to m)) =
     snd (pg_conf_Transition ts fq fx c h st to (apply_mutator m) t)"

definition pg_le :: "confirmation list \<Rightarrow> confirmation list \<Rightarrow> bool" where
  "pg_le t t' \<longleftrightarrow> progress_le (pg_row t) (pg_row t')"

lemma pg_transition_cases:
  "snd (pg_conf_Transition ts fq fx c h st to m t) = t \<or>
   (\<exists>r. pg_row t (c, h) = Some r \<and> cf_Status r = st \<and> CanTransitionTo st to \<and>
     snd (pg_conf_Transition ts fq fx c h st to m t) =
       update_rows (is_confirmation c h) (set_progress ts (m (r\<lparr>cf_Status := to\<rparr>))) t)"
  by (auto simp: pg_conf_Transition_def statement_def query_def pg_row_def Let_def split: option.splits pg_fault.splits)

interpretation pg_transitions: progress_machine "pg_transition_step ts" "\<lambda>_. True" pg_le
proof (unfold_locales, goal_cases)
  case (2 s)
  show ?case by (simp add: pg_le_def progress_le_refl)
next
  case (3 s t u)
  then show ?case unfolding pg_le_def by (rule progress_le_trans)
next
  case (4 t e)
  obtain fq fx c h st to m where e: "e = PgCall fq fx (TransitionCall c h st to m)"
    by (metis pg_call.exhaust transition_call.exhaust)
  show ?case
    using pg_transition_cases [of ts fq fx c h st to "apply_mutator m" t]
  proof
    assume "\<exists>r. pg_row t (c, h) = Some r \<and> cf_Status r = st \<and> CanTransitionTo st to \<and>
      snd (pg_conf_Transition ts fq fx c h st to (apply_mutator m) t) =
        update_rows (is_confirmation c h) (set_progress ts (apply_mutator m (r\<lparr>cf_Status := to\<rparr>))) t"
    then obtain r where r: "pg_row t (c, h) = Some r" "cf_Status r = st" "CanTransitionTo st to"
      and t': "pg_transition_step ts t e = update_rows (is_confirmation c h) (set_progress ts (apply_mutator m (r\<lparr>cf_Status := to\<rparr>))) t"
      by (auto simp: e)
    have "pg_row (pg_transition_step ts t e) = (pg_row t)((c, h) \<mapsto> set_progress ts (apply_mutator m (r\<lparr>cf_Status := to\<rparr>)) r)"
      using r(1) by (auto simp: t' pg_row_update)
    then show ?thesis using r by (auto simp: pg_le_def set_progress_def intro!: progress_le_update)
  qed (simp add: e pg_le_def progress_le_refl)
qed simp

text \<open>
  On PostgreSQL, too, a row's status moves along the lifecycle only, whatever calls of \<open>Transition\<close>
  are made and whichever of their statements fail, even when a commit took effect and its answer
  was lost: the row is still there, its history is permitted, and a terminal status has not changed.
\<close>

theorem pg_transitions_follow_lifecycle:
  assumes "pg_conf_Get None c h t = Inr r"
  shows "\<exists>r' path. pg_conf_Get None c h (run (pg_transition_step ts) t calls) = Inr r' \<and>
    lifecycle (cf_Status r) path (cf_Status r') \<and> (IsTerminal (cf_Status r) \<longrightarrow> cf_Status r' = cf_Status r)"
proof -
  have "pg_row t (c, h) = Some r" using assms by (simp add: pg_conf_Get_def query_def pg_row_def split: option.splits)
  then obtain r' path where "pg_row (run (pg_transition_step ts) t calls) (c, h) = Some r'"
    and "lifecycle (cf_Status r) path (cf_Status r')"
    using pg_transitions.run_le [of t ts calls] progress_leD unfolding pg_le_def by meson
  then show ?thesis using lifecycle_terminal_end by (auto simp: pg_conf_Get_def query_def pg_row_def)
qed

section \<open>The outbox on a database that may fail\<close>

datatype pg_outbox_op = PgAppend pg_fault time uuid outbox_entry | PgMark pg_fault time uuid

text \<open>The table after an operation, and what the appending client was told.\<close>

fun pg_outbox_step ::
  "(time \<Rightarrow> time) \<Rightarrow> (uuid \<Rightarrow> string) \<Rightarrow> pg_outbox_row list \<Rightarrow> pg_outbox_op \<Rightarrow> pg_outbox_row list" where
  "pg_outbox_step ts us t (PgAppend f now u e) = snd (pg_outbox_Append ts f now u e t)"
| "pg_outbox_step ts us t (PgMark f now u) = snd (pg_outbox_MarkEmitted ts us f now u t)"

fun pg_outbox_told :: "(time \<Rightarrow> time) \<Rightarrow> pg_outbox_row list \<Rightarrow> pg_outbox_op \<Rightarrow> ((string \<times> string \<times> status \<times> u64) \<times> bool result) list" where
  "pg_outbox_told ts t (PgAppend f now u e) = [(outbox_id e, fst (pg_outbox_Append ts f now u e t))]"
| "pg_outbox_told ts t (PgMark f now u) = []"

fun pg_outbox_answers ::
  "(time \<Rightarrow> time) \<Rightarrow> (uuid \<Rightarrow> string) \<Rightarrow> pg_outbox_row list \<Rightarrow> pg_outbox_op list \<Rightarrow> ((string \<times> string \<times> status \<times> u64) \<times> bool result) list" where
  "pg_outbox_answers ts us t [] = []"
| "pg_outbox_answers ts us t (p # ps) = pg_outbox_told ts t p @ pg_outbox_answers ts us (pg_outbox_step ts us t p) ps"

definition pg_outbox_ids :: "pg_outbox_row list \<Rightarrow> (string \<times> string \<times> status \<times> u64) list" where
  "pg_outbox_ids t = map (\<lambda>r. outbox_id (po_entry r)) t"

definition pg_outbox_inv :: "pg_outbox_row list \<Rightarrow> bool" where
  "pg_outbox_inv t \<longleftrightarrow> distinct (pg_outbox_ids t) \<and> distinct (map (\<lambda>r. oe_ID (po_entry r)) t)"

lemma pg_MarkEmitted_entries:
  "map po_entry (snd (pg_outbox_MarkEmitted ts us f now u t)) = map po_entry t"
  by (auto simp: pg_outbox_MarkEmitted_def statement_def update_rows_def split: pg_fault.splits)

lemma pg_MarkEmitted_ids:
  "pg_outbox_ids (snd (pg_outbox_MarkEmitted ts us f now u t)) = pg_outbox_ids t"
  "map (\<lambda>r. oe_ID (po_entry r)) (snd (pg_outbox_MarkEmitted ts us f now u t)) = map (\<lambda>r. oe_ID (po_entry r)) t"
  using arg_cong [OF pg_MarkEmitted_entries [of ts us f now u t], of "map outbox_id"]
    arg_cong [OF pg_MarkEmitted_entries [of ts us f now u t], of "map oe_ID"]
  by (simp_all add: pg_outbox_ids_def comp_def)

text \<open>The two outcomes of an append.\<close>

lemma pg_Append_cases:
  "(snd (pg_outbox_Append ts f now u e t) = t \<and> fst (pg_outbox_Append ts f now u e t) \<noteq> Inr True) \<or>
   (outbox_id e \<notin> set (pg_outbox_ids t) \<and> pg_id (oe_ID e) u \<notin> (\<lambda>r. oe_ID (po_entry r)) ` set t \<and>
     snd (pg_outbox_Append ts f now u e t) =
       t @ [\<lparr>po_entry = e\<lparr>oe_ID := pg_id (oe_ID e) u, oe_CreatedAt := ts (oe_CreatedAt e)\<rparr>, po_emitted = None\<rparr>])"
  by (auto simp: pg_outbox_Append_def statement_def pg_outbox_ids_def list_ex_iff split: pg_fault.splits)

interpretation pg_outbox: machine "pg_outbox_step ts us" pg_outbox_inv
proof
  fix t p
  assume inv: "pg_outbox_inv t"
  show "pg_outbox_inv (pg_outbox_step ts us t p)"
  proof (cases p)
    case (PgAppend f now u e)
    then show ?thesis
      using inv pg_Append_cases [of ts f now u e t] by (auto simp: pg_outbox_inv_def pg_outbox_ids_def outbox_id_def)
  next
    case (PgMark f now u)
    then show ?thesis using inv by (simp add: pg_outbox_inv_def pg_MarkEmitted_ids)
  qed
qed

lemma pg_outbox_told_new:
  "length (filter (\<lambda>a. a = (x, Inr True)) (pg_outbox_told ts t p)) + (if x \<in> set (pg_outbox_ids t) then 1 else 0) \<le>
     (if x \<in> set (pg_outbox_ids (pg_outbox_step ts us t p)) then 1 else 0)"
proof (cases p)
  case (PgAppend f now u e)
  then show ?thesis using pg_Append_cases [of ts f now u e t] by (auto simp: pg_outbox_ids_def outbox_id_def)
next
  case (PgMark f now u)
  then show ?thesis by (simp add: pg_MarkEmitted_ids)
qed

lemma pg_outbox_answers_new:
  "length (filter (\<lambda>a. a = (x, Inr True)) (pg_outbox_answers ts us t ps)) + (if x \<in> set (pg_outbox_ids t) then 1 else 0) \<le> 1"
proof (induction ps arbitrary: t)
  case (Cons p ps)
  show ?case using pg_outbox_told_new [of x ts t p us] Cons.IH [of "pg_outbox_step ts us t p"] by auto
qed simp

text \<open>
  C10. Deduplication on PostgreSQL, for any interleaving of appends and acknowledgements from the empty
  table and any failures, lost answers included: no two rows share chain, hash, status and height,
  and at most one append of an event is told that it is new. Unlike the in-memory store, nothing is
  assumed about the characters of chain ids and hashes.
\<close>

theorem pg_outbox_told_once:
  "distinct (pg_outbox_ids (run (pg_outbox_step ts us) [] ps)) \<and>
   length (filter (\<lambda>a. a = (x, Inr True)) (pg_outbox_answers ts us [] ps)) \<le> 1"
proof
  have "pg_outbox_inv []" by (simp add: pg_outbox_inv_def pg_outbox_ids_def)
  then show "distinct (pg_outbox_ids (run (pg_outbox_step ts us) [] ps))"
    using pg_outbox.run_inv unfolding pg_outbox_inv_def by blast
  show "length (filter (\<lambda>a. a = (x, Inr True)) (pg_outbox_answers ts us [] ps)) \<le> 1"
    using pg_outbox_answers_new [of x ts us "[]" ps] by simp
qed

section \<open>The columns of the tip table\<close>

text \<open>
  On a table with the columns the statements name, the tip written is the tip read next; on the table of
  the migration, which has no \<open>id\<close>, neither statement gets that far.
\<close>

lemma find_update_tip:
  assumes "\<And>r. tp_ChainID (g r) = tp_ChainID r"
  shows "find (\<lambda>r. tp_ChainID r = c) (update_rows (\<lambda>r. tp_ChainID r = c) g t) =
    map_option g (find (\<lambda>r. tp_ChainID r = c) t)"
  using assms by (induction t) (auto simp: update_rows_def)

lemma find_tip_none: "find (\<lambda>r. tp_ChainID r = c) t = None \<longleftrightarrow> \<not> list_ex (\<lambda>r. tp_ChainID r = c) t"
  by (auto simp: find_None_iff list_ex_iff)

lemma find_append: "find P (xs @ ys) = (case find P xs of None \<Rightarrow> find P ys | Some x \<Rightarrow> Some x)"
  by (induction xs) auto

lemma pg_tip_read_back:
  assumes "set tip_columns \<subseteq> set cols" and "fits_bigint (tp_TipHeight tp)" and "fits_bigint (tp_FinalizedHeight tp)"
  shows "\<exists>r. pg_tip_Get cols None (tp_ChainID tp) (snd (pg_tip_Upsert cols ts NoFault now u tp t)) = Inr r \<and>
    tp_TipHeight r = tp_TipHeight tp \<and> tp_TipHash r = tp_TipHash tp \<and> tp_FinalizedHeight r = tp_FinalizedHeight tp"
proof -
  have "unknown_column cols tip_columns = None" using assms(1) by (auto simp: unknown_column_def find_None_iff)
  then show ?thesis
    using assms(2,3) find_tip_none [of "tp_ChainID tp" t]
    by (cases "find (\<lambda>r. tp_ChainID r = tp_ChainID tp) t")
      (simp_all add: pg_tip_Upsert_def pg_tip_Get_def statement_def query_def find_update_tip find_append)
qed

lemma pg_tip_rejected [simp]:
  "snd (pg_tip_Upsert chain_tips_columns ts fx now u tp t) = t"
  "\<exists>e. fst (pg_tip_Upsert chain_tips_columns ts fx now u tp t) = Inl e"
  "\<exists>e. pg_tip_Get chain_tips_columns fq c t = Inl e"
proof -
  have "unknown_column chain_tips_columns tip_columns = Some ''id''"
    by (simp add: unknown_column_def chain_tips_columns_def tip_columns_def)
  then show "snd (pg_tip_Upsert chain_tips_columns ts fx now u tp t) = t"
    "\<exists>e. fst (pg_tip_Upsert chain_tips_columns ts fx now u tp t) = Inl e"
    "\<exists>e. pg_tip_Get chain_tips_columns fq c t = Inl e"
    by (simp_all add: pg_tip_Upsert_def pg_tip_Get_def statement_def query_def split: pg_fault.split option.split)
qed

section \<open>Agreement with the in-memory store\<close>

text \<open>
  A row of the table and a row of the map that stand for the same confirmation: equal but for the id
  and the first-seen time, with the other times as the column rounds them.
\<close>

definition agrees :: "(time \<Rightarrow> time) \<Rightarrow> confirmation \<Rightarrow> confirmation \<Rightarrow> bool" where
  "agrees ts r r' \<longleftrightarrow>
     cf_ChainID r = cf_ChainID r' \<and> cf_TxHash r = cf_TxHash r' \<and> cf_Status r = cf_Status r' \<and>
     cf_BlockHeight r = cf_BlockHeight r' \<and> cf_BlockHash r = cf_BlockHash r' \<and> cf_Confirmations r = cf_Confirmations r' \<and>
     ts (cf_ConfirmedAt r) = ts (cf_ConfirmedAt r') \<and> ts (cf_FinalizedAt r) = ts (cf_FinalizedAt r')"

definition fits :: "confirmation \<Rightarrow> bool" where
  "fits r \<longleftrightarrow> fits_bigint (cf_BlockHeight r) \<and> fits_bigint (cf_Confirmations r)"

definition pg_sim :: "(time \<Rightarrow> time) \<Rightarrow> confirmation list \<Rightarrow> mem_confirmations \<Rightarrow> bool" where
  "pg_sim ts t s \<longleftrightarrow>
     conf_inv s \<and> list_all fits t \<and> list_all (\<lambda>r. sep_free (cf_ChainID r)) t \<and>
     distinct (map (\<lambda>r. (cf_ChainID r, cf_TxHash r)) t) \<and>
     (\<forall>c h. sep_free c \<longrightarrow> rel_option (agrees ts) (pg_row t (c, h)) (conf_row s c h))"

lemma pg_simD: "pg_sim ts t s \<Longrightarrow> sep_free c \<Longrightarrow> rel_option (agrees ts) (pg_row t (c, h)) (conf_row s c h)"
  by (simp add: pg_sim_def)

fun mutator_fits :: "mutator \<Rightarrow> bool" where
  "mutator_fits MutNone \<longleftrightarrow> True"
| "mutator_fits (MutInclude height hash confs now) \<longleftrightarrow> fits_bigint height \<and> fits_bigint confs"
| "mutator_fits (MutFinal confs now) \<longleftrightarrow> fits_bigint confs"

lemma apply_mutator_fits: "fits r \<Longrightarrow> mutator_fits m \<Longrightarrow> fits (apply_mutator m (r\<lparr>cf_Status := to\<rparr>))"
  by (cases m) (auto simp: fits_def)

lemma apply_mutator_agrees:
  "agrees ts r r' \<Longrightarrow> agrees ts (apply_mutator m (r\<lparr>cf_Status := to\<rparr>)) (apply_mutator m (r'\<lparr>cf_Status := to\<rparr>))"
  by (cases m) (auto simp: agrees_def)

lemma set_progress_agrees:
  assumes "\<forall>x. ts (ts x) = ts x" and "is_confirmation (cf_ChainID x') (cf_TxHash x') r" and "agrees ts x x'"
  shows "agrees ts (set_progress ts x r) x'"
  using assms by (simp add: agrees_def set_progress_def is_confirmation_def)

lemma list_all_update_rows: "list_all P t \<Longrightarrow> (\<And>r. P r \<Longrightarrow> P (f r)) \<Longrightarrow> list_all P (update_rows Q f t)"
  by (auto simp: update_rows_def list_all_iff)

lemma keys_update_rows:
  "map (\<lambda>r. (cf_ChainID r, cf_TxHash r)) (update_rows Q (set_progress ts x) t) = map (\<lambda>r. (cf_ChainID r, cf_TxHash r)) t"
  by (simp add: update_rows_def set_progress_def)

text \<open>Writing one row on both sides.\<close>

lemma pg_sim_update:
  assumes "pg_sim ts t s" and "\<forall>y. ts (ts y) = ts y" and "sep_free (cf_ChainID x')" and "agrees ts x x'" and "fits x"
    and "pg_row t (cf_ChainID x', cf_TxHash x') = Some r" and "x'' = x'\<lparr>cf_ID := i, cf_FirstSeenAt := n\<rparr>"
  shows "pg_sim ts (update_rows (is_confirmation (cf_ChainID x') (cf_TxHash x')) (set_progress ts x) t)
    (AList.update (key (cf_ChainID x') (cf_TxHash x')) x'' s)"
  unfolding pg_sim_def
proof (intro conjI allI impI)
  let ?t = "update_rows (is_confirmation (cf_ChainID x') (cf_TxHash x')) (set_progress ts x) t"
  have x'': "cf_ChainID x'' = cf_ChainID x'" "cf_TxHash x'' = cf_TxHash x'" "agrees ts x x''"
    using assms(4,7) by (simp_all add: agrees_def)
  show "conf_inv (AList.update (key (cf_ChainID x') (cf_TxHash x')) x'' s)"
    using conf_inv_update [of s x''] assms(1,3) by (simp add: pg_sim_def x'')
  show "list_all fits ?t" "list_all (\<lambda>r. sep_free (cf_ChainID r)) ?t"
    using assms(1,5) by (auto simp: pg_sim_def fits_def set_progress_def intro!: list_all_update_rows)
  show "distinct (map (\<lambda>r. (cf_ChainID r, cf_TxHash r)) ?t)"
    using assms(1) by (simp add: pg_sim_def keys_update_rows)
  fix c h assume c: "sep_free c"
  have "agrees ts (set_progress ts x r) x''"
    using find_row_key [OF assms(6)] by (intro set_progress_agrees assms(2) x''(3)) (simp add: x'')
  then show "rel_option (agrees ts) (pg_row ?t (c, h)) (conf_row (AList.update (key (cf_ChainID x') (cf_TxHash x')) x'' s) c h)"
    using pg_simD [OF assms(1) c, of h] assms(3,6) c by (simp add: pg_row_update conf_row_def)
qed

lemma pg_sim_insert:
  assumes "pg_sim ts t s" and "\<forall>y. ts (ts y) = ts y" and "sep_free (cf_ChainID x)" and "fits x"
    and "pg_row t (cf_ChainID x, cf_TxHash x) = None"
  shows "pg_sim ts (t @ [set_progress ts x (x\<lparr>cf_ID := i, cf_FirstSeenAt := n\<rparr>)])
    (AList.update (key (cf_ChainID x) (cf_TxHash x)) (x\<lparr>cf_ID := i', cf_FirstSeenAt := n'\<rparr>) s)"
  unfolding pg_sim_def
proof (intro conjI allI impI)
  let ?x = "set_progress ts x (x\<lparr>cf_ID := i, cf_FirstSeenAt := n\<rparr>)"
  let ?x' = "x\<lparr>cf_ID := i', cf_FirstSeenAt := n'\<rparr>"
  show "conf_inv (AList.update (key (cf_ChainID x) (cf_TxHash x)) ?x' s)"
    using conf_inv_update [of s ?x'] assms(1,3) by (simp add: pg_sim_def)
  show "list_all fits (t @ [?x])" "list_all (\<lambda>r. sep_free (cf_ChainID r)) (t @ [?x])"
    using assms(1,3,4) by (auto simp: pg_sim_def fits_def set_progress_def)
  show "distinct (map (\<lambda>r. (cf_ChainID r, cf_TxHash r)) (t @ [?x]))"
    using assms(1,5) by (auto simp: pg_sim_def set_progress_def pg_row_def find_None_iff is_confirmation_def)
  fix c h assume c: "sep_free c"
  have "agrees ts ?x ?x'" using assms(2) by (simp add: agrees_def set_progress_def)
  moreover have "is_confirmation c h ?x \<longleftrightarrow> c = cf_ChainID x \<and> h = cf_TxHash x"
    by (auto simp: is_confirmation_def set_progress_def)
  ultimately show "rel_option (agrees ts) (pg_row (t @ [?x]) (c, h))
      (conf_row (AList.update (key (cf_ChainID x) (cf_TxHash x)) ?x' s) c h)"
    using pg_simD [OF assms(1) c, of h] assms(3,5) c
    by (cases "c = cf_ChainID x \<and> h = cf_TxHash x"; cases "pg_row t (c, h)")
      (auto simp add: pg_row_append conf_row_def simp del: is_confirmation_set_progress)
qed

lemma pg_sim_Get:
  assumes "pg_sim ts t s" and "sep_free c"
  shows "rel_sum (=) (agrees ts) (pg_conf_Get None c h t) (conf_Get c h s)"
proof -
  have "rel_option (agrees ts) (pg_row t (c, h)) (conf_row s c h)" using assms by (simp add: pg_sim_def)
  then show ?thesis
    by (cases "pg_row t (c, h)"; cases "conf_row s c h") (simp_all add: pg_conf_Get_def query_def conf_Get_def pg_row_def conf_row_def)
qed

lemma pg_sim_Transition:
  fixes h :: string and st to :: status
  assumes "pg_sim ts t s" and "\<forall>x. ts (ts x) = ts x" and "sep_free c" and "mutator_fits m"
  defines "pg \<equiv> pg_conf_Transition ts None NoFault c h st to (apply_mutator m) t"
    and "mem \<equiv> conf_Transition c h st to (apply_mutator m) s"
  shows "rel_sum (=) (rel_option (agrees ts)) (fst pg) (fst mem) \<and> pg_sim ts (snd pg) (snd mem)"
proof (cases "pg_row t (c, h)")
  case None
  then have "conf_row s c h = None" using pg_simD [OF assms(1,3), of h] by (cases "conf_row s c h") simp_all
  then show ?thesis using None assms(1)
    by (simp add: pg_def mem_def pg_conf_Transition_def query_def conf_Transition_def pg_row_def conf_row_def)
next
  case (Some r)
  then obtain r' where r': "conf_row s c h = Some r'" "agrees ts r r'"
    using pg_simD [OF assms(1,3), of h] by (cases "conf_row s c h") simp_all
  have key: "cf_ChainID r = c" "cf_TxHash r = h" "r \<in> set t"
    using find_row_key [OF Some] by (auto simp: is_confirmation_def)
  have "fits r" using assms(1) key(3) by (auto simp: pg_sim_def list_all_iff)
  then have fit: "fits (apply_mutator m (r\<lparr>cf_Status := to\<rparr>))" using assms(4) by (rule apply_mutator_fits)
  let ?x = "apply_mutator m (r\<lparr>cf_Status := to\<rparr>)" and ?x' = "apply_mutator m (r'\<lparr>cf_Status := to\<rparr>)"
  have x: "agrees ts ?x ?x'" using r'(2) by (rule apply_mutator_agrees)
  have k': "cf_ChainID r' = c" "cf_TxHash r' = h" using r'(2) key by (simp_all add: agrees_def)
  have "pg_sim ts (update_rows (is_confirmation c h) (set_progress ts ?x) t) (AList.update (key c h) ?x' s)"
    using pg_sim_update [OF assms(1,2) _ x fit, where r = r and x'' = ?x' and i = "cf_ID ?x'" and n = "cf_FirstSeenAt ?x'"] assms(3) Some
    by (simp add: k')
  then show ?thesis
    using Some r' x fit assms(1) unfolding pg_def mem_def
    by (auto simp: pg_conf_Transition_def query_def conf_Transition_def pg_row_def conf_row_def statement_def fits_def Let_def agrees_def)
qed

lemma pg_sim_Upsert:
  fixes now :: time
  assumes "pg_sim ts t s" and "\<forall>x. ts (ts x) = ts x" and "sep_free (cf_ChainID x)" and "fits x"
    and "pg_row t (cf_ChainID x, cf_TxHash x) = None \<Longrightarrow> pg_id (cf_ID x) u \<notin> cf_ID ` set t"
  defines "pg \<equiv> pg_conf_Upsert ts NoFault now u x t" and "mem \<equiv> conf_Upsert now u x s"
  shows "fst pg = fst mem \<and> pg_sim ts (snd pg) (snd mem)"
proof (cases "pg_row t (cf_ChainID x, cf_TxHash x)")
  case None
  then have "\<not> list_ex (is_confirmation (cf_ChainID x) (cf_TxHash x)) t" by (simp add: list_ex_pg_row)
  moreover have "\<not> list_ex (\<lambda>r. cf_ID r = pg_id (cf_ID x) u) t"
    using assms(5) [OF None] unfolding list_ex_iff image_iff by metis
  ultimately have "pg = (Inr (), t @ [set_progress ts x (x\<lparr>cf_ID := pg_id (cf_ID x) u, cf_FirstSeenAt := ts (cf_FirstSeenAt x)\<rparr>)])"
    using assms(4) by (simp add: pg_def pg_conf_Upsert_def statement_def fits_def)
  moreover note pg_sim_insert [OF assms(1-4) None]
  ultimately show ?thesis unfolding mem_def conf_Upsert_def fill_confirmation_def by (simp only: fst_conv snd_conv)
next
  case (Some r)
  then have "pg = (Inr (), update_rows (is_confirmation (cf_ChainID x) (cf_TxHash x)) (set_progress ts x) t)"
    using assms(4) by (simp add: pg_def pg_conf_Upsert_def statement_def fits_def list_ex_pg_row)
  moreover have "agrees ts x x" by (simp add: agrees_def)
  note pg_sim_update [OF assms(1-3) this assms(4) Some refl]
  ultimately show ?thesis unfolding mem_def conf_Upsert_def fill_confirmation_def by (simp only: fst_conv snd_conv)
qed

lemma pg_row_iff:
  assumes "distinct (map (\<lambda>r. (cf_ChainID r, cf_TxHash r)) t)"
  shows "pg_row t (c, h) = Some r \<longleftrightarrow> r \<in> set t \<and> cf_ChainID r = c \<and> cf_TxHash r = h"
  using assms by (induction t) (auto simp: pg_row_def is_confirmation_def)

lemma pg_sim_rows:
  assumes "pg_sim ts t s" and "sep_free c" and "r \<in> set t" and "cf_ChainID r = c"
    and "r' \<in> set (map snd s)" and "cf_ChainID r' = c" and "cf_TxHash r = cf_TxHash r'"
  shows "agrees ts r r'"
proof -
  have inv: "conf_inv s" using assms(1) by (simp add: pg_sim_def)
  have "pg_row t (c, cf_TxHash r) = Some r" using assms(1,3,4) pg_row_iff by (simp add: pg_sim_def)
  moreover have "r' \<in> {r. \<exists>h. conf_row s c h = Some r \<and> True}"
    using assms(5,6) unfolding conf_inv_rows [OF inv assms(2), of "\<lambda>_. True", symmetric] by simp
  then obtain h where h: "conf_row s c h = Some r'" by blast
  then have "h = cf_TxHash r'" using mem_confirmation.row_key [of s c h r'] inv assms(2) by simp
  ultimately show ?thesis using pg_simD [OF assms(1,2), of "cf_TxHash r"] h assms(7) by simp
qed

lemma pg_sim_hashes:
  assumes "pg_sim ts t s" and "sep_free c" and "\<And>r r'. agrees ts r r' \<Longrightarrow> P r \<longleftrightarrow> P r'"
  shows "cf_TxHash ` set (filter (\<lambda>r. cf_ChainID r = c \<and> P r) t) =
    cf_TxHash ` set (filter (\<lambda>r. cf_ChainID r = c \<and> P r) (map snd s))" (is "?L = _ ` ?S")
proof -
  have rows: "pg_row t (c, h) = Some r \<longleftrightarrow> r \<in> set t \<and> cf_ChainID r = c \<and> cf_TxHash r = h" for h r
    using assms(1) by (intro pg_row_iff) (simp add: pg_sim_def)
  have rel: "rel_option (agrees ts) (pg_row t (c, h)) (conf_row s c h)" for h
    using assms(1,2) by (simp add: pg_sim_def)
  have "?L = {h. \<exists>r. pg_row t (c, h) = Some r \<and> P r}" by (auto simp: rows)
  also have "\<dots> = {h. \<exists>r. conf_row s c h = Some r \<and> P r}"
  proof (rule Collect_cong)
    fix h
    show "(\<exists>r. pg_row t (c, h) = Some r \<and> P r) \<longleftrightarrow> (\<exists>r. conf_row s c h = Some r \<and> P r)"
      using rel [of h] assms(3) by (cases "pg_row t (c, h)"; cases "conf_row s c h") auto
  qed
  also have "\<dots> = cf_TxHash ` {r. \<exists>h. conf_row s c h = Some r \<and> P r}"
    using mem_confirmation.row_key [of s c] assms(1,2) by (force simp: pg_sim_def)
  also have "\<dots> = cf_TxHash ` ?S" using conf_inv_rows [of s c P] assms(1,2) by (simp add: pg_sim_def)
  finally show ?thesis .
qed

text \<open>A listing of the map is the listing of the table, sorted by hash, row by row.\<close>

lemma pg_sim_listed:
  assumes "pg_sim ts t s" and "sep_free c" and "\<And>r r'. agrees ts r r' \<Longrightarrow> P r \<longleftrightarrow> P r'"
  shows "list_all2 (agrees ts) (sort_key cf_TxHash (filter (\<lambda>r. cf_ChainID r = c \<and> P r) t))
    (sort_key cf_TxHash (filter (\<lambda>r. cf_ChainID r = c \<and> P r) (map snd s)))" (is "list_all2 _ ?A ?B")
proof -
  let ?t = "filter (\<lambda>r. cf_ChainID r = c \<and> P r) t" and ?s = "filter (\<lambda>r. cf_ChainID r = c \<and> P r) (map snd s)"
  have "distinct (map (\<lambda>r. (cf_ChainID r, cf_TxHash r)) ?t)"
    using assms(1) by (simp add: pg_sim_def distinct_map_filter)
  then have "distinct (map cf_TxHash ?t)" by (auto simp: distinct_map inj_on_def)
  moreover have "distinct (map cf_TxHash ?s)" using assms(1) by (simp add: pg_sim_def conf_inv_hashes)
  ultimately have hashes: "map cf_TxHash ?A = map cf_TxHash ?B"
    using pg_sim_hashes [OF assms] by (intro sorted_distinct_set_unique) (auto simp: distinct_sort_key)
  then have len: "length ?A = length ?B" by (rule map_eq_imp_length_eq)
  moreover have "agrees ts (?A ! i) (?B ! i)" if "i < length ?A" for i
  proof (rule pg_sim_rows [OF assms(1,2)])
    have "?A ! i \<in> set ?A" using that by (rule nth_mem)
    moreover have "?B ! i \<in> set ?B" using that unfolding len by (rule nth_mem)
    ultimately show "?A ! i \<in> set t" "cf_ChainID (?A ! i) = c" "?B ! i \<in> set (map snd s)" "cf_ChainID (?B ! i) = c" by simp_all
    show "cf_TxHash (?A ! i) = cf_TxHash (?B ! i)"
      using arg_cong [OF hashes, of "\<lambda>l. l ! i"] that len by (simp only: nth_map)
  qed
  ultimately show ?thesis by (simp add: list_all2_conv_all_nth)
qed

section \<open>Properties\<close>

text \<open>
  C5. On a healthy database the PostgreSQL confirmation store refines the in-memory one: starting from
  related states, \<open>Get\<close>, \<open>Transition\<close> with the gateway's mutators, and \<open>Upsert\<close>, of a row that is there as
  the workers write it back or of a new one under an unused id, give related answers and related states; and the
  two listings of the in-memory store are those of the table, sorted by hash. Heights and counts
  have to fit a signed 64-bit column. Related rows differ at most in the id, the first-seen time and the rounding of times.
\<close>

theorem pg_refines_mem:
  assumes "pg_sim ts t s" and "\<forall>x. ts (ts x) = ts x" and "sep_free c"
  shows "rel_sum (=) (agrees ts) (pg_conf_Get None c h t) (conf_Get c h s)
    \<and> (mutator_fits m \<longrightarrow>
        rel_sum (=) (rel_option (agrees ts)) (fst (pg_conf_Transition ts None NoFault c h st to (apply_mutator m) t))
          (fst (conf_Transition c h st to (apply_mutator m) s)) \<and>
        pg_sim ts (snd (pg_conf_Transition ts None NoFault c h st to (apply_mutator m) t))
          (snd (conf_Transition c h st to (apply_mutator m) s)))
    \<and> (cf_ChainID x = c \<and> fits x \<and> (pg_row t (c, cf_TxHash x) = None \<longrightarrow> pg_id (cf_ID x) u \<notin> cf_ID ` set t) \<longrightarrow>
        fst (pg_conf_Upsert ts NoFault now u x t) = fst (conf_Upsert now u x s) \<and>
        pg_sim ts (snd (pg_conf_Upsert ts NoFault now u x t)) (snd (conf_Upsert now u x s)))
    \<and> (\<exists>rs rs'. pg_conf_ListByStatus None c st t = Inr rs \<and> conf_ListByStatus c st s = Inr rs' \<and>
        list_all2 (agrees ts) (sort_key cf_TxHash rs) rs')
    \<and> (fits_bigint n \<longrightarrow> (\<exists>rs rs'. pg_conf_ListAboveHeight None c n t = Inr rs \<and> conf_ListAboveHeight c n s = Inr rs' \<and>
        list_all2 (agrees ts) (sort_key cf_TxHash rs) rs'))"
proof (intro conjI impI)
  show "\<exists>rs rs'. pg_conf_ListByStatus None c st t = Inr rs \<and> conf_ListByStatus c st s = Inr rs' \<and>
        list_all2 (agrees ts) (sort_key cf_TxHash rs) rs'"
    using pg_sim_listed [OF assms(1,3), of "\<lambda>r. cf_Status r = st"]
    by (simp add: pg_conf_ListByStatus_def query_def conf_ListByStatus_def agrees_def)
  show "\<exists>rs rs'. pg_conf_ListAboveHeight None c n t = Inr rs \<and> conf_ListAboveHeight c n s = Inr rs' \<and>
        list_all2 (agrees ts) (sort_key cf_TxHash rs) rs'" if "fits_bigint n"
    using that pg_sim_listed [OF assms(1,3), of "\<lambda>r. n < cf_BlockHeight r"]
    by (simp add: pg_conf_ListAboveHeight_def query_def conf_ListAboveHeight_def agrees_def)
  assume x: "cf_ChainID x = c \<and> fits x \<and> (pg_row t (c, cf_TxHash x) = None \<longrightarrow> pg_id (cf_ID x) u \<notin> cf_ID ` set t)"
  have "fst (pg_conf_Upsert ts NoFault now u x t) = fst (conf_Upsert now u x s) \<and>
      pg_sim ts (snd (pg_conf_Upsert ts NoFault now u x t)) (snd (conf_Upsert now u x s))"
    using x assms(3) by (intro pg_sim_Upsert [OF assms(1,2)]) simp_all
  then show "fst (pg_conf_Upsert ts NoFault now u x t) = fst (conf_Upsert now u x s)"
    "pg_sim ts (snd (pg_conf_Upsert ts NoFault now u x t)) (snd (conf_Upsert now u x s))"
    by blast+
qed (use pg_sim_Get [OF assms(1,3)] pg_sim_Transition [OF assms] in blast)+

text \<open>
  C15. The array column of \<open>reorg_events\<close>: for hashes without commas and braces, \<open>List\<close> returns after
  \<open>Append\<close> the affected hashes as they were, the event being the newest, provided that the server
  returns the array literal as it was written.
\<close>

theorem pg_reorg_roundtrip:
  assumes "list_all plain_element (re_AffectedTxHashes e)" and "arr (pqArray (re_AffectedTxHashes e)) = Some (pqArray (re_AffectedTxHashes e))"
    and "fits_bigint (re_CommonAncestorHeight e)" and "\<forall>r \<in> set t. re_ID (pr_event r) \<noteq> pg_id (re_ID e) u"
    and "\<forall>r \<in> set t. re_DetectedAt (pr_event r) \<le> ts (re_DetectedAt e)"
  shows "\<exists>t'. pg_reorg_Append ts arr NoFault now u e t = (Inr (), t') \<and>
    (\<exists>es. pg_reorg_List None (re_ChainID e) t = Inr es \<and>
      pg_reorg_List None (re_ChainID e) t' = Inr (es @ [e\<lparr>re_ID := pg_id (re_ID e) u, re_DetectedAt := ts (re_DetectedAt e)\<rparr>]))"
proof -
  let ?r = "\<lparr>pr_event = e\<lparr>re_ID := pg_id (re_ID e) u, re_DetectedAt := ts (re_DetectedAt e)\<rparr>,
    pr_affected = pqArray (re_AffectedTxHashes e)\<rparr>"
  have "\<not> list_ex (\<lambda>r. re_ID (pr_event r) = pg_id (re_ID e) u) t" using assms(4) by (auto simp: list_ex_iff)
  then have app: "pg_reorg_Append ts arr NoFault now u e t = (Inr (), t @ [?r])"
    using assms(2,3) by (simp add: pg_reorg_Append_def statement_def)
  let ?own = "filter (\<lambda>r. re_ChainID (pr_event r) = re_ChainID e) t"
  have "sort_key (\<lambda>r. re_DetectedAt (pr_event r)) (?own @ [?r]) = sort_key (\<lambda>r. re_DetectedAt (pr_event r)) ?own @ [?r]"
    using assms(5) by (intro sort_key_snoc) auto
  then show ?thesis
    unfolding app using parseArray_pqArray [OF assms(1)] by (simp add: pg_reorg_List_def query_def)
qed

section \<open>Instances of the properties\<close>

theorem pg_transitions_follow_lifecycle_witness:
  "\<exists>r'. pg_conf_Get None ''ethereum'' ''0xab'' (run (pg_transition_step (\<lambda>x. x)) [sample_row StatusConfirmed]
      [PgCall None (FailAfter (ErrRemote ''lost'')) (TransitionCall ''ethereum'' ''0xab'' StatusConfirmed StatusFinalized (MutFinal 3 9)),
       PgCall None NoFault (TransitionCall ''ethereum'' ''0xab'' StatusConfirmed StatusReorgedOut MutNone)]) = Inr r'"
proof -
  have "pg_conf_Get None ''ethereum'' ''0xab'' [sample_row StatusConfirmed] = Inr (sample_row StatusConfirmed)"
    by (simp add: pg_conf_Get_def query_def is_confirmation_def sample_row_def)
  from pg_transitions_follow_lifecycle [OF this, of "\<lambda>x. x"
      "[PgCall None (FailAfter (ErrRemote ''lost'')) (TransitionCall ''ethereum'' ''0xab'' StatusConfirmed StatusFinalized (MutFinal 3 9)),
        PgCall None NoFault (TransitionCall ''ethereum'' ''0xab'' StatusConfirmed StatusReorgedOut MutNone)]"]
  show ?thesis by blast
qed

lemma sample_pg_sim: "pg_sim (\<lambda>x. x) [sample_row StatusConfirmed] (sample_confs StatusConfirmed)"
proof -
  have "sep_free ''ethereum''" by (simp add: sep_free_def)
  then have "rel_option (agrees (\<lambda>x. x)) (pg_row [sample_row StatusConfirmed] (c, h)) (conf_row (sample_confs StatusConfirmed) c h)"
    if "sep_free c" for c h
    using that by (auto simp: pg_row_def is_confirmation_def conf_row_def sample_confs_def sample_row_def agrees_def)
  then show ?thesis
    using \<open>sep_free ''ethereum''\<close> by (simp add: pg_sim_def fits_def fits_bigint_def) (simp add: sample_row_def)
qed

theorem pg_refines_mem_witness:
  "pg_sim (\<lambda>x. x)
     (snd (pg_conf_Transition (\<lambda>x. x) None NoFault ''ethereum'' ''0xab'' StatusConfirmed StatusFinalized (apply_mutator (MutFinal 3 9))
        [sample_row StatusConfirmed]))
     (snd (conf_Transition ''ethereum'' ''0xab'' StatusConfirmed StatusFinalized (apply_mutator (MutFinal 3 9)) (sample_confs StatusConfirmed)))"
proof -
  have "sep_free ''ethereum''" and "mutator_fits (MutFinal 3 9)" by (simp_all add: sep_free_def fits_bigint_def)
  then show ?thesis
    using pg_refines_mem [OF sample_pg_sim, of "''ethereum''" "''0xab''" "MutFinal 3 9" StatusConfirmed StatusFinalized
        "sample_row StatusMempool" 1 1 0]
    by blast
qed

definition sample_reorg_event :: reorg_event where
  "sample_reorg_event = \<lparr>re_ID = 0, re_ChainID = ''ethereum'', re_DetectedAt = 5, re_OldTipHash = ''0x1'', re_NewTipHash = ''0x2'',
     re_CommonAncestorHeight = 7, re_AffectedTxHashes = [''0xab'', ''0xcd'']\<rparr>"

theorem pg_reorg_roundtrip_witness:
  "\<exists>t'. pg_reorg_Append (\<lambda>x. x) Some NoFault 6 9 sample_reorg_event [] = (Inr (), t') \<and>
    pg_reorg_List None ''ethereum'' t' = Inr [sample_reorg_event\<lparr>re_ID := 9\<rparr>]"
proof -
  have "list_all plain_element (re_AffectedTxHashes sample_reorg_event)" "fits_bigint (re_CommonAncestorHeight sample_reorg_event)"
    by (simp_all add: sample_reorg_event_def plain_element_def fits_bigint_def)
  from pg_reorg_roundtrip [OF this(1) _ this(2), of Some "[]" 9 "\<lambda>x. x" 6]
  show ?thesis by (simp add: sample_reorg_event_def pg_reorg_List_def query_def pg_id_def)
qed

end
