(* ===== verification/Migrate_Cmd.thy ===== *)
theory Migrate_Cmd
  imports Postgres_Store
begin

text \<open>
  The command \<open>cmd/migrate/main.go\<close>: its flags as the \<open>flag\<close> package parses them, the order of its
  checks and their exit codes, and the effect of the two scripts, \<open>internal/store/postgres/migrations/001_init.sql\<close>
  and \<open>dropSQL\<close>, on the tables and indexes of the database. A script is one statement for the database: it takes
  effect as a whole or not at all.
\<close>

section \<open>The schema\<close>

text \<open>
  A table that does not exist is \<open>None\<close>; an index goes away with its table. The columns of a table are those of its row type; only for
  \<open>chain_tips\<close> do they differ from the statements of its store (\<open>chain_tips_columns\<close>, \<open>tip_columns\<close>).
\<close>

record pg_schema =
  ps_broadcasts :: "broadcast_row list option"
  ps_confirmations :: "confirmation list option"
  ps_tips :: "tip_row list option"
  ps_fees :: "fee_row list option"
  ps_reorgs :: "pg_reorg_row list option"
  ps_reorgs_idx :: bool
  ps_outbox :: "pg_outbox_row list option"
  ps_outbox_idx :: bool

definition create_table :: "'a list option \<Rightarrow> 'a list option" where
  "create_table t = (case t of None \<Rightarrow> Some [] | Some rows \<Rightarrow> Some rows)"

definition InitSQL :: "pg_schema \<Rightarrow> pg_schema" where
  "InitSQL s =
     (let s = s\<lparr>ps_broadcasts := create_table (ps_broadcasts s)\<rparr>;
          s = s\<lparr>ps_confirmations := create_table (ps_confirmations s)\<rparr>;
          s = s\<lparr>ps_tips := create_table (ps_tips s)\<rparr>;
          s = s\<lparr>ps_fees := create_table (ps_fees s)\<rparr>;
          s = s\<lparr>ps_reorgs := create_table (ps_reorgs s)\<rparr>;
          s = s\<lparr>ps_reorgs_idx := True\<rparr>;
          s = s\<lparr>ps_outbox := create_table (ps_outbox s)\<rparr> in
      s\<lparr>ps_outbox_idx := True\<rparr>)"

definition dropSQL :: "pg_schema \<Rightarrow> pg_schema" where
  "dropSQL s =
     (let s = s\<lparr>ps_outbox_idx := False\<rparr>;
          s = s\<lparr>ps_outbox := None, ps_outbox_idx := False\<rparr>;
          s = s\<lparr>ps_reorgs_idx := False\<rparr>;
          s = s\<lparr>ps_reorgs := None, ps_reorgs_idx := False\<rparr>;
          s = s\<lparr>ps_fees := None\<rparr>;
          s = s\<lparr>ps_tips := None\<rparr>;
          s = s\<lparr>ps_confirmations := None\<rparr> in
      s\<lparr>ps_broadcasts := None\<rparr>)"

text \<open>A database with all six tables.\<close>

definition schema_db :: "pg_schema \<Rightarrow> pg_db option" where
  "schema_db s =
     (case (ps_broadcasts s, ps_confirmations s, ps_tips s, ps_fees s, ps_reorgs s, ps_outbox s) of
        (Some b, Some c, Some t, Some f, Some r, Some x) \<Rightarrow>
          Some \<lparr>db_broadcasts = b, db_confirmations = c, db_tips = t, db_fees = f, db_reorgs = r, db_outbox = x\<rparr>
      | _ \<Rightarrow> None)"

definition bare_schema :: pg_schema where
  "bare_schema = \<lparr>ps_broadcasts = None, ps_confirmations = None, ps_tips = None, ps_fees = None, ps_reorgs = None,
     ps_reorgs_idx = False, ps_outbox = None, ps_outbox_idx = False\<rparr>"

section \<open>Flags\<close>

text \<open>
  \<open>flag.Parse\<close> for the two boolean flags: an argument that is no flag, or two dashes, ends the flags; one or two
  dashes introduce a name, after which an equals sign may give a value; \<open>help\<close> and \<open>h\<close> print the usage.
\<close>

definition ParseBool :: "string \<Rightarrow> bool option" where
  "ParseBool v =
     (if v \<in> set [''1'', ''t'', ''T'', ''true'', ''TRUE'', ''True''] then Some True
      else if v \<in> set [''0'', ''f'', ''F'', ''false'', ''FALSE'', ''False''] then Some False
      else None)"

datatype flags = FlagHelp | FlagError | Flags bool bool

text \<open>A value after the name and an equals sign, which cannot be the first character of the name.\<close>

definition flag_split :: "string \<Rightarrow> string \<times> string option" where
  "flag_split arg = (let (name, val) = go_cut CHR ''='' (tl arg) in (hd arg # name, val))"

fun parse_flags :: "string list \<Rightarrow> bool \<Rightarrow> bool \<Rightarrow> flags" where
  "parse_flags [] up down = Flags up down"
| "parse_flags (s # args) up down =
     (if length s < 2 \<or> hd s \<noteq> CHR ''-'' \<or> s = ''--'' then Flags up down
      else
        (let arg = (if s ! 1 = CHR ''-'' then drop 2 s else drop 1 s) in
         if arg = [] \<or> hd arg = CHR ''-'' \<or> hd arg = CHR ''='' then FlagError
         else
           (let (name, val) = flag_split arg in
            if name = ''up'' \<or> name = ''down'' then
              (case (case val of None \<Rightarrow> Some True | Some v \<Rightarrow> ParseBool v) of
                 None \<Rightarrow> FlagError
               | Some b \<Rightarrow> if name = ''up'' then parse_flags args b down else parse_flags args up b)
            else if name = ''help'' \<or> name = ''h'' then FlagHelp
            else FlagError)))"

section \<open>The command\<close>

text \<open>
  What the database answers: the errors of opening, of the ping and of the script. The result is the exit code,
  the words and the error printed, and the schema. A flag that cannot be parsed ends the process with code 2,
  the usage asked for with code 0.
\<close>

record migrate_faults =
  mf_open :: "error option"
  mf_ping :: "error option"
  mf_exec :: "error option"

record migrate_exit =
  me_code :: nat
  me_says :: string
  me_err :: "error option"
  me_schema :: pg_schema

definition migrate_fail :: "nat \<Rightarrow> string \<Rightarrow> error option \<Rightarrow> pg_schema \<Rightarrow> migrate_exit" where
  "migrate_fail code says err s = \<lparr>me_code = code, me_says = says, me_err = err, me_schema = s\<rparr>"

definition migrate_main ::
  "migrate_faults \<Rightarrow> (string \<Rightarrow> string) \<Rightarrow> string list \<Rightarrow> pg_schema \<Rightarrow> migrate_exit" where
  "migrate_main f env args s =
     (case parse_flags args False False of
        FlagHelp \<Rightarrow> migrate_fail 0 ''usage'' None s
      | FlagError \<Rightarrow> migrate_fail 2 ''usage'' None s
      | Flags up down \<Rightarrow>
          if \<not> up \<and> \<not> down then migrate_fail 2 ''usage: migrate [--up|--down]'' None s
          else if env ''DB_URL'' = [] then migrate_fail 1 ''DB_URL is required'' None s
          else
            (case mf_open f of
               Some err \<Rightarrow> migrate_fail 1 ''open db:'' (Some err) s
             | None \<Rightarrow>
            (case mf_ping f of
               Some err \<Rightarrow> migrate_fail 1 ''ping db:'' (Some err) s
             | None \<Rightarrow>
                 if up then
                   (case mf_exec f of
                      Some err \<Rightarrow> migrate_fail 1 ''migrate up:'' (Some err) s
                    | None \<Rightarrow> \<lparr>me_code = 0, me_says = ''migrations applied'', me_err = None, me_schema = InitSQL s\<rparr>)
                 else
                   (case mf_exec f of
                      Some err \<Rightarrow> migrate_fail 1 ''migrate down:'' (Some err) s
                    | None \<Rightarrow> \<lparr>me_code = 0, me_says = ''schema dropped'', me_err = None, me_schema = dropSQL s\<rparr>))))"

section \<open>The scripts\<close>

lemma create_table_simps [simp]:
  "create_table None = Some []" "create_table (Some rows) = Some rows" "create_table (create_table t) = create_table t"
  by (auto simp: create_table_def split: option.split)

lemma InitSQL_idem: "InitSQL (InitSQL s) = InitSQL s"
  by (simp add: InitSQL_def Let_def)

lemma dropSQL_bare: "dropSQL s = bare_schema"
  by (simp add: dropSQL_def bare_schema_def Let_def)

lemma schema_db_InitSQL:
  "schema_db (InitSQL s) = Some
    \<lparr>db_broadcasts = (case ps_broadcasts s of None \<Rightarrow> [] | Some t \<Rightarrow> t),
     db_confirmations = (case ps_confirmations s of None \<Rightarrow> [] | Some t \<Rightarrow> t),
     db_tips = (case ps_tips s of None \<Rightarrow> [] | Some t \<Rightarrow> t), db_fees = (case ps_fees s of None \<Rightarrow> [] | Some t \<Rightarrow> t),
     db_reorgs = (case ps_reorgs s of None \<Rightarrow> [] | Some t \<Rightarrow> t), db_outbox = (case ps_outbox s of None \<Rightarrow> [] | Some t \<Rightarrow> t)\<rparr>"
  by (simp add: schema_db_def InitSQL_def create_table_def Let_def split: option.split)

section \<open>The flags\<close>

lemma flag_split_plain: "CHR ''='' \<notin> set arg \<Longrightarrow> arg \<noteq> [] \<Longrightarrow> flag_split arg = (arg, None)"
  by (cases arg) (auto simp: flag_split_def go_cut_free)

text \<open>The documented calls, with one dash or two, alone or after each other: the last value of each flag counts.\<close>

lemma parse_flags_calls [simp]:
  "parse_flags (''--up'' # args) u d = parse_flags args True d" "parse_flags (''-up'' # args) u d = parse_flags args True d"
  "parse_flags (''--down'' # args) u d = parse_flags args u True" "parse_flags (''-down'' # args) u d = parse_flags args u True"
  by (simp_all add: flag_split_plain)

declare parse_flags.simps(2) [simp del]

text \<open>
  The exit code tells what happened: 0 exactly when the usage was asked for or the script of the flags was applied,
  \<open>--up\<close> before \<open>--down\<close> when both are given. Any other code leaves the schema as it was; it is 2 for the flags and 1 for a missing
  \<open>DB_URL\<close> or an error of the database.
\<close>

theorem migrate_exit_code:
  "me_code (migrate_main f env args s) \<in> {0, 1, 2} \<and>
   (me_code (migrate_main f env args s) = 2 \<longleftrightarrow> parse_flags args False False \<in> {FlagError, Flags False False}) \<and>
   (me_code (migrate_main f env args s) = 0 \<longleftrightarrow> parse_flags args False False = FlagHelp \<or>
      parse_flags args False False \<notin> {FlagError, Flags False False} \<and> env ''DB_URL'' \<noteq> [] \<and>
      mf_open f = None \<and> mf_ping f = None \<and> mf_exec f = None) \<and>
   me_schema (migrate_main f env args s) =
     (if me_code (migrate_main f env args s) = 0 then
        (case parse_flags args False False of
           Flags True _ \<Rightarrow> InitSQL s | Flags False True \<Rightarrow> dropSQL s | _ \<Rightarrow> s)
      else s)"
  by (auto simp: migrate_main_def migrate_fail_def split: flags.splits option.splits bool.splits)

definition db_ok :: migrate_faults where
  "db_ok = \<lparr>mf_open = None, mf_ping = None, mf_exec = None\<rparr>"

text \<open>
  C16. The round trip on a database that answers: \<open>--up\<close> makes a database with all six tables and keeps every row
  of a table that exists, doing it again changes nothing, and \<open>--down\<close> followed by \<open>--up\<close> gives the six tables
  without a row, whatever was there before.
\<close>

theorem migrate_roundtrip:
  assumes "env ''DB_URL'' \<noteq> []" and "up = (\<lambda>s. me_schema (migrate_main db_ok env [''--up''] s))"
    and "down = (\<lambda>s. me_schema (migrate_main db_ok env [''--down''] s))"
  shows "(\<exists>db. schema_db (up s) = Some db \<and> (\<forall>db'. schema_db s = Some db' \<longrightarrow> db = db')) \<and> up (up s) = up s \<and>
    down (up s) = bare_schema \<and>
    schema_db (up (down s)) = Some \<lparr>db_broadcasts = [], db_confirmations = [], db_tips = [], db_fees = [], db_reorgs = [], db_outbox = []\<rparr>"
proof -
  have u: "up = InitSQL" and d: "down = dropSQL"
    using assms by (simp_all add: migrate_main_def db_ok_def fun_eq_iff)
  have "schema_db s = Some db' \<Longrightarrow> schema_db (InitSQL s) = Some db'" for db'
    unfolding schema_db_InitSQL by (auto simp: schema_db_def split: option.splits prod.splits)
  then show ?thesis
    unfolding u d using schema_db_InitSQL [of s] by (auto simp: InitSQL_idem dropSQL_bare schema_db_InitSQL bare_schema_def)
qed

theorem migrate_roundtrip_witness:
  "schema_db (me_schema (migrate_main db_ok (\<lambda>_. ''postgres://db'') [''--up''] bare_schema)) \<noteq> None"
  using migrate_roundtrip [OF _ refl refl, of "\<lambda>_. ''postgres://db''" bare_schema] by auto

end
