(* ===== verification/Nonce.thy ===== *)
theory Nonce
  imports Chain_Types
begin

text \<open>
  The nonce coordinator of \<open>internal/prepayment/nonce.go\<close>: the Redis interface it uses, the
  in-memory client, the lock with its time to live, and the counter that hands out nonces. A key's
  value is what a client reads at a given time; the contract of the interface is a locale that the
  in-memory client is shown to satisfy.
\<close>

section \<open>The Redis interface\<close>

text \<open>An operation that reads the clock takes its readings; \<open>SetNX\<close> reads it twice.\<close>

record 'r redis_client =
  rc_SetNX :: "time \<Rightarrow> time \<Rightarrow> string \<Rightarrow> string \<Rightarrow> duration \<Rightarrow> 'r \<Rightarrow> bool result \<times> 'r"
  rc_Set :: "time \<Rightarrow> string \<Rightarrow> string \<Rightarrow> duration \<Rightarrow> 'r \<Rightarrow> unit result \<times> 'r"
  rc_Del :: "string \<Rightarrow> 'r \<Rightarrow> int result \<times> 'r"
  rc_Get :: "time \<Rightarrow> string \<Rightarrow> 'r \<Rightarrow> string result \<times> 'r"
  rc_Incr :: "string \<Rightarrow> 'r \<Rightarrow> 64 word result \<times> 'r"

locale redis_contract =
  fixes ops :: "'r redis_client"
    and val :: "time \<Rightarrow> 'r \<Rightarrow> string \<Rightarrow> string option"
    and inv :: "'r \<Rightarrow> bool"
  assumes Get_fst: "inv r \<Longrightarrow> fst (rc_Get ops now k r) =
      (case val now r k of None \<Rightarrow> Inl ErrNoKey | Some v \<Rightarrow> Inr v)"
    and Get_val: "inv r \<Longrightarrow> now \<le> t \<Longrightarrow> val t (snd (rc_Get ops now k r)) k' = val t r k'"
    and Get_inv: "inv r \<Longrightarrow> inv (snd (rc_Get ops now k r))"
    and Set_ok: "fst (rc_Set ops now k v ttl r) = Inr ()"
    and Set_val: "inv r \<Longrightarrow> 0 < ttl \<Longrightarrow> val t (snd (rc_Set ops now k v ttl r)) k' =
      (if k' = k then if t < now + ttl then Some v else None else val t r k')"
    and Set_inv: "inv r \<Longrightarrow> 0 < ttl \<Longrightarrow> inv (snd (rc_Set ops now k v ttl r))"
    and SetNX_fst: "inv r \<Longrightarrow> 0 < ttl \<Longrightarrow> fst (rc_SetNX ops now now' k v ttl r) = Inr (val now r k = None)"
    and SetNX_val: "inv r \<Longrightarrow> 0 < ttl \<Longrightarrow> val t (snd (rc_SetNX ops now now' k v ttl r)) k' =
      (if k' = k \<and> val now r k = None then if t < now' + ttl then Some v else None else val t r k')"
    and SetNX_inv: "inv r \<Longrightarrow> 0 < ttl \<Longrightarrow> inv (snd (rc_SetNX ops now now' k v ttl r))"
    and Del_val: "inv r \<Longrightarrow> val t (snd (rc_Del ops k r)) k' = (if k' = k then None else val t r k')"
    and Del_inv: "inv r \<Longrightarrow> inv (snd (rc_Del ops k r))"

section \<open>The in-memory client\<close>

record mem_redis =
  mr_data :: "(string, string) gomap"
  mr_exp :: "(string, time) gomap"

definition NewMemRedis :: mem_redis where
  "NewMemRedis = \<lparr>mr_data = [], mr_exp = []\<rparr>"

text \<open>The store with its expiry, shared by \<open>SetNX\<close> and \<open>Set\<close>.\<close>

definition redis_put :: "time \<Rightarrow> string \<Rightarrow> string \<Rightarrow> duration \<Rightarrow> mem_redis \<Rightarrow> mem_redis" where
  "redis_put now k v ttl m =
     m\<lparr>mr_data := AList.update k v (mr_data m),
       mr_exp := (if ttl > 0 then AList.update k (now + ttl) (mr_exp m) else AList.delete k (mr_exp m))\<rparr>"

definition redis_SetNX ::
  "time \<Rightarrow> time \<Rightarrow> string \<Rightarrow> string \<Rightarrow> duration \<Rightarrow> mem_redis \<Rightarrow> bool result \<times> mem_redis" where
  "redis_SetNX now now' k v ttl m =
     (if map_of (mr_data m) k \<noteq> None \<and> (case map_of (mr_exp m) k of Some e \<Rightarrow> now < e | None \<Rightarrow> False)
      then (Inr False, m)
      else (Inr True, redis_put now' k v ttl m))"

definition redis_Set :: "time \<Rightarrow> string \<Rightarrow> string \<Rightarrow> duration \<Rightarrow> mem_redis \<Rightarrow> unit result \<times> mem_redis" where
  "redis_Set now k v ttl m = (Inr (), redis_put now k v ttl m)"

definition redis_Del :: "string \<Rightarrow> mem_redis \<Rightarrow> int result \<times> mem_redis" where
  "redis_Del k m =
     (case map_of (mr_data m) k of
        Some _ \<Rightarrow> (Inr 1, m\<lparr>mr_data := AList.delete k (mr_data m), mr_exp := AList.delete k (mr_exp m)\<rparr>)
      | None \<Rightarrow> (Inr 0, m))"

definition redis_Get :: "time \<Rightarrow> string \<Rightarrow> mem_redis \<Rightarrow> string result \<times> mem_redis" where
  "redis_Get now k m =
     (let m = (case map_of (mr_exp m) k of
                 Some e \<Rightarrow> if \<not> now < e then m\<lparr>mr_data := AList.delete k (mr_data m),
                             mr_exp := AList.delete k (mr_exp m)\<rparr> else m
               | None \<Rightarrow> m)
      in case map_of (mr_data m) k of None \<Rightarrow> (Inl ErrNoKey, m) | Some v \<Rightarrow> (Inr v, m))"

text \<open>
  \<open>Incr\<close> scans a signed 64-bit number with \<open>Sscanf\<close> and prints the incremented one; a value that
  does not scan counts as zero.
\<close>

definition sscanf_i64 :: "string \<Rightarrow> 64 word option" where
  "sscanf_i64 s =
     (let s = dropWhile go_blank s;
          neg = has_prefix s ''-'';
          s = (if neg \<or> has_prefix s ''+'' then tl s else s);
          ds = takeWhile is_digit s;
          n = (if neg then - int (digits_value 10 ds) else int (digits_value 10 ds)) in
      if ds \<noteq> [] \<and> - (2 ^ 63) \<le> n \<and> n < 2 ^ 63 then Some (word_of_int n) else None)"

definition decimal_i64 :: "64 word \<Rightarrow> string" where
  "decimal_i64 w = (if sint w < 0 then ''-'' @ decimal (nat (- sint w)) else decimal (nat (sint w)))"

definition redis_Incr :: "string \<Rightarrow> mem_redis \<Rightarrow> 64 word result \<times> mem_redis" where
  "redis_Incr k m =
     (let cur = (case map_of (mr_data m) k of
                   Some v \<Rightarrow> (case sscanf_i64 v of Some n \<Rightarrow> n | None \<Rightarrow> 0)
                 | None \<Rightarrow> 0) + 1
      in (Inr cur, m\<lparr>mr_data := AList.update k (decimal_i64 cur) (mr_data m)\<rparr>))"

definition mem_redis_client :: "mem_redis redis_client" where
  "mem_redis_client = \<lparr>rc_SetNX = redis_SetNX, rc_Set = redis_Set, rc_Del = redis_Del, rc_Get = redis_Get,
     rc_Incr = redis_Incr\<rparr>"

section \<open>The coordinator\<close>

record coordinator =
  co_lockTTL :: duration
  co_lockWait :: duration

definition NewCoordinator :: "duration \<Rightarrow> duration \<Rightarrow> coordinator" where
  "NewCoordinator lockTTL lockWait =
     \<lparr>co_lockTTL = (if lockTTL \<le> 0 then 10 * 1000000000 else lockTTL),
      co_lockWait = (if lockWait \<le> 0 then 5 * 1000000000 else lockWait)\<rparr>"

definition lockKey :: "string \<Rightarrow> string \<Rightarrow> string" where
  "lockKey chainID addr = ''nonce:lock:'' @ chainID @ '':'' @ addr"

definition nextKey :: "string \<Rightarrow> string \<Rightarrow> string" where
  "nextKey chainID addr = ''nonce:next:'' @ chainID @ '':'' @ addr"

text \<open>
  One round of the waiting loop: the clock readings of \<open>SetNX\<close> and of the deadline test, and whether
  the select that follows finds the context done.
\<close>

record attempt =
  at_now :: time
  at_now' :: time
  at_check :: time
  at_done :: bool

text \<open>
  \<open>None\<close> is a loop still waiting when the rounds given are used up. The release function the code
  returns is \<open>release_lock\<close>.
\<close>

fun acquire_loop ::
  "'r redis_client \<Rightarrow> duration \<Rightarrow> time \<Rightarrow> string \<Rightarrow> string \<Rightarrow> attempt list \<Rightarrow> 'r \<Rightarrow> unit result option \<times> 'r" where
  "acquire_loop ops ttl deadline k token [] r = (None, r)"
| "acquire_loop ops ttl deadline k token (a # as) r =
     (case rc_SetNX ops (at_now a) (at_now' a) k token ttl r of
        (Inl err, r') \<Rightarrow> (Some (Inl err), r')
      | (Inr ok, r') \<Rightarrow>
          if ok then (Some (Inr ()), r')
          else if at_check a > deadline then (Some (Inl ErrLockBusy), r')
          else if at_done a then (Some (Inl ErrContextDone), r')
          else acquire_loop ops ttl deadline k token as r')"

definition AcquireLock ::
  "'r redis_client \<Rightarrow> coordinator \<Rightarrow> time \<Rightarrow> string \<Rightarrow> string \<Rightarrow> string \<Rightarrow> attempt list \<Rightarrow> 'r \<Rightarrow>
    unit result option \<times> 'r" where
  "AcquireLock ops co start token chainID addr as r =
     acquire_loop ops (co_lockTTL co) (start + co_lockWait co) (lockKey chainID addr) token as r"

definition release_lock :: "'r redis_client \<Rightarrow> string \<Rightarrow> string \<Rightarrow> 'r \<Rightarrow> 'r" where
  "release_lock ops chainID addr r = snd (rc_Del ops (lockKey chainID addr) r)"

definition nonce_ttl :: duration where
  "nonce_ttl = 24 * 3600 * 1000000000"

definition setKey :: "'r redis_client \<Rightarrow> time \<Rightarrow> string \<Rightarrow> string \<Rightarrow> 'r \<Rightarrow> unit result \<times> 'r" where
  "setKey ops now k v r = rc_Set ops now k v nonce_ttl r"

text \<open>
  \<open>NextNonce\<close> once the counter has been read: \<open>val\<close> is what \<open>Get\<close> answered. The seed comes from the
  wallet service, with a state \<open>'w\<close> of its own.
\<close>

definition NextNonce_from ::
  "'r redis_client \<Rightarrow> time \<Rightarrow> string \<Rightarrow> string \<Rightarrow> ('w \<Rightarrow> u64 result \<times> 'w) \<Rightarrow> string result \<Rightarrow> 'r \<Rightarrow> 'w \<Rightarrow>
    u64 result \<times> 'r \<times> 'w" where
  "NextNonce_from ops now chainID addr seedFromWallet val r w =
     (let k = nextKey chainID addr;
          seeding = (case seedFromWallet w of
              (Inl err, w') \<Rightarrow> (Inl err, r, w')
            | (Inr seed, w') \<Rightarrow> (Inr seed, snd (setKey ops now k (decimal (unat (seed + 1))) r), w')) in
      case val of
        Inr v \<Rightarrow>
          (case sscanf_d v of
             Some cur \<Rightarrow> (Inr cur, snd (setKey ops now k (decimal (unat (cur + 1))) r), w)
           | None \<Rightarrow> seeding)
      | Inl ErrNoKey \<Rightarrow> seeding
      | Inl err \<Rightarrow> (Inl err, r, w))"

definition NextNonce ::
  "'r redis_client \<Rightarrow> time \<Rightarrow> time \<Rightarrow> string \<Rightarrow> string \<Rightarrow> ('w \<Rightarrow> u64 result \<times> 'w) \<Rightarrow> 'r \<Rightarrow> 'w \<Rightarrow>
    u64 result \<times> 'r \<times> 'w" where
  "NextNonce ops now now' chainID addr seedFromWallet r w =
     (let (val, r') = rc_Get ops now (nextKey chainID addr) r
      in NextNonce_from ops now' chainID addr seedFromWallet val r' w)"

section \<open>The in-memory client meets the contract\<close>

definition redis_val :: "time \<Rightarrow> mem_redis \<Rightarrow> string \<Rightarrow> string option" where
  "redis_val t m k =
     (case map_of (mr_exp m) k of None \<Rightarrow> None | Some e \<Rightarrow> if t < e then map_of (mr_data m) k else None)"

definition redis_inv :: "mem_redis \<Rightarrow> bool" where
  "redis_inv m \<longleftrightarrow> (\<forall>k. map_of (mr_data m) k \<noteq> None \<longleftrightarrow> map_of (mr_exp m) k \<noteq> None)"

lemma redis_inv_dest: "redis_inv m \<Longrightarrow> map_of (mr_exp m) k = None \<Longrightarrow> map_of (mr_data m) k = None"
  "redis_inv m \<Longrightarrow> map_of (mr_data m) k = None \<Longrightarrow> map_of (mr_exp m) k = None"
  by (metis redis_inv_def)+

interpretation mem_redis: redis_contract mem_redis_client redis_val redis_inv
  by unfold_locales
    (auto simp: mem_redis_client_def redis_SetNX_def redis_Set_def redis_Del_def redis_Get_def redis_put_def
      redis_val_def redis_inv_def Let_def split: option.splits dest: redis_inv_dest)

section \<open>The coordinator over any client that meets the contract\<close>

lemma nonce_ttl_pos [simp]: "0 < nonce_ttl"
  by (simp add: nonce_ttl_def)

lemma NewCoordinator_pos [simp]: "0 < co_lockTTL (NewCoordinator ttl wait)"
  by (simp add: NewCoordinator_def)

text \<open>
  Successive calls under the lock, each with the times of its read and its write. The calls are paced:
  time does not run backwards, and no call comes a day or more after the write before it.
\<close>

fun nonce_run ::
  "'r redis_client \<Rightarrow> string \<Rightarrow> string \<Rightarrow> ('w \<Rightarrow> u64 result \<times> 'w) \<Rightarrow> (time \<times> time) list \<Rightarrow> 'r \<Rightarrow> 'w \<Rightarrow>
    u64 result list \<times> 'r \<times> 'w" where
  "nonce_run ops c a seed [] r w = ([], r, w)"
| "nonce_run ops c a seed ((g, s) # ts) r w =
     (let (n, r1, w1) = NextNonce ops g s c a seed r w; (ns, r2, w2) = nonce_run ops c a seed ts r1 w1
      in (n # ns, r2, w2))"

fun paced :: "time \<Rightarrow> (time \<times> time) list \<Rightarrow> bool" where
  "paced s [] \<longleftrightarrow> True"
| "paced s ((g, s') # ts) \<longleftrightarrow> s \<le> g \<and> g < s + nonce_ttl \<and> g \<le> s' \<and> paced s' ts"

context redis_contract
begin

definition counter_is :: "string \<Rightarrow> string \<Rightarrow> time \<Rightarrow> u64 \<Rightarrow> 'r \<Rightarrow> bool" where
  "counter_is c a s n r \<longleftrightarrow>
     (\<forall>t \<ge> s. val t r (nextKey c a) = (if t < s + nonce_ttl then Some (decimal (unat n)) else None))"

lemma setKey_counter:
  assumes "inv r"
  shows "inv (snd (setKey ops s (nextKey c a) (decimal (unat n)) r)) \<and>
    counter_is c a s n (snd (setKey ops s (nextKey c a) (decimal (unat n)) r))"
  using assms by (simp add: setKey_def Set_inv Set_val counter_is_def)

lemma NextNonce_counts:
  assumes "inv r" and "val g r (nextKey c a) = Some (decimal (unat n))"
  shows "\<exists>r'. NextNonce ops g s c a seed r w = (Inr n, r', w) \<and> inv r' \<and> counter_is c a s (n + 1) r'"
proof -
  have "fst (rc_Get ops g (nextKey c a) r) = Inr (decimal (unat n))" using assms by (simp add: Get_fst)
  with setKey_counter [OF Get_inv [OF assms(1)], of s c a "n + 1"] show ?thesis
    by (auto simp: NextNonce_def NextNonce_from_def Let_def case_prod_unfold)
qed

lemma NextNonce_seeds:
  assumes "inv r" and "val g r (nextKey c a) = None" and "seed w = (Inr n, w')"
  shows "\<exists>r'. NextNonce ops g s c a seed r w = (Inr n, r', w') \<and> inv r' \<and> counter_is c a s (n + 1) r'"
proof -
  have "fst (rc_Get ops g (nextKey c a) r) = Inl ErrNoKey" using assms by (simp add: Get_fst)
  with setKey_counter [OF Get_inv [OF assms(1)], of s c a "n + 1"] assms(3) show ?thesis
    by (auto simp: NextNonce_def NextNonce_from_def Let_def case_prod_unfold)
qed

lemma nonce_run_counts:
  assumes "inv r" and "counter_is c a s n r" and "paced s ts"
  shows "\<exists>r'. nonce_run ops c a seed ts r w = (map (\<lambda>i. Inr (n + of_nat i)) [0..<length ts], r', w)"
  using assms
proof (induction ts arbitrary: r s n)
  case (Cons t ts)
  obtain g s' where t: "t = (g, s')" by (cases t)
  then have "val g r (nextKey c a) = Some (decimal (unat n))"
    using Cons.prems(2,3) by (simp add: counter_is_def)
  from NextNonce_counts [OF Cons.prems(1) this, of s' seed w]
  obtain r1 where r1: "NextNonce ops g s' c a seed r w = (Inr n, r1, w)" "inv r1" "counter_is c a s' (n + 1) r1"
    by blast
  from Cons.IH [OF r1(2,3)] Cons.prems(3) t
  obtain r2 where "nonce_run ops c a seed ts r1 w = (map (\<lambda>i. Inr (n + 1 + of_nat i)) [0..<length ts], r2, w)"
    by auto
  moreover have "[0..<length (t # ts)] = 0 # map Suc [0..<length ts]"
    by (simp add: map_Suc_upt upt_conv_Cons del: upt_Suc)
  ultimately show ?case using r1(1) t by (simp add: comp_def add.assoc del: upt_Suc)
qed simp

lemma acquire_free:
  assumes "inv r" and "0 < ttl" and "val (at_now b) r k = None"
  shows "\<exists>r'. acquire_loop ops ttl deadline k token (b # as) r = (Some (Inr ()), r') \<and> inv r' \<and>
    (\<forall>t k'. val t r' k' = (if k' = k then if t < at_now' b + ttl then Some token else None else val t r k'))"
  using assms SetNX_fst [OF assms(1,2), of "at_now b" "at_now' b" k token]
    SetNX_val [OF assms(1,2), of _ "at_now b" "at_now' b" k token] SetNX_inv [OF assms(1,2), of "at_now b" "at_now' b" k token]
  by (auto split: prod.split)

lemma acquire_held:
  assumes "inv r" and "0 < ttl" and "\<forall>b \<in> set as. val (at_now b) r k \<noteq> None"
  shows "fst (acquire_loop ops ttl deadline k token as r) \<noteq> Some (Inr ())"
  using assms
proof (induction as arbitrary: r)
  case (Cons b as)
  let ?p = "rc_SetNX ops (at_now b) (at_now' b) k token ttl r"
  have held: "val (at_now b) r k \<noteq> None" using Cons.prems(3) by simp
  have "fst ?p = Inr False" using SetNX_fst [OF Cons.prems(1,2)] held by simp
  moreover have "val t (snd ?p) k' = val t r k'" for t k'
    using SetNX_val [OF Cons.prems(1,2), of t "at_now b" "at_now' b" k token k'] held by auto
  moreover have "inv (snd ?p)" using SetNX_inv [OF Cons.prems(1,2)] .
  ultimately show ?case using Cons.IH [of "snd ?p"] Cons.prems by (cases ?p) auto
qed simp

end

lemma acquire_returns:
  assumes "\<exists>b \<in> set as. at_check b > deadline"
  shows "fst (acquire_loop ops ttl deadline k token as r) \<noteq> None"
  using assms
proof (induction as arbitrary: r)
  case (Cons b as)
  then show ?case
    by (cases "rc_SetNX ops (at_now b) (at_now' b) k token ttl r") (auto split: sum.split)
qed simp

section \<open>Properties on the in-memory client\<close>

text \<open>
  C27. Nonces are handed out without gap or repetition: for an address with no counter, calls under the
  lock that follow each other within a day return the wallet's seed, then the seed plus one, and so
  on (modulo 2 to the 64), and the wallet service is asked exactly once.
\<close>

theorem nonces_consecutive:
  assumes "redis_inv r" and "redis_val g r (nextKey c a) = None" and "seed w = (Inr n, w')"
    and "paced s ts"
  shows "\<exists>r'. nonce_run mem_redis_client c a seed ((g, s) # ts) r w =
    (map (\<lambda>i. Inr (n + of_nat i)) [0..<length ((g, s) # ts)], r', w')"
proof -
  from mem_redis.NextNonce_seeds [where seed = seed and w = w, OF assms(1-3), of s]
  obtain r1 where r1: "NextNonce mem_redis_client g s c a seed r w = (Inr n, r1, w')" "redis_inv r1"
    "mem_redis.counter_is c a s (n + 1) r1" by blast
  from mem_redis.nonce_run_counts [OF r1(2,3) assms(4), of seed w']
  obtain r2 where "nonce_run mem_redis_client c a seed ts r1 w' =
    (map (\<lambda>i. Inr (n + 1 + of_nat i)) [0..<length ts], r2, w')" by blast
  moreover have "[0..<length ((g, s) # ts)] = 0 # map Suc [0..<length ts]"
    by (simp add: map_Suc_upt upt_conv_Cons del: upt_Suc)
  ultimately show ?thesis using r1(1) by (simp add: comp_def add.assoc del: upt_Suc)
qed

theorem nonces_consecutive_witness:
  "\<exists>r'. nonce_run mem_redis_client ''ethereum'' ''0x1'' (\<lambda>w. (Inr w, w + 1)) [(1, 2), (3, 4), (5, 6)] NewMemRedis 7 =
    ([Inr 7, Inr 8, Inr 9], r', 8)"
proof -
  have "redis_inv NewMemRedis" "redis_val 1 NewMemRedis (nextKey ''ethereum'' ''0x1'') = None"
    by (simp_all add: redis_inv_def redis_val_def NewMemRedis_def)
  moreover have "(\<lambda>w :: u64. (Inr w :: u64 result, w + 1)) 7 = (Inr 7, 8)" by simp
  moreover have "paced 2 [(3, 4), (5, 6)]" by (simp add: nonce_ttl_def)
  ultimately show ?thesis
    using nonces_consecutive [of NewMemRedis 1 "''ethereum''" "''0x1''" "\<lambda>w :: u64. (Inr w, w + 1)" 7 7 8 2 "[(3, 4), (5, 6)]"]
    by (simp add: upt_rec del: nonce_run.simps)
qed

text \<open>
  C33. The lock excludes: once a client holds it, no other client acquires it with attempts before the
  time to live is over; after the holder's release the next attempt succeeds; and a waiting loop
  always returns once an attempt falls after its deadline.
\<close>

theorem lock_excludes:
  assumes "redis_inv r" and "redis_val (at_now h) r (lockKey c a) = None"
    and "\<forall>b \<in> set bs. at_now b < at_now' h + co_lockTTL (NewCoordinator ttl wait)"
  shows "\<exists>r1. AcquireLock mem_redis_client (NewCoordinator ttl wait) t0 tok c a [h] r = (Some (Inr ()), r1) \<and>
    fst (AcquireLock mem_redis_client (NewCoordinator ttl wait) t1 tok' c a bs r1) \<noteq> Some (Inr ()) \<and>
    fst (AcquireLock mem_redis_client (NewCoordinator ttl wait) t1 tok' c a (b # bs)
      (release_lock mem_redis_client c a r1)) = Some (Inr ()) \<and>
    ((\<exists>x \<in> set bs. at_check x > t1 + co_lockWait (NewCoordinator ttl wait)) \<longrightarrow>
      fst (AcquireLock mem_redis_client (NewCoordinator ttl wait) t1 tok' c a bs r1) \<noteq> None)"
proof -
  let ?co = "NewCoordinator ttl wait" and ?k = "lockKey c a"
  from mem_redis.acquire_free [OF assms(1) NewCoordinator_pos assms(2), of ttl wait _ tok "[]"]
  obtain r1 where r1: "AcquireLock mem_redis_client ?co t0 tok c a [h] r = (Some (Inr ()), r1)" "redis_inv r1"
    "redis_val t r1 ?k = (if t < at_now' h + co_lockTTL ?co then Some tok else None)" for t
    by (force simp: AcquireLock_def)
  have "fst (AcquireLock mem_redis_client ?co t1 tok' c a bs r1) \<noteq> Some (Inr ())"
    using mem_redis.acquire_held [OF r1(2) NewCoordinator_pos] r1(3) assms(3) by (simp add: AcquireLock_def)
  moreover have "redis_inv (release_lock mem_redis_client c a r1)"
    "redis_val (at_now b) (release_lock mem_redis_client c a r1) ?k = None"
    using mem_redis.Del_inv [OF r1(2)] mem_redis.Del_val [OF r1(2)] by (simp_all add: release_lock_def)
  from mem_redis.acquire_free [OF this(1) NewCoordinator_pos this(2), of ttl wait "t1 + co_lockWait ?co" tok' bs]
  have "fst (AcquireLock mem_redis_client ?co t1 tok' c a (b # bs) (release_lock mem_redis_client c a r1)) = Some (Inr ())"
    unfolding AcquireLock_def by (metis fst_conv)
  ultimately show ?thesis using r1(1) by (auto simp: AcquireLock_def dest!: acquire_returns)
qed

definition sample_attempt :: "time \<Rightarrow> attempt" where
  "sample_attempt t = \<lparr>at_now = t, at_now' = t, at_check = t, at_done = False\<rparr>"

lemma sample_attempt_simps [simp]:
  "at_now (sample_attempt t) = t" "at_now' (sample_attempt t) = t" "at_check (sample_attempt t) = t"
  by (simp_all add: sample_attempt_def)

lemma NewMemRedis_simps [simp]: "redis_inv NewMemRedis" "redis_val t NewMemRedis k = None"
  by (simp_all add: redis_inv_def redis_val_def NewMemRedis_def)

theorem lock_excludes_witness:
  "\<exists>r1. AcquireLock mem_redis_client (NewCoordinator 100 20) 0 ''1'' ''ethereum'' ''0x1'' [sample_attempt 1] NewMemRedis = (Some (Inr ()), r1) \<and>
    fst (AcquireLock mem_redis_client (NewCoordinator 100 20) 5 ''2'' ''ethereum'' ''0x1'' [sample_attempt 6, sample_attempt 40] r1) \<noteq> Some (Inr ())"
proof -
  have "redis_val (at_now (sample_attempt 1)) NewMemRedis (lockKey ''ethereum'' ''0x1'') = None" by simp
  moreover have "\<forall>b \<in> set [sample_attempt 6, sample_attempt 40]. at_now b < at_now' (sample_attempt 1) + co_lockTTL (NewCoordinator 100 20)"
    by (simp add: NewCoordinator_def)
  ultimately show ?thesis
    using lock_excludes [of NewMemRedis "sample_attempt 1" "''ethereum''" "''0x1''" "[sample_attempt 6, sample_attempt 40]" 100 20
        0 "''1''" 5 "''2''" "sample_attempt 6"] by (auto simp del: acquire_loop.simps)
qed

text \<open>
  The release does not check the token. A holder whose time to live has run out, and whose lock a
  second client has since acquired, deletes that client's lock when it releases: a third client's
  attempt then succeeds at once, while the second still believes it holds the lock.
\<close>

theorem release_drops_foreign_lock:
  assumes "redis_inv r" and "redis_val (at_now h) r (lockKey c a) = None"
    and "at_now' h + co_lockTTL (NewCoordinator ttl wait) \<le> at_now b"
  shows "\<exists>r1 r2 r3. AcquireLock mem_redis_client (NewCoordinator ttl wait) t0 tok c a [h] r = (Some (Inr ()), r1) \<and>
    AcquireLock mem_redis_client (NewCoordinator ttl wait) t1 tok' c a [b] r1 = (Some (Inr ()), r2) \<and>
    AcquireLock mem_redis_client (NewCoordinator ttl wait) t2 tok'' c a [x] (release_lock mem_redis_client c a r2) =
      (Some (Inr ()), r3)"
proof -
  let ?co = "NewCoordinator ttl wait" and ?k = "lockKey c a"
  note free = mem_redis.acquire_free [OF _ NewCoordinator_pos [of ttl wait], where as = "[]"]
  from free [OF assms(1,2)]
  obtain r1 where r1: "AcquireLock mem_redis_client ?co t0 tok c a [h] r = (Some (Inr ()), r1)" "redis_inv r1"
    "redis_val t r1 ?k = (if t < at_now' h + co_lockTTL ?co then Some tok else None)" for t
    by (force simp: AcquireLock_def)
  then have "redis_val (at_now b) r1 ?k = None" using assms(3) by simp
  from free [OF r1(2) this]
  obtain r2 where r2: "AcquireLock mem_redis_client ?co t1 tok' c a [b] r1 = (Some (Inr ()), r2)" "redis_inv r2"
    by (force simp: AcquireLock_def)
  have "redis_inv (release_lock mem_redis_client c a r2)"
    "redis_val (at_now x) (release_lock mem_redis_client c a r2) ?k = None"
    using mem_redis.Del_inv [OF r2(2)] mem_redis.Del_val [OF r2(2)] by (simp_all add: release_lock_def)
  from free [OF this]
  obtain r3 where "AcquireLock mem_redis_client ?co t2 tok'' c a [x] (release_lock mem_redis_client c a r2) = (Some (Inr ()), r3)"
    by (force simp: AcquireLock_def)
  with r1(1) r2(1) show ?thesis by blast
qed

theorem release_drops_foreign_lock_witness:
  "\<exists>r1 r2 r3. AcquireLock mem_redis_client (NewCoordinator 100 20) 0 ''1'' ''ethereum'' ''0x1'' [sample_attempt 1] NewMemRedis = (Some (Inr ()), r1) \<and>
    AcquireLock mem_redis_client (NewCoordinator 100 20) 100 ''2'' ''ethereum'' ''0x1'' [sample_attempt 101] r1 = (Some (Inr ()), r2) \<and>
    AcquireLock mem_redis_client (NewCoordinator 100 20) 102 ''3'' ''ethereum'' ''0x1'' [sample_attempt 103]
      (release_lock mem_redis_client ''ethereum'' ''0x1'' r2) = (Some (Inr ()), r3)"
  using release_drops_foreign_lock [of NewMemRedis "sample_attempt 1" "''ethereum''" "''0x1''" 100 20 "sample_attempt 101"
      0 "''1''" 100 "''2''" 102 "''3''" "sample_attempt 103"]
  by (simp add: NewCoordinator_def del: acquire_loop.simps)

text \<open>
  The counter is read and then written, in two calls. When the lock of a slow client runs out
  between its read and its write and another client completes its own call in between, both get the
  same nonce.
\<close>

theorem expired_lock_repeats_nonce:
  assumes "redis_inv r" and "g \<le> g'" and "redis_val g r (nextKey c a) = Some (decimal (unat n))"
    and "redis_val g' r (nextKey c a) = Some (decimal (unat n))"
  shows "\<exists>v r1 r2. redis_Get g (nextKey c a) r = (v, r1) \<and>
    NextNonce mem_redis_client g' s' c a seed r1 w = (Inr n, r2, w) \<and>
    fst (NextNonce_from mem_redis_client s c a seed v r2 w) = Inr n"
proof -
  let ?k = "nextKey c a"
  obtain v r1 where g: "redis_Get g ?k r = (v, r1)" by (cases "redis_Get g ?k r")
  have eq: "rc_Get mem_redis_client = redis_Get" by (simp add: mem_redis_client_def)
  have v: "v = Inr (decimal (unat n))" using mem_redis.Get_fst [OF assms(1), of g ?k] g assms(3) by (simp add: eq)
  have r1: "redis_inv r1" "redis_val g' r1 ?k = Some (decimal (unat n))"
    using mem_redis.Get_inv [OF assms(1), of g ?k] mem_redis.Get_val [OF assms(1,2), of ?k ?k] g assms(4)
    by (simp_all add: eq)
  from mem_redis.NextNonce_counts [OF r1, of s' seed w]
  obtain r2 where "NextNonce mem_redis_client g' s' c a seed r1 w = (Inr n, r2, w)" by blast
  moreover have "fst (NextNonce_from mem_redis_client s c a seed v r2 w) = Inr n"
    by (simp add: NextNonce_from_def v Let_def)
  ultimately show ?thesis using g by blast
qed

theorem expired_lock_repeats_nonce_witness:
  "\<exists>v r1 r2. redis_Get 2 (nextKey ''ethereum'' ''0x1'')
      (snd (redis_Set 1 (nextKey ''ethereum'' ''0x1'') (decimal (unat (7 :: u64))) nonce_ttl NewMemRedis)) = (v, r1) \<and>
    NextNonce mem_redis_client 3 4 ''ethereum'' ''0x1'' (\<lambda>w. (Inr w, w)) r1 0 = (Inr 7, r2, 0) \<and>
    fst (NextNonce_from mem_redis_client 5 ''ethereum'' ''0x1'' (\<lambda>w. (Inr w, w)) v r2 0) = Inr 7"
proof -
  let ?r = "snd (redis_Set 1 (nextKey ''ethereum'' ''0x1'') (decimal (unat (7 :: u64))) nonce_ttl NewMemRedis)"
  have "redis_inv ?r" "redis_val t ?r (nextKey ''ethereum'' ''0x1'') = (if t < 1 + nonce_ttl then Some (decimal (unat (7 :: u64))) else None)" for t
    using mem_redis.Set_inv [of NewMemRedis nonce_ttl] mem_redis.Set_val [of NewMemRedis nonce_ttl]
    by (simp_all add: mem_redis_client_def)
  then show ?thesis
    using expired_lock_repeats_nonce [of ?r 2 3 "''ethereum''" "''0x1''" 7 4 "\<lambda>w :: u64. (Inr w, w)" 0 5]
    by (simp add: nonce_ttl_def)
qed

end
