(* ===== verification/Prepayment.thy ===== *)
theory Prepayment
  imports Nonce Chain_Adapter
begin

text \<open>
  Gas prepayment (\<open>internal/prepayment/manager.go\<close>) and the wallet-management client
  (\<open>internal/walletclient/client.go\<close>): the balance check, the funding request and its two waiting
  loops, and the nonce allocation under the lock. The HTTP exchange of the client is a parameter.
\<close>

section \<open>The wallet-management client\<close>

record fund_request =
  fq_WalletID :: string
  fq_ChainID :: string
  fq_Addr :: string
  fq_Amount :: string

record fund_response =
  fp_Ok :: bool
  fp_FundingTx :: string
  fp_Error :: string

text \<open>
  \<open>FundSender\<close> may return a response and an error together, so both are optional;
  \<open>AllocateNonce\<close> returns one or the other.
\<close>

record 'w wallet_client =
  wc_FundSender :: "fund_request \<Rightarrow> 'w \<Rightarrow> (fund_response option \<times> error option) \<times> 'w"
  wc_AllocateNonce :: "string \<Rightarrow> string \<Rightarrow> 'w \<Rightarrow> u64 result \<times> 'w"

definition nativeAsset :: "string \<Rightarrow> string" where
  "nativeAsset chainID =
     (if chainID = ''ethereum'' \<or> chainID = ''polygon'' \<or> chainID = ''arbitrum'' \<or> chainID = ''base'' \<or>
         chainID = ''optimism'' then ''eth''
      else if chainID = ''bitcoin'' then ''btc''
      else if chainID = ''solana'' then ''sol''
      else chainID)"

record funding_request_body =
  fb_Asset :: string
  fb_Amount :: string
  fb_Reason :: string

record funding_response_body =
  fn_Status :: string
  fn_Error :: string

text \<open>
  The HTTP client: \<open>post_funding\<close> and \<open>post_nonce\<close> stand for \<open>doJSON\<close> at the two endpoints, given
  the URL and the body; \<open>message\<close> is the error's \<open>Error()\<close> text.
\<close>

definition http_FundSender ::
  "string \<Rightarrow> (string \<Rightarrow> funding_request_body \<Rightarrow> 'w \<Rightarrow> funding_response_body result \<times> 'w) \<Rightarrow> (error \<Rightarrow> string) \<Rightarrow>
    fund_request \<Rightarrow> 'w \<Rightarrow> (fund_response option \<times> error option) \<times> 'w" where
  "http_FundSender baseURL post_funding message req w =
     (if fq_WalletID req = [] then
        ((Some \<lparr>fp_Ok = False, fp_FundingTx = [], fp_Error = ''wallet_id is required''\<rparr>,
          Some (ErrMessage ''fund sender: wallet_id is required'')), w)
      else
        (case post_funding (baseURL @ ''/v1/wallets/'' @ fq_WalletID req @ ''/funding-request'')
                \<lparr>fb_Asset = nativeAsset (fq_ChainID req), fb_Amount = fq_Amount req,
                 fb_Reason = ''blockchain-gateway gas prepayment''\<rparr> w of
           (Inl err, w') \<Rightarrow> ((Some \<lparr>fp_Ok = False, fp_FundingTx = [], fp_Error = message err\<rparr>, Some err), w')
         | (Inr raw, w') \<Rightarrow>
             if fn_Error raw \<noteq> []
             then ((Some \<lparr>fp_Ok = False, fp_FundingTx = [], fp_Error = fn_Error raw\<rparr>, Some (ErrMessage (fn_Error raw))), w')
             else ((Some \<lparr>fp_Ok = (fn_Status raw = ''requested'' \<or> fn_Status raw = ''approved'' \<or> fn_Status raw = []),
                          fp_FundingTx = [], fp_Error = []\<rparr>, None), w')))"

definition http_AllocateNonce ::
  "string \<Rightarrow> (string \<Rightarrow> string \<Rightarrow> 'w \<Rightarrow> u64 result \<times> 'w) \<Rightarrow> string \<Rightarrow> string \<Rightarrow> 'w \<Rightarrow> u64 result \<times> 'w" where
  "http_AllocateNonce baseURL post_nonce walletID chainID w =
     (if walletID = [] then (Inl (ErrMessage ''allocate nonce: wallet_id is required''), w)
      else post_nonce (baseURL @ ''/v1/wallets/'' @ walletID @ ''/nonce/allocate'') chainID w)"

text \<open>The mock client.\<close>

record wallet_mock =
  mk_FundErr :: "error option"
  mk_NonceErr :: "error option"
  mk_FundingTx :: string
  mk_NextNonce :: u64
  mk_FundRequests :: "fund_request list"
  mk_NonceRequests :: "(string \<times> string) list"
  mk_FailNthFund :: int
  mk_fundCallCount :: int

definition NewMock :: "string \<Rightarrow> u64 \<Rightarrow> wallet_mock" where
  "NewMock fundingTx nextNonce =
     \<lparr>mk_FundErr = None, mk_NonceErr = None, mk_FundingTx = fundingTx, mk_NextNonce = nextNonce,
      mk_FundRequests = [], mk_NonceRequests = [], mk_FailNthFund = 0, mk_fundCallCount = 0\<rparr>"

definition mock_FundSender ::
  "(error \<Rightarrow> string) \<Rightarrow> fund_request \<Rightarrow> wallet_mock \<Rightarrow> (fund_response option \<times> error option) \<times> wallet_mock" where
  "mock_FundSender message req m0 =
     (let m = m0\<lparr>mk_FundRequests := mk_FundRequests m0 @ [req], mk_fundCallCount := mk_fundCallCount m0 + 1\<rparr> in
      if mk_FailNthFund m > 0 \<and> mk_fundCallCount m = mk_FailNthFund m
      then ((Some \<lparr>fp_Ok = False, fp_FundingTx = [], fp_Error = ''transient''\<rparr>, Some (ErrMessage ''transient fund error'')), m)
      else case mk_FundErr m of
        Some err \<Rightarrow> ((Some \<lparr>fp_Ok = False, fp_FundingTx = [], fp_Error = message err\<rparr>, Some err), m)
      | None \<Rightarrow> ((Some \<lparr>fp_Ok = True, fp_FundingTx = mk_FundingTx m, fp_Error = []\<rparr>, None), m))"

definition mock_AllocateNonce :: "string \<Rightarrow> string \<Rightarrow> wallet_mock \<Rightarrow> u64 result \<times> wallet_mock" where
  "mock_AllocateNonce walletID chainID m0 =
     (let m = m0\<lparr>mk_NonceRequests := mk_NonceRequests m0 @ [(walletID, chainID)]\<rparr> in
      case mk_NonceErr m of
        Some err \<Rightarrow> (Inl err, m)
      | None \<Rightarrow> (Inr (mk_NextNonce m), m\<lparr>mk_NextNonce := mk_NextNonce m + 1\<rparr>))"

definition FundCalls :: "wallet_mock \<Rightarrow> int" where
  "FundCalls m = mk_fundCallCount m"

definition mock_client :: "(error \<Rightarrow> string) \<Rightarrow> wallet_mock wallet_client" where
  "mock_client message = \<lparr>wc_FundSender = mock_FundSender message, wc_AllocateNonce = mock_AllocateNonce\<rparr>"

section \<open>The manager\<close>

record prepay_manager =
  pm_locks :: coordinator
  pm_fundingTimeout :: duration
  pm_pollInterval :: duration
  pm_minConfirms :: u64

definition NewManager :: "coordinator \<Rightarrow> duration \<Rightarrow> prepay_manager" where
  "NewManager locks fundingTimeout =
     \<lparr>pm_locks = locks, pm_fundingTimeout = fundingTimeout, pm_pollInterval = 2 * 1000000000, pm_minConfirms = 1\<rparr>"

definition SetFundingPollInterval :: "duration \<Rightarrow> prepay_manager \<Rightarrow> prepay_manager" where
  "SetFundingPollInterval d m = (if d > 0 then m\<lparr>pm_pollInterval := d\<rparr> else m)"

definition SetFundingMinConfirms :: "u64 \<Rightarrow> prepay_manager \<Rightarrow> prepay_manager" where
  "SetFundingMinConfirms n m = (if n > 0 then m\<lparr>pm_minConfirms := n\<rparr> else m)"

record prepay_result =
  pr_Nonce :: u64
  pr_FundingTx :: string
  pr_Funded :: bool

text \<open>
  A waiting loop, over the sequence of polls: the node's answer, and whether the select that follows
  finds the waiting context done. \<open>None\<close> is a loop still waiting when the polls are used up.
\<close>

definition funding_confirmed :: "u64 \<Rightarrow> tx_status option result \<Rightarrow> bool" where
  "funding_confirmed minConfirms ans =
     (case ans of
        Inr (Some status) \<Rightarrow> ts_Confirmations status \<ge> minConfirms \<and>
          (ts_Status status = StatusConfirmed \<or> ts_Status status = StatusFinalized)
      | _ \<Rightarrow> False)"

fun waitForFundingConfirmation ::
  "u64 \<Rightarrow> string \<Rightarrow> (tx_status option result \<times> bool) list \<Rightarrow> unit result option" where
  "waitForFundingConfirmation minConfirms fundingTx [] = None"
| "waitForFundingConfirmation minConfirms fundingTx ((ans, done) # ps) =
     (if funding_confirmed minConfirms ans then Some (Inr ())
      else if done then Some (Inl (ErrFundingTimeout fundingTx))
      else waitForFundingConfirmation minConfirms fundingTx ps)"

fun balance_loop :: "string \<Rightarrow> int \<Rightarrow> (int result \<times> bool) list \<Rightarrow> unit result option" where
  "balance_loop addr target [] = None"
| "balance_loop addr target ((ans, done) # ps) =
     (if (case ans of Inr bal \<Rightarrow> bal \<ge> target | Inl _ \<Rightarrow> False) then Some (Inr ())
      else if done then Some (Inl (ErrFundingTimeout addr))
      else balance_loop addr target ps)"

definition waitForBalanceConfirmation ::
  "string \<Rightarrow> int \<Rightarrow> int \<Rightarrow> (int result \<times> bool) list \<Rightarrow> unit result option" where
  "waitForBalanceConfirmation addr prevBalance deficit ps = balance_loop addr (prevBalance + deficit) ps"

text \<open>
  What a call meets: the balance the node answers, the polls of the two loops, and the lock's start
  time, token and attempts, and the times at which the counter is read and written.
\<close>

record prepay_env =
  pe_balance :: "int result"
  pe_polls :: "(tx_status option result \<times> bool) list"
  pe_balance_polls :: "(int result \<times> bool) list"
  pe_start :: time
  pe_token :: string
  pe_attempts :: "attempt list"
  pe_get :: time
  pe_set :: time

definition funding_step ::
  "prepay_manager \<Rightarrow> 'w wallet_client \<Rightarrow> string \<Rightarrow> prepay_env \<Rightarrow> string \<Rightarrow> string \<Rightarrow> int \<Rightarrow> int \<Rightarrow> 'w \<Rightarrow>
    string result option \<times> 'w" where
  "funding_step m wallet chainID env walletID addr bal fee w =
     (let deficit = fee - bal;
          ((resp, err), w') = wc_FundSender wallet
            \<lparr>fq_WalletID = walletID, fq_ChainID = chainID, fq_Addr = addr, fq_Amount = decimal (nat deficit)\<rparr> w in
      case (resp, err) of
        (Some r, None) \<Rightarrow>
          if \<not> fp_Ok r
          then (Some (Inl (ErrPrepaymentFailed (ErrMessage (if fp_Error r \<noteq> [] then fp_Error r else ''<nil>'')))), w')
          else
            (case (if fp_FundingTx r \<noteq> [] then waitForFundingConfirmation (pm_minConfirms m) (fp_FundingTx r) (pe_polls env)
                   else waitForBalanceConfirmation addr bal deficit (pe_balance_polls env)) of
               None \<Rightarrow> (None, w')
             | Some (Inl e) \<Rightarrow> (Some (Inl (ErrPrepaymentFailed e)), w')
             | Some (Inr _) \<Rightarrow> (Some (Inr (fp_FundingTx r)), w'))
      | (Some r, Some e) \<Rightarrow>
          (Some (Inl (ErrPrepaymentFailed (if fp_Error r \<noteq> [] then ErrMessage (fp_Error r) else e))), w')
      | (None, Some e) \<Rightarrow> (Some (Inl (ErrPrepaymentFailed e)), w')
      | (None, None) \<Rightarrow> (Some (Inl (ErrPrepaymentFailed (ErrMessage ''<nil>''))), w'))"

definition nonce_step ::
  "prepay_manager \<Rightarrow> 'r redis_client \<Rightarrow> 'w wallet_client \<Rightarrow> string \<Rightarrow> prepay_env \<Rightarrow> string \<Rightarrow> string \<Rightarrow>
    'r \<Rightarrow> 'w \<Rightarrow> u64 result option \<times> 'r \<times> 'w" where
  "nonce_step m redis wallet chainID env walletID addr r w =
     (case AcquireLock redis (pm_locks m) (pe_start env) (pe_token env) chainID addr (pe_attempts env) r of
        (None, r') \<Rightarrow> (None, r', w)
      | (Some (Inl e), r') \<Rightarrow> (Some (Inl (ErrPrepaymentFailed e)), r', w)
      | (Some (Inr _), r') \<Rightarrow>
          (case NextNonce redis (pe_get env) (pe_set env) chainID addr (wc_AllocateNonce wallet walletID chainID) r' w of
             (Inl e, r'', w') \<Rightarrow> (Some (Inl (ErrPrepaymentFailed e)), release_lock redis chainID addr r'', w')
           | (Inr n, r'', w') \<Rightarrow> (Some (Inr n), release_lock redis chainID addr r'', w')))"

definition EnsureFundsAndNonce ::
  "prepay_manager \<Rightarrow> 'r redis_client \<Rightarrow> 'w wallet_client \<Rightarrow> string \<Rightarrow> prepay_env \<Rightarrow> string \<Rightarrow> string \<Rightarrow> int \<Rightarrow>
    'r \<Rightarrow> 'w \<Rightarrow> prepay_result result option \<times> 'r \<times> 'w" where
  "EnsureFundsAndNonce m redis wallet chainID env walletID addr fee r w =
     (case pe_balance env of
        Inl e \<Rightarrow> (Some (Inl (ErrPrepaymentFailed e)), r, w)
      | Inr bal \<Rightarrow>
          (let (funding, w1) = (if bal < fee then funding_step m wallet chainID env walletID addr bal fee w
                                else (Some (Inr []), w)) in
           case funding of
             None \<Rightarrow> (None, r, w1)
           | Some (Inl e) \<Rightarrow> (Some (Inl e), r, w1)
           | Some (Inr tx) \<Rightarrow>
               (case nonce_step m redis wallet chainID env walletID addr r w1 of
                  (None, r', w') \<Rightarrow> (None, r', w')
                | (Some (Inl e), r', w') \<Rightarrow> (Some (Inl e), r', w')
                | (Some (Inr n), r', w') \<Rightarrow>
                    (Some (Inr \<lparr>pr_Nonce = n, pr_FundingTx = tx, pr_Funded = (bal < fee)\<rparr>), r', w'))))"

section \<open>Waiting\<close>

lemma wait_funding_success:
  "waitForFundingConfirmation k tx ps = Some (Inr ()) \<Longrightarrow> \<exists>p \<in> set ps. funding_confirmed k (fst p)"
  by (induction k tx ps rule: waitForFundingConfirmation.induct) (auto split: if_splits)

lemma wait_funding_returns: "\<exists>p \<in> set ps. snd p \<Longrightarrow> waitForFundingConfirmation k tx ps \<noteq> None"
  by (induction k tx ps rule: waitForFundingConfirmation.induct) auto

lemma wait_balance_success:
  "balance_loop addr target ps = Some (Inr ()) \<Longrightarrow> \<exists>p \<in> set ps. \<exists>b. fst p = Inr b \<and> target \<le> b"
  by (induction addr target ps rule: balance_loop.induct) (force split: if_splits sum.splits)+

lemma wait_balance_returns: "\<exists>p \<in> set ps. snd p \<Longrightarrow> balance_loop addr target ps \<noteq> None"
  by (induction addr target ps rule: balance_loop.induct) auto

lemma funding_step_success:
  assumes "fst (funding_step m wallet c env wid addr bal fee w) = Some (Inr tx)"
  shows "(\<exists>resp. fst (wc_FundSender wallet
        \<lparr>fq_WalletID = wid, fq_ChainID = c, fq_Addr = addr, fq_Amount = decimal (nat (fee - bal))\<rparr> w) = (Some resp, None) \<and>
      fp_Ok resp \<and> fp_FundingTx resp = tx) \<and>
    (if tx \<noteq> [] then \<exists>p \<in> set (pe_polls env). funding_confirmed (pm_minConfirms m) (fst p)
     else \<exists>p \<in> set (pe_balance_polls env). \<exists>b. fst p = Inr b \<and> fee \<le> b)"
  using assms wait_balance_success [of addr fee "pe_balance_polls env"]
    wait_funding_success [of "pm_minConfirms m" _ "pe_polls env"]
  by (auto simp: funding_step_def waitForBalanceConfirmation_def Let_def
      split: prod.splits option.splits sum.splits if_splits)

lemma funding_step_error:
  assumes "fst (funding_step m wallet c env wid addr bal fee w) = Some (Inl e)"
  shows "\<exists>e'. e = ErrPrepaymentFailed e'"
  using assms by (auto simp: funding_step_def Let_def split: prod.splits option.splits sum.splits if_splits)

lemma funding_step_returns:
  assumes "\<exists>p \<in> set (pe_polls env). snd p" and "\<exists>p \<in> set (pe_balance_polls env). snd p"
  shows "fst (funding_step m wallet c env wid addr bal fee w) \<noteq> None"
  by (auto simp: funding_step_def waitForBalanceConfirmation_def Let_def
      wait_funding_returns [OF assms(1)] wait_balance_returns [OF assms(2)]
      simp del: not_None_eq split: prod.split option.split sum.split)

lemma nonce_step_error:
  assumes "fst (nonce_step m redis wallet c env wid addr r w) = Some (Inl e)"
  shows "\<exists>e'. e = ErrPrepaymentFailed e'"
  using assms by (auto simp: nonce_step_def split: prod.splits option.splits sum.splits)

lemma nonce_step_returns:
  assumes "\<exists>b \<in> set (pe_attempts env). at_check b > pe_start env + co_lockWait (pm_locks m)"
  shows "fst (nonce_step m redis wallet c env wid addr r w) \<noteq> None"
proof -
  obtain out r' where "acquire_loop redis (co_lockTTL (pm_locks m)) (pe_start env + co_lockWait (pm_locks m))
      (lockKey c addr) (pe_token env) (pe_attempts env) r = (Some out, r')"
    using acquire_returns [OF assms] by (metis not_None_eq prod.collapse)
  then show ?thesis by (auto simp: nonce_step_def AcquireLock_def split: sum.splits prod.splits)
qed

section \<open>Properties\<close>

text \<open>
  C31. A broadcast is cleared only when gas is covered: if the call succeeds, either the balance was
  at least the fee and nothing was funded, or Wallet Management was asked for the deficit and accepted it (an answer,
  no error, and its flag \<open>Ok\<close> set), the funding transaction of the result being the one it named, and the funding was then seen on
  chain, as a confirmed funding transaction with the required confirmations or as a balance of at least the fee.
\<close>

theorem prepayment_covers_gas:
  assumes "fst (EnsureFundsAndNonce m redis wallet c env wid addr fee r w) = Some (Inr res)"
  shows "\<exists>bal. pe_balance env = Inr bal \<and> pr_Funded res = (bal < fee) \<and>
    (fee \<le> bal \<and> pr_FundingTx res = [] \<or>
     (\<exists>resp. fst (wc_FundSender wallet
          \<lparr>fq_WalletID = wid, fq_ChainID = c, fq_Addr = addr, fq_Amount = decimal (nat (fee - bal))\<rparr> w) = (Some resp, None) \<and>
        fp_Ok resp \<and> fp_FundingTx resp = pr_FundingTx res) \<and>
     (if pr_FundingTx res \<noteq> [] then \<exists>p \<in> set (pe_polls env). funding_confirmed (pm_minConfirms m) (fst p)
      else \<exists>p \<in> set (pe_balance_polls env). \<exists>b. fst p = Inr b \<and> fee \<le> b))"
proof -
  from assms obtain bal where bal: "pe_balance env = Inr bal"
    by (auto simp: EnsureFundsAndNonce_def split: sum.splits)
  show ?thesis
  proof (cases "bal < fee")
    case True
    with assms bal have "fst (funding_step m wallet c env wid addr bal fee w) = Some (Inr (pr_FundingTx res)) \<and> pr_Funded res"
      by (auto simp: EnsureFundsAndNonce_def Let_def split: prod.splits option.splits sum.splits)
    with True bal funding_step_success [of m wallet c env wid addr bal fee w "pr_FundingTx res"] show ?thesis by auto
  next
    case False
    with assms bal show ?thesis
      by (auto simp: EnsureFundsAndNonce_def Let_def split: prod.splits option.splits sum.splits)
  qed
qed

text \<open>
  C32. The call always returns and fails in one way only: when each waiting loop meets a poll at which
  its context is done and the lock's loop an attempt after its deadline, the call returns, and every
  error it returns is a prepayment failure.
\<close>

theorem prepayment_returns:
  assumes "\<exists>p \<in> set (pe_polls env). snd p" and "\<exists>p \<in> set (pe_balance_polls env). snd p"
    and "\<exists>b \<in> set (pe_attempts env). at_check b > pe_start env + co_lockWait (pm_locks m)"
  shows "\<exists>out. fst (EnsureFundsAndNonce m redis wallet c env wid addr fee r w) = Some out \<and>
    (\<forall>e. out = Inl e \<longrightarrow> (\<exists>e'. e = ErrPrepaymentFailed e'))"
proof -
  note F = funding_step_returns [OF assms(1,2), of m wallet c wid addr _ fee w]
    funding_step_error [of m wallet c env wid addr _ fee w]
  note N = nonce_step_returns [OF assms(3), of redis wallet c wid addr r]
    nonce_step_error [of m redis wallet c env wid addr r]
  show ?thesis
  proof (cases "pe_balance env")
    case (Inl e)
    then show ?thesis by (simp add: EnsureFundsAndNonce_def)
  next
    case (Inr bal)
    obtain f w1 where f: "(if bal < fee then funding_step m wallet c env wid addr bal fee w else (Some (Inr []), w)) = (f, w1)"
      by fastforce
    obtain n r' w' where n: "nonce_step m redis wallet c env wid addr r w1 = (n, r', w')"
      by (cases "nonce_step m redis wallet c env wid addr r w1")
    have "f \<noteq> None" "n \<noteq> None" using F(1) [of bal] N(1) [of w1] f n by (auto split: if_splits)
    moreover have "f = Some (Inl e) \<Longrightarrow> \<exists>e'. e = ErrPrepaymentFailed e'" for e
      using F(2) [of bal e] f by (auto split: if_splits)
    moreover have "n = Some (Inl e) \<Longrightarrow> \<exists>e'. e = ErrPrepaymentFailed e'" for e
      using N(2) [of w1 e] n by auto
    ultimately show ?thesis
      using Inr f n by (auto simp: EnsureFundsAndNonce_def Let_def split: option.splits sum.splits)
  qed
qed

section \<open>Successive calls\<close>

lemma lockKey_not_nextKey [simp]: "nextKey c a \<noteq> lockKey c' a'"
  by (simp add: lockKey_def nextKey_def)

context redis_contract
begin

definition lock_free :: "string \<Rightarrow> string \<Rightarrow> 'r \<Rightarrow> bool" where
  "lock_free c a r \<longleftrightarrow> (\<forall>t. val t r (lockKey c a) = None)"

text \<open>A nonce step that finds the lock free: the lock is free again after it, whatever came of the counter.\<close>

lemma nonce_step_frame:
  assumes "inv r" and "lock_free c a r" and "pe_attempts env = b # bs" and "0 < co_lockTTL (pm_locks m)"
  obtains r1 where "inv r1" and "\<forall>t. val t r1 (nextKey c a) = val t r (nextKey c a)"
    and "nonce_step m ops wallet c env wid a r w =
      (case NextNonce ops (pe_get env) (pe_set env) c a (wc_AllocateNonce wallet wid c) r1 w of
         (Inl e, r2, w') \<Rightarrow> (Some (Inl (ErrPrepaymentFailed e)), release_lock ops c a r2, w')
       | (Inr n, r2, w') \<Rightarrow> (Some (Inr n), release_lock ops c a r2, w'))"
proof -
  from assms(2) have "val (at_now b) r (lockKey c a) = None" by (simp add: lock_free_def)
  from acquire_free [OF assms(1,4) this, of "pe_start env + co_lockWait (pm_locks m)" "pe_token env" bs] assms(3)
  obtain r1 where "AcquireLock ops (pm_locks m) (pe_start env) (pe_token env) c a (pe_attempts env) r = (Some (Inr ()), r1)"
    and "inv r1" and "\<forall>t k'. val t r1 k' = (if k' = lockKey c a then
      if t < at_now' b + co_lockTTL (pm_locks m) then Some (pe_token env) else None else val t r k')"
    by (auto simp: AcquireLock_def)
  then show ?thesis by (intro that [of r1]) (simp_all add: nonce_step_def)
qed

lemma release_frame:
  assumes "inv r" and "counter_is c a s n r"
  shows "inv (release_lock ops c a r) \<and> lock_free c a (release_lock ops c a r) \<and>
    counter_is c a s n (release_lock ops c a r)"
  using assms by (simp add: release_lock_def Del_inv Del_val lock_free_def counter_is_def)

lemma nonce_step_counts:
  assumes "inv r" and "lock_free c a r" and "pe_attempts env = b # bs" and "0 < co_lockTTL (pm_locks m)"
    and "val (pe_get env) r (nextKey c a) = Some (decimal (unat n))"
  shows "\<exists>r'. nonce_step m ops wallet c env wid a r w = (Some (Inr n), r', w) \<and> inv r' \<and> lock_free c a r' \<and>
    counter_is c a (pe_set env) (n + 1) r'"
proof -
  obtain r1 where r1: "inv r1" "\<forall>t. val t r1 (nextKey c a) = val t r (nextKey c a)"
    "nonce_step m ops wallet c env wid a r w =
      (case NextNonce ops (pe_get env) (pe_set env) c a (wc_AllocateNonce wallet wid c) r1 w of
         (Inl e, r2, w') \<Rightarrow> (Some (Inl (ErrPrepaymentFailed e)), release_lock ops c a r2, w')
       | (Inr n, r2, w') \<Rightarrow> (Some (Inr n), release_lock ops c a r2, w'))"
    by (rule nonce_step_frame [OF assms(1-4)])
  from assms(5) r1(2) have "val (pe_get env) r1 (nextKey c a) = Some (decimal (unat n))" by simp
  from NextNonce_counts [OF r1(1) this, of "pe_set env" "wc_AllocateNonce wallet wid c" w]
  obtain r2 where "NextNonce ops (pe_get env) (pe_set env) c a (wc_AllocateNonce wallet wid c) r1 w = (Inr n, r2, w)"
    and r2: "inv r2" "counter_is c a (pe_set env) (n + 1) r2" by blast
  with release_frame [OF r2] r1(3) show ?thesis by simp
qed

lemma nonce_step_seeds:
  assumes "inv r" and "lock_free c a r" and "pe_attempts env = b # bs" and "0 < co_lockTTL (pm_locks m)"
    and "val (pe_get env) r (nextKey c a) = None" and "wc_AllocateNonce wallet wid c w = (Inr n, w')"
  shows "\<exists>r'. nonce_step m ops wallet c env wid a r w = (Some (Inr n), r', w') \<and> inv r' \<and> lock_free c a r' \<and>
    counter_is c a (pe_set env) (n + 1) r'"
proof -
  obtain r1 where r1: "inv r1" "\<forall>t. val t r1 (nextKey c a) = val t r (nextKey c a)"
    "nonce_step m ops wallet c env wid a r w =
      (case NextNonce ops (pe_get env) (pe_set env) c a (wc_AllocateNonce wallet wid c) r1 w of
         (Inl e, r2, w') \<Rightarrow> (Some (Inl (ErrPrepaymentFailed e)), release_lock ops c a r2, w')
       | (Inr n, r2, w') \<Rightarrow> (Some (Inr n), release_lock ops c a r2, w'))"
    by (rule nonce_step_frame [OF assms(1-4)])
  from assms(5) r1(2) have "val (pe_get env) r1 (nextKey c a) = None" by simp
  from NextNonce_seeds [where seed = "wc_AllocateNonce wallet wid c" and w = w, OF r1(1) this assms(6), of "pe_set env"]
  obtain r2 where "NextNonce ops (pe_get env) (pe_set env) c a (wc_AllocateNonce wallet wid c) r1 w = (Inr n, r2, w')"
    and r2: "inv r2" "counter_is c a (pe_set env) (n + 1) r2" by blast
  with release_frame [OF r2] r1(3) show ?thesis by simp
qed

end

text \<open>A sequence of prepayments of one sender whose balance covers the fee.\<close>

fun prepay_run ::
  "prepay_manager \<Rightarrow> 'r redis_client \<Rightarrow> 'w wallet_client \<Rightarrow> string \<Rightarrow> string \<Rightarrow> string \<Rightarrow> int \<Rightarrow> prepay_env list \<Rightarrow>
    'r \<Rightarrow> 'w \<Rightarrow> u64 list \<times> 'r \<times> 'w" where
  "prepay_run m redis wallet c wid a fee [] r w = ([], r, w)"
| "prepay_run m redis wallet c wid a fee (env # envs) r w =
     (let (out, r1, w1) = EnsureFundsAndNonce m redis wallet c env wid a fee r w;
          (ns, r2, w2) = prepay_run m redis wallet c wid a fee envs r1 w1
      in ((case out of Some (Inr res) \<Rightarrow> [pr_Nonce res] | _ \<Rightarrow> []) @ ns, r2, w2))"

definition covered :: "int \<Rightarrow> prepay_env \<Rightarrow> bool" where
  "covered fee env \<longleftrightarrow> (\<exists>bal. pe_balance env = Inr bal \<and> fee \<le> bal) \<and> pe_attempts env \<noteq> []"

lemma covered_step:
  assumes "covered fee env" and "nonce_step m redis wallet c env wid a r w = (Some (Inr n), r', w')"
  shows "\<exists>res. EnsureFundsAndNonce m redis wallet c env wid a fee r w = (Some (Inr res), r', w') \<and> pr_Nonce res = n"
  using assms by (auto simp: EnsureFundsAndNonce_def covered_def)

lemma prepay_run_counts:
  assumes "redis_inv r" and "mem_redis.lock_free c a r" and "0 < co_lockTTL (pm_locks m)"
    and "mem_redis.counter_is c a s n r" and "list_all (covered fee) envs"
    and "paced s (map (\<lambda>env. (pe_get env, pe_set env)) envs)"
  shows "\<exists>r'. prepay_run m mem_redis_client wallet c wid a fee envs r w =
    (map (\<lambda>i. n + of_nat i) [0..<length envs], r', w)"
  using assms(1,2,4-6)
proof (induction envs arbitrary: r s n)
  case (Cons env envs)
  obtain b bs where at: "pe_attempts env = b # bs" using Cons.prems(4) by (auto simp: covered_def neq_Nil_conv)
  have "redis_val (pe_get env) r (nextKey c a) = Some (decimal (unat n))"
    using Cons.prems(3,5) by (simp add: mem_redis.counter_is_def)
  from mem_redis.nonce_step_counts [OF Cons.prems(1,2) at assms(3) this, of wallet wid w]
  obtain r1 where r1: "nonce_step m mem_redis_client wallet c env wid a r w = (Some (Inr n), r1, w)" "redis_inv r1"
    "mem_redis.lock_free c a r1" "mem_redis.counter_is c a (pe_set env) (n + 1) r1" by blast
  obtain res where res: "EnsureFundsAndNonce m mem_redis_client wallet c env wid a fee r w = (Some (Inr res), r1, w)" "pr_Nonce res = n"
    using covered_step [OF _ r1(1)] Cons.prems(4) by force
  from Cons.IH [OF r1(2-4)] Cons.prems(4,5)
  obtain r2 where "prepay_run m mem_redis_client wallet c wid a fee envs r1 w =
      (map (\<lambda>i. n + 1 + of_nat i) [0..<length envs], r2, w)" by auto
  moreover have "[0..<length (env # envs)] = 0 # map Suc [0..<length envs]"
    by (simp add: map_Suc_upt upt_conv_Cons del: upt_Suc)
  ultimately show ?case using res by (simp add: comp_def add.assoc del: upt_Suc)
qed simp

text \<open>
  A sender whose balance covers the fee, with a free lock and no counter: successive prepayments
  within a day of each other all succeed, hand out the wallet's nonce and its successors without gap,
  and ask the wallet service once.
\<close>

theorem prepayments_consecutive:
  assumes "redis_inv r" and "\<forall>t. redis_val t r (lockKey c a) = None" and "0 < co_lockTTL (pm_locks m)"
    and "redis_val (pe_get env) r (nextKey c a) = None" and "wc_AllocateNonce wallet wid c w = (Inr n, w')"
    and "list_all (covered fee) (env # envs)"
    and "paced (pe_set env) (map (\<lambda>env. (pe_get env, pe_set env)) envs)"
  shows "\<exists>r'. prepay_run m mem_redis_client wallet c wid a fee (env # envs) r w =
    (map (\<lambda>i. n + of_nat i) [0..<length (env # envs)], r', w')"
proof -
  obtain b bs where at: "pe_attempts env = b # bs" using assms(6) by (auto simp: covered_def neq_Nil_conv)
  have free: "mem_redis.lock_free c a r" using assms(2) by (simp add: mem_redis.lock_free_def)
  from mem_redis.nonce_step_seeds [OF assms(1) free at assms(3-5)]
  obtain r1 where r1: "nonce_step m mem_redis_client wallet c env wid a r w = (Some (Inr n), r1, w')" "redis_inv r1"
    "mem_redis.lock_free c a r1" "mem_redis.counter_is c a (pe_set env) (n + 1) r1" by blast
  obtain res where res: "EnsureFundsAndNonce m mem_redis_client wallet c env wid a fee r w = (Some (Inr res), r1, w')" "pr_Nonce res = n"
    using covered_step [OF _ r1(1)] assms(6) by force
  from prepay_run_counts [OF r1(2,3) assms(3) r1(4) _ assms(7), of fee wallet wid w'] assms(6)
  obtain r2 where "prepay_run m mem_redis_client wallet c wid a fee envs r1 w' =
      (map (\<lambda>i. n + 1 + of_nat i) [0..<length envs], r2, w')" by auto
  moreover have "[0..<length (env # envs)] = 0 # map Suc [0..<length envs]"
    by (simp add: map_Suc_upt upt_conv_Cons del: upt_Suc)
  ultimately show ?thesis using res by (simp add: comp_def add.assoc del: upt_Suc)
qed

definition sample_env :: "time \<Rightarrow> int \<Rightarrow> prepay_env" where
  "sample_env t bal = \<lparr>pe_balance = Inr bal, pe_polls = [(Inr None, True)], pe_balance_polls = [(Inr 500, True)],
     pe_start = t, pe_token = ''1'', pe_attempts = [sample_attempt t, sample_attempt (t + 10000000000)],
     pe_get = t, pe_set = t + 1\<rparr>"

definition sample_manager :: prepay_manager where
  "sample_manager = NewManager (NewCoordinator 0 0) 60"

lemma sample_manager_simps [simp]:
  "co_lockTTL (pm_locks sample_manager) = 10000000000" "co_lockWait (pm_locks sample_manager) = 5000000000"
  by (simp_all add: sample_manager_def NewManager_def NewCoordinator_def)

theorem prepayment_covers_gas_witness:
  "\<exists>res. fst (EnsureFundsAndNonce sample_manager mem_redis_client (mock_client (\<lambda>_. [])) ''ethereum'' (sample_env 1 20) ''w1'' ''0x1'' 100
      NewMemRedis (NewMock [] 7)) = Some (Inr res) \<and> pr_Funded res"
proof -
  let ?out = "fst (EnsureFundsAndNonce sample_manager mem_redis_client (mock_client (\<lambda>_. [])) ''ethereum'' (sample_env 1 20) ''w1'' ''0x1'' 100
      NewMemRedis (NewMock [] 7))"
  obtain res where res: "?out = Some (Inr res)"
    by (simp add: EnsureFundsAndNonce_def sample_env_def funding_step_def mock_client_def mock_FundSender_def NewMock_def
        waitForBalanceConfirmation_def nonce_step_def AcquireLock_def sample_attempt_def mem_redis_client_def redis_SetNX_def
        NewMemRedis_def redis_put_def NextNonce_def redis_Get_def NextNonce_from_def mock_AllocateNonce_def Let_def
        lockKey_def nextKey_def)
  from prepayment_covers_gas [OF this] have "pr_Funded res" by (auto simp: sample_env_def)
  with res show ?thesis by blast
qed

theorem prepayment_returns_witness:
  "\<exists>out. fst (EnsureFundsAndNonce sample_manager mem_redis_client (mock_client (\<lambda>_. [])) ''ethereum'' (sample_env 1 20) ''w1'' ''0x1'' 100
      NewMemRedis (NewMock ''0xf'' 7)) = Some out \<and> (\<forall>e. out = Inl e \<longrightarrow> (\<exists>e'. e = ErrPrepaymentFailed e'))"
  by (rule prepayment_returns) (simp_all add: sample_env_def)

theorem prepayments_consecutive_witness:
  "\<exists>r'. prepay_run sample_manager mem_redis_client (mock_client (\<lambda>_. [])) ''ethereum'' ''w1'' ''0x1'' 100
      [sample_env 1 100, sample_env 5 200, sample_env 9 300] NewMemRedis (NewMock [] 7) =
    ([7, 8, 9], r', snd (mock_AllocateNonce ''w1'' ''ethereum'' (NewMock [] 7)))"
proof -
  let ?w = "NewMock [] 7" and ?c = "''ethereum''"
  have a: "wc_AllocateNonce (mock_client (\<lambda>_. [])) ''w1'' ?c ?w = (Inr 7, snd (mock_AllocateNonce ''w1'' ?c ?w))"
    by (simp add: mock_client_def mock_AllocateNonce_def NewMock_def)
  have c: "list_all (covered 100) [sample_env 1 100, sample_env 5 200, sample_env 9 300]"
    by (simp add: covered_def sample_env_def)
  have p: "paced (pe_set (sample_env 1 100)) (map (\<lambda>env. (pe_get env, pe_set env)) [sample_env 5 200, sample_env 9 300])"
    by (simp add: sample_env_def nonce_ttl_def)
  from prepayments_consecutive [OF NewMemRedis_simps(1) _ _ _ a c p, of "''0x1''" sample_manager]
  show ?thesis by (simp add: upt_rec del: prepay_run.simps)
qed

end
