(* ===== verification/Event_Bus.thy ===== *)
theory Event_Bus
  imports Mem_Store
begin

text \<open>
  The event bus (\<open>internal/eventbus/bus.go\<close>) and the audit log in front of it
  (\<open>internal/audit/log.go\<close>). The bus appends an event to the outbox, which refuses repetitions, and
  hands a new one to its publisher. A publisher is a function on the state of the broker behind it;
  the choice of a publisher from a URL is modelled down to the broker list and the topic, the
  broker itself is the parameter. \<open>json.Marshal\<close> is a parameter that may fail.
\<close>

section \<open>Events and publishers\<close>

record bus_event =
  be_Type :: string
  be_ChainID :: string
  be_TxHash :: string
  be_From :: string
  be_To :: string
  be_Value :: string
  be_Fee :: string
  be_Status :: status
  be_BlockHeight :: u64
  be_BlockHash :: string
  be_Confirmations :: u64
  be_FinalizedAt :: time
  be_EmittedAt :: time

type_synonym 'p publisher = "bus_event \<Rightarrow> 'p \<Rightarrow> unit result \<times> 'p"

definition nop_Publish :: "'p publisher" where
  "nop_Publish e w = (Inr (), w)"

text \<open>
  The HTTP publisher: \<open>post\<close> is the exchange, an error or the status code of the answer.
\<close>

definition http_Publish ::
  "(bus_event \<Rightarrow> bytes result) \<Rightarrow> (string \<Rightarrow> bytes \<Rightarrow> 'p \<Rightarrow> int result \<times> 'p) \<Rightarrow> string \<Rightarrow> 'p publisher" where
  "http_Publish marshal post url e w =
     (case marshal e of
        Inl err \<Rightarrow> (Inl err, w)
      | Inr body \<Rightarrow>
          (case post url body w of
             (Inl err, w') \<Rightarrow> (Inl err, w')
           | (Inr code, w') \<Rightarrow>
               if code \<ge> 400 then (Inl (ErrMessage (''event bus http '' @ decimal (nat code))), w') else (Inr (), w')))"

text \<open>The Kafka publisher writes the encoded event under the transaction hash as its key.\<close>

record kafka_writer =
  kw_brokers :: "string list"
  kw_topic :: string

definition kafka_Publish ::
  "(bus_event \<Rightarrow> bytes result) \<Rightarrow> (kafka_writer \<Rightarrow> string \<Rightarrow> bytes \<Rightarrow> 'p \<Rightarrow> unit result \<times> 'p) \<Rightarrow>
    kafka_writer option \<Rightarrow> 'p publisher" where
  "kafka_Publish marshal write p e w =
     (case p of
        None \<Rightarrow> (Inl (ErrMessage ''eventbus kafka: not connected''), w)
      | Some kw \<Rightarrow>
          (case marshal e of
             Inl err \<Rightarrow> (Inl err, w)
           | Inr body \<Rightarrow> write kw (be_TxHash e) body w))"

datatype publisher_choice =
    NopPublisher
  | HTTPPublisher string
  | KafkaPublisher kafka_writer

definition NewKafkaPublisher :: "string list \<Rightarrow> string \<Rightarrow> kafka_writer result" where
  "NewKafkaPublisher brokers topic =
     (if length brokers = 0 then Inl (ErrMessage ''eventbus kafka: no brokers provided'')
      else Inr \<lparr>kw_brokers = brokers, kw_topic = (if topic = [] then ''blockchain.events.v1'' else topic)\<rparr>)"

text \<open>The query is scanned to its end, so the last \<open>topic=\<close> parameter counts.\<close>

definition query_topic :: "string \<Rightarrow> string" where
  "query_topic q =
     foldl (\<lambda>topic kv. if has_prefix kv ''topic='' then trim_prefix kv ''topic='' else topic) []
       (go_split CHR ''&'' q)"

definition NewKafkaPublisherFromURL :: "string \<Rightarrow> kafka_writer result" where
  "NewKafkaPublisherFromURL url =
     (let (rest, q) = go_cut CHR ''?'' (trim_prefix url ''kafka://'');
          topic = (case q of None \<Rightarrow> [] | Some q \<Rightarrow> query_topic q)
      in NewKafkaPublisher (csv_parts rest) topic)"

definition NewPublisherFromURL :: "string \<Rightarrow> publisher_choice result" where
  "NewPublisherFromURL url =
     (if url = [] then Inr NopPublisher
      else if has_prefix url ''kafka://'' then map_sum id KafkaPublisher (NewKafkaPublisherFromURL url)
      else if has_prefix url ''http://'' \<or> has_prefix url ''https://'' then Inr (HTTPPublisher url)
      else Inl (ErrMessage (''eventbus: unknown scheme in '' @ url)))"

section \<open>The bus\<close>

record ('s, 'p) bus =
  bu_outbox :: "'s outbox_store"
  bu_bus :: "'p publisher option"
  bu_marshal :: "bus_event \<Rightarrow> bytes result"

record ('s, 'p) bus_state =
  bus_outbox :: 's
  bus_world :: 'p
  bus_deduped :: int
  bus_emitted :: int
  bus_failed :: int

definition NewBus :: "'s \<Rightarrow> 'p \<Rightarrow> ('s, 'p) bus_state" where
  "NewBus s w = \<lparr>bus_outbox = s, bus_world = w, bus_deduped = 0, bus_emitted = 0, bus_failed = 0\<rparr>"

definition markDeduped :: "('s, 'p) bus_state \<Rightarrow> ('s, 'p) bus_state" where
  "markDeduped st = st\<lparr>bus_deduped := bus_deduped st + 1\<rparr>"

definition markEmitted :: "('s, 'p) bus_state \<Rightarrow> ('s, 'p) bus_state" where
  "markEmitted st = st\<lparr>bus_emitted := bus_emitted st + 1\<rparr>"

definition markFailed :: "('s, 'p) bus_state \<Rightarrow> ('s, 'p) bus_state" where
  "markFailed st = st\<lparr>bus_failed := bus_failed st + 1\<rparr>"

lemmas mark_defs = markDeduped_def markEmitted_def markFailed_def

definition Stats :: "('s, 'p) bus_state \<Rightarrow> int \<times> int \<times> int" where
  "Stats st = (bus_emitted st, bus_deduped st, bus_failed st)"

text \<open>Both branches of \<open>publish\<close> return \<open>nil\<close>: an error of the publisher is not passed on.\<close>

definition bus_publish :: "('s, 'p) bus \<Rightarrow> bus_event \<Rightarrow> 'p \<Rightarrow> unit result \<times> 'p" where
  "bus_publish b e w =
     (case bu_bus b of
        None \<Rightarrow> (Inr (), w)
      | Some pub \<Rightarrow> (case pub e w of (Inr _, w') \<Rightarrow> (Inr (), w') | (Inl _, w') \<Rightarrow> (Inr (), w')))"

text \<open>\<open>now\<close> stamps the event, \<open>now'\<close> and \<open>u\<close> are the clock reading and the id of the append.\<close>

definition event_entry :: "bus_event \<Rightarrow> bytes \<Rightarrow> outbox_entry" where
  "event_entry e payload =
     \<lparr>oe_ID = zero_uuid, oe_ChainID = be_ChainID e, oe_TxHash = be_TxHash e, oe_Status = be_Status e,
      oe_BlockHeight = be_BlockHeight e, oe_EventType = be_Type e, oe_Payload = payload,
      oe_CreatedAt = zero_time, oe_EmittedAt = zero_time\<rparr>"

definition stamped :: "time \<Rightarrow> bus_event \<Rightarrow> bus_event" where
  "stamped now e = (if be_EmittedAt e = zero_time then e\<lparr>be_EmittedAt := now\<rparr> else e)"

definition Emit ::
  "('s, 'p) bus \<Rightarrow> time \<Rightarrow> time \<Rightarrow> uuid \<Rightarrow> bus_event \<Rightarrow> ('s, 'p) bus_state \<Rightarrow> unit result \<times> ('s, 'p) bus_state" where
  "Emit b now now' u e0 st =
     (let e = stamped now e0 in
      case bu_marshal b e of
        Inl err \<Rightarrow> (Inl err, st)
      | Inr payload \<Rightarrow>
          (let (inserted, ob) = os_Append (bu_outbox b) now' u (event_entry e payload) (bus_outbox st);
               st = st\<lparr>bus_outbox := ob\<rparr> in
           case inserted of
             Inl err \<Rightarrow> (Inl err, markFailed st)
           | Inr False \<Rightarrow> (Inr (), markDeduped st)
           | Inr True \<Rightarrow>
               (let (res, w) = bus_publish b e (bus_world st);
                    st = st\<lparr>bus_world := w\<rparr> in
                case res of
                  Inl err \<Rightarrow> (Inl err, markFailed st)
                | Inr _ \<Rightarrow> (Inr (), markEmitted st))))"

section \<open>The audit log\<close>

record audit_log =
  al_recent :: "bus_event list"
  al_max :: nat

text \<open>A capacity of zero or less stands for 1024.\<close>

definition audit_New :: "int \<Rightarrow> audit_log" where
  "audit_New maxRecent = \<lparr>al_recent = [], al_max = nat (if maxRecent \<le> 0 then 1024 else maxRecent)\<rparr>"

definition audit_keep :: "audit_log \<Rightarrow> bus_event \<Rightarrow> audit_log" where
  "audit_keep l evt =
     (let recent = al_recent l @ [evt] in
      l\<lparr>al_recent := (if length recent > al_max l then drop (length recent - al_max l) recent else recent)\<rparr>)"

definition Record ::
  "('s, 'p) bus option \<Rightarrow> time \<Rightarrow> time \<Rightarrow> uuid \<Rightarrow> bus_event \<Rightarrow> audit_log \<times> ('s, 'p) bus_state \<Rightarrow>
    unit result \<times> audit_log \<times> ('s, 'p) bus_state" where
  "Record b now now' u evt ls =
     (let (l, st) = ls in
      case b of
        None \<Rightarrow> (Inr (), audit_keep l evt, st)
      | Some b \<Rightarrow>
          (case Emit b now now' u evt st of
             (Inl err, st') \<Rightarrow> (Inl err, l, st')
           | (Inr _, st') \<Rightarrow> (Inr (), audit_keep l evt, st')))"

definition Recent :: "audit_log \<Rightarrow> bus_event list" where
  "Recent l = al_recent l"

interpretation audit_ring: bounded_log audit_keep al_recent al_max
  by unfold_locales (auto simp: audit_keep_def lastn_def Let_def)

section \<open>What reaches the publisher\<close>

text \<open>
  Two events are the same for the outbox when they agree on chain, hash, status and height. Of a
  stream of events, \<open>firsts\<close> keeps those that were not seen before.
\<close>

definition event_id :: "bus_event \<Rightarrow> string \<times> string \<times> status \<times> u64" where
  "event_id e = (be_ChainID e, be_TxHash e, be_Status e, be_BlockHeight e)"

fun firsts :: "(string \<times> string \<times> status \<times> u64) set \<Rightarrow> bus_event list \<Rightarrow> bus_event list" where
  "firsts seen [] = []"
| "firsts seen (e # es) =
     (if event_id e \<in> seen then firsts seen es else e # firsts (insert (event_id e) seen) es)"

type_synonym emit_input = "time \<times> time \<times> uuid \<times> bus_event"

fun emit_step :: "('s, 'p) bus \<Rightarrow> ('s, 'p) bus_state \<Rightarrow> emit_input \<Rightarrow> ('s, 'p) bus_state" where
  "emit_step b st (now, now', u, e) = snd (Emit b now now' u e st)"

fun in_event :: "emit_input \<Rightarrow> bus_event" where
  "in_event (now, now', u, e) = stamped now e"

definition publish_all :: "('s, 'p) bus \<Rightarrow> bus_event list \<Rightarrow> 'p \<Rightarrow> 'p" where
  "publish_all b es w = foldl (\<lambda>w e. snd (bus_publish b e w)) w es"

definition plain_event :: "('s, 'p) bus \<Rightarrow> bus_event \<Rightarrow> bool" where
  "plain_event b e \<longleftrightarrow> sep_free (be_ChainID e) \<and> sep_free (be_TxHash e) \<and> (\<exists>p. bu_marshal b e = Inr p)"

lemma stamped_simps [simp]:
  "event_id (stamped now e) = event_id e" "be_ChainID (stamped now e) = be_ChainID e"
  "be_TxHash (stamped now e) = be_TxHash e"
  by (simp_all add: stamped_def event_id_def)

lemma event_entry_simps [simp]:
  "outbox_id (event_entry e p) = event_id e" "oe_ChainID (event_entry e p) = be_ChainID e"
  "oe_TxHash (event_entry e p) = be_TxHash e"
  by (simp_all add: event_entry_def outbox_id_def event_id_def)

lemma bus_publish_fst [simp]: "fst (bus_publish b e w) = Inr ()"
  by (auto simp: bus_publish_def split: option.splits prod.splits sum.splits)

lemma bus_publish_eq: "bus_publish b e w = (Inr (), snd (bus_publish b e w))"
  using bus_publish_fst [of b e w] by (metis prod.collapse)

lemma publish_all_simps [simp]:
  "publish_all b [] w = w"
  "publish_all b (e # es) w = publish_all b es (snd (bus_publish b e w))"
  by (simp_all add: publish_all_def)

lemma firsts_ids: "event_id ` set (firsts seen es) = event_id ` set es - seen"
  by (induction seen es rule: firsts.induct) auto

lemma firsts_distinct: "distinct (map event_id (firsts seen es))"
  using firsts_ids by (induction seen es rule: firsts.induct) fastforce+

lemma firsts_length: "length (firsts seen es) \<le> length es"
  by (induction seen es rule: firsts.induct) auto

lemma firsts_new:
  "distinct (map event_id es) \<Longrightarrow> \<forall>e \<in> set es. event_id e \<notin> seen \<Longrightarrow> firsts seen es = es"
proof (induction es arbitrary: seen)
  case (Cons e es)
  then have "\<forall>x \<in> set es. event_id x \<notin> insert (event_id e) seen" by (auto simp: image_iff)
  with Cons show ?case by simp
qed simp

lemma firsts_cong:
  "\<forall>e \<in> set es. event_id e \<in> A \<longleftrightarrow> event_id e \<in> B \<Longrightarrow> firsts A es = firsts B es"
proof (induction es arbitrary: A B)
  case (Cons e es)
  show ?case using Cons.IH [of A B] Cons.IH [of "insert (event_id e) A" "insert (event_id e) B"] Cons.prems by simp
qed simp

text \<open>Events of other transactions do not matter for those of one.\<close>

lemma firsts_filter:
  assumes "\<And>e e'. event_id e = event_id e' \<Longrightarrow> P e = P e'"
  shows "filter P (firsts seen es) = firsts seen (filter P es)"
proof (induction es arbitrary: seen)
  case (Cons e es)
  have "firsts (insert (event_id e) seen) (filter P es) = firsts seen (filter P es)" if "\<not> P e"
    using assms [of _ e] that by (intro firsts_cong) auto
  then show ?case using Cons by simp
qed simp

context outbox_contract
begin

definition ids :: "'s \<Rightarrow> (string \<times> string \<times> status \<times> u64) set" where
  "ids s = outbox_id ` set (entries s)"

lemma Append_eq:
  assumes "inv s" and "sep_free (oe_ChainID e)" and "sep_free (oe_TxHash e)"
  obtains s' where "os_Append ops now u e s = (Inr (outbox_id e \<notin> ids s), s')" and "inv s'"
    and "ids s' = insert (outbox_id e) (ids s)"
proof
  let ?s' = "snd (os_Append ops now u e s)"
  show "os_Append ops now u e s = (Inr (outbox_id e \<notin> ids s), ?s')"
    using Append_fst [OF assms, of now u] by (metis ids_def prod.collapse)
  show "inv ?s'" using assms by (rule Append_inv)
  show "ids ?s' = insert (outbox_id e) (ids s)"
    using Append_entries [OF assms, of now u] by (auto simp: ids_def filled_id)
qed

text \<open>One call: it succeeds, and it publishes exactly when the outbox has no such event.\<close>

lemma Emit_outcome:
  assumes "bu_outbox b = ops" and "inv (bus_outbox st)" and "plain_event b (stamped now e)"
  obtains s' where "inv s'" and "ids s' = insert (event_id e) (ids (bus_outbox st))"
    and "Emit b now now' u e st =
      (Inr (), if event_id e \<in> ids (bus_outbox st)
               then st\<lparr>bus_outbox := s', bus_deduped := bus_deduped st + 1\<rparr>
               else st\<lparr>bus_outbox := s', bus_world := snd (bus_publish b (stamped now e) (bus_world st)),
                       bus_emitted := bus_emitted st + 1\<rparr>)"
proof -
  obtain p where p: "bu_marshal b (stamped now e) = Inr p"
    using assms(3) by (auto simp: plain_event_def)
  obtain s' where s': "inv s'" "ids s' = insert (event_id e) (ids (bus_outbox st))"
    "os_Append ops now' u (event_entry (stamped now e) p) (bus_outbox st) =
       (Inr (event_id e \<notin> ids (bus_outbox st)), s')"
    using Append_eq [OF assms(2), of "event_entry (stamped now e) p" now' u] assms(3)
    by (metis event_entry_simps plain_event_def stamped_simps(1))
  have "Emit b now now' u e st =
      (Inr (), if event_id e \<in> ids (bus_outbox st)
               then st\<lparr>bus_outbox := s', bus_deduped := bus_deduped st + 1\<rparr>
               else st\<lparr>bus_outbox := s', bus_world := snd (bus_publish b (stamped now e) (bus_world st)),
                       bus_emitted := bus_emitted st + 1\<rparr>)"
    using bus_publish_eq [of b "stamped now e" "bus_world st"]
    by (auto simp: Emit_def Let_def p assms(1) s'(3) mark_defs split: prod.splits)
  with s' show ?thesis by (intro that)
qed

lemma Emit_ok:
  assumes "bu_outbox b = ops" and "inv (bus_outbox st)" and "plain_event b (stamped now e)"
  shows "\<exists>st'. Emit b now now' u e st = (Inr (), st') \<and> inv (bus_outbox st')"
  by (rule Emit_outcome [OF assms, of now' u]) auto

lemma Emit_new:
  assumes "bu_outbox b = ops" and "inv (bus_outbox st)" and "plain_event b (stamped now e)"
    and "event_id e \<notin> ids (bus_outbox st)"
  shows "\<exists>s'. inv s' \<and> event_id e \<in> ids s' \<and>
    Emit b now now' u e st = (Inr (), st\<lparr>bus_outbox := s', bus_emitted := bus_emitted st + 1,
      bus_world := snd (bus_publish b (stamped now e) (bus_world st))\<rparr>)"
  by (rule Emit_outcome [OF assms(1-3), of now' u]) (use assms(4) in auto)

lemma Emit_repeated:
  assumes "bu_outbox b = ops" and "inv (bus_outbox st)" and "plain_event b (stamped now e)"
    and "event_id e \<in> ids (bus_outbox st)"
  shows "\<exists>s'. Emit b now now' u e st = (Inr (), st\<lparr>bus_outbox := s', bus_deduped := bus_deduped st + 1\<rparr>)"
  by (rule Emit_outcome [OF assms(1-3), of now' u]) (use assms(4) in auto)

lemma Emit_run:
  assumes "bu_outbox b = ops" and "inv (bus_outbox st)" and "\<forall>x \<in> set xs. plain_event b (in_event x)"
  shows "inv (bus_outbox (run (emit_step b) st xs)) \<and>
    ids (bus_outbox (run (emit_step b) st xs)) = ids (bus_outbox st) \<union> event_id ` in_event ` set xs \<and>
    bus_world (run (emit_step b) st xs) =
      publish_all b (firsts (ids (bus_outbox st)) (map in_event xs)) (bus_world st) \<and>
    bus_emitted (run (emit_step b) st xs) =
      bus_emitted st + int (length (firsts (ids (bus_outbox st)) (map in_event xs))) \<and>
    bus_deduped (run (emit_step b) st xs) =
      bus_deduped st + int (length xs) - int (length (firsts (ids (bus_outbox st)) (map in_event xs))) \<and>
    bus_failed (run (emit_step b) st xs) = bus_failed st"
  using assms(2,3)
proof (induction xs arbitrary: st)
  case (Cons x xs)
  obtain now now' u e where x: "x = (now, now', u, e)" by (cases x)
  have "plain_event b (stamped now e)" using Cons.prems(2) by (simp add: x)
  then obtain s' where s': "inv s'" "ids s' = insert (event_id e) (ids (bus_outbox st))"
    "Emit b now now' u e st =
      (Inr (), if event_id e \<in> ids (bus_outbox st)
               then st\<lparr>bus_outbox := s', bus_deduped := bus_deduped st + 1\<rparr>
               else st\<lparr>bus_outbox := s', bus_world := snd (bus_publish b (stamped now e) (bus_world st)),
                       bus_emitted := bus_emitted st + 1\<rparr>)"
    using Emit_outcome [OF assms(1) Cons.prems(1)] by metis
  let ?st = "snd (Emit b now now' u e st)"
  have ob: "bus_outbox ?st = s'" by (simp add: s'(3))
  have IH: "inv (bus_outbox (run (emit_step b) ?st xs)) \<and>
    ids (bus_outbox (run (emit_step b) ?st xs)) = ids s' \<union> event_id ` in_event ` set xs \<and>
    bus_world (run (emit_step b) ?st xs) =
      publish_all b (firsts (ids s') (map in_event xs)) (bus_world ?st) \<and>
    bus_emitted (run (emit_step b) ?st xs) = bus_emitted ?st + int (length (firsts (ids s') (map in_event xs))) \<and>
    bus_deduped (run (emit_step b) ?st xs) =
      bus_deduped ?st + int (length xs) - int (length (firsts (ids s') (map in_event xs))) \<and>
    bus_failed (run (emit_step b) ?st xs) = bus_failed ?st"
    using Cons.IH [of ?st] Cons.prems(2) s'(1) by (simp add: ob)
  show ?case
  proof (cases "event_id e \<in> ids (bus_outbox st)")
    case True
    with s'(2,3) IH show ?thesis by (simp add: x insert_absorb)
  next
    case False
    with s'(2,3) IH show ?thesis by (simp add: x)
  qed
qed simp

end

section \<open>Properties\<close>

lemma mem_ids_New [simp]: "mem_outbox.ids NewOutboxStore = {}"
  by (simp add: mem_outbox.ids_def NewOutboxStore_def)

text \<open>
  C25. The bus over a whole run, on the in-memory outbox: whatever is emitted, the publisher is
  called exactly once for each distinct event (chain, hash, status and height), with the first of the events
  that share these and in the order of these first emissions (\<open>firsts\<close> drops from the emitted
  events every one that shares them with an earlier one); the counters account for every call; and the outbox holds
  exactly the events that were emitted.
\<close>

theorem bus_publishes_each_once:
  assumes "bu_outbox b = mem_outbox_store uuid_str" and "\<forall>x \<in> set xs. plain_event b (in_event x)"
    and "new = firsts {} (map in_event xs)"
  shows "bus_world (run (emit_step b) (NewBus NewOutboxStore w) xs) = publish_all b new w \<and>
    distinct (map event_id new) \<and> event_id ` set new = event_id ` in_event ` set xs \<and>
    Stats (run (emit_step b) (NewBus NewOutboxStore w) xs) = (int (length new), int (length xs - length new), 0) \<and>
    outbox_id ` set (outbox_Snapshot (bus_outbox (run (emit_step b) (NewBus NewOutboxStore w) xs))) = event_id ` set new"
proof (intro conjI)
  let ?st = "NewBus NewOutboxStore w"
  have run: "mem_outbox.ids (bus_outbox (run (emit_step b) ?st xs)) = event_id ` in_event ` set xs"
    "bus_world (run (emit_step b) ?st xs) = publish_all b new w"
    "Stats (run (emit_step b) ?st xs) = (int (length new), int (length xs) - int (length new), 0)"
    unfolding assms(3) using mem_outbox.Emit_run [OF assms(1) _ assms(2), of ?st]
    by (simp_all add: NewBus_def Stats_def)
  show "bus_world (run (emit_step b) ?st xs) = publish_all b new w" by (fact run(2))
  show "distinct (map event_id new)" unfolding assms(3) by (rule firsts_distinct)
  show ids: "event_id ` set new = event_id ` in_event ` set xs" by (simp add: assms(3) firsts_ids)
  show "Stats (run (emit_step b) ?st xs) = (int (length new), int (length xs - length new), 0)"
    using run(3) firsts_length [of "{}" "map in_event xs"] by (simp add: assms(3) of_nat_diff)
  show "outbox_id ` set (outbox_Snapshot (bus_outbox (run (emit_step b) ?st xs))) = event_id ` set new"
    using run(1) ids by (simp add: mem_outbox.ids_def outbox_Snapshot_def)
qed

definition sample_event :: "status \<Rightarrow> bus_event" where
  "sample_event st = \<lparr>be_Type = ''tx.confirmed'', be_ChainID = ''ethereum'', be_TxHash = ''0xab'', be_From = [],
     be_To = [], be_Value = [], be_Fee = [], be_Status = st, be_BlockHeight = 7, be_BlockHash = [],
     be_Confirmations = 1, be_FinalizedAt = 0, be_EmittedAt = 5\<rparr>"

definition sample_bus :: "(mem_outbox, bus_event list) bus" where
  "sample_bus = \<lparr>bu_outbox = mem_outbox_store (\<lambda>_. []), bu_bus = Some (\<lambda>e w. (Inr (), w @ [e])),
     bu_marshal = (\<lambda>e. Inr [])\<rparr>"

theorem bus_publishes_each_once_witness:
  "bus_world (run (emit_step sample_bus) (NewBus NewOutboxStore [])
      [(1, 1, 1, sample_event StatusConfirmed), (2, 2, 2, sample_event StatusFinalized), (3, 3, 3, sample_event StatusConfirmed)]) =
    publish_all sample_bus [sample_event StatusConfirmed, sample_event StatusFinalized] []"
proof -
  let ?xs = "[(1, 1, 1, sample_event StatusConfirmed), (2, 2, 2, sample_event StatusFinalized), (3, 3, 3, sample_event StatusConfirmed)]
    :: emit_input list"
  have box: "bu_outbox sample_bus = mem_outbox_store (\<lambda>_. [])" by (simp add: sample_bus_def)
  have plain: "\<forall>x \<in> set ?xs. plain_event sample_bus (in_event x)"
    by (simp add: plain_event_def sample_bus_def sample_event_def stamped_def sep_free_def)
  have "[sample_event StatusConfirmed, sample_event StatusFinalized] = firsts {} (map in_event ?xs)"
    by (simp add: event_id_def sample_event_def stamped_def)
  from bus_publishes_each_once [OF box plain this, of "[]"] show ?thesis by (rule conjunct1)
qed

text \<open>
  A failure of the publisher is lost: \<open>Emit\<close> reports success and counts the event as emitted,
  and emitting the event again is taken for a repetition, so the publisher is not called a second
  time. No operation of the bus marks an outbox entry as emitted or reads the pending ones, so the
  delivery is at most once, where the package comment promises at least once.
\<close>

theorem publish_failure_not_retried:
  assumes "bu_outbox b = mem_outbox_store uuid_str" and "outbox_inv (bus_outbox st)"
    and "bu_bus b = Some pub" and "pub (stamped now e) (bus_world st) = (Inl err, w)"
    and "plain_event b (stamped now e)" and "plain_event b (stamped now2 e)"
    and "event_id e \<notin> outbox_id ` set (ob_entries (bus_outbox st))"
  shows "\<exists>st1 st2. Emit b now now' u e st = (Inr (), st1) \<and> bus_world st1 = w \<and>
    bus_emitted st1 = bus_emitted st + 1 \<and> bus_failed st1 = bus_failed st \<and>
    Emit b now2 now2' u2 e st1 = (Inr (), st2) \<and> bus_world st2 = w \<and> bus_emitted st2 = bus_emitted st1"
proof -
  have pub: "snd (bus_publish b (stamped now e) (bus_world st)) = w"
    using assms(3,4) by (simp add: bus_publish_def)
  let ?st1 = "\<lambda>s1. st\<lparr>bus_outbox := s1, bus_emitted := bus_emitted st + 1, bus_world := w\<rparr>"
  obtain s1 where s1: "outbox_inv s1" "event_id e \<in> mem_outbox.ids s1" "Emit b now now' u e st = (Inr (), ?st1 s1)"
    using mem_outbox.Emit_new [OF assms(1,2,5), of now' u] assms(7) pub by (auto simp: mem_outbox.ids_def)
  have "outbox_inv (bus_outbox (?st1 s1))" and "event_id e \<in> mem_outbox.ids (bus_outbox (?st1 s1))"
    using s1(1,2) by simp_all
  from mem_outbox.Emit_repeated [OF assms(1) this(1) assms(6) this(2), of now2' u2] s1(3)
  show ?thesis by auto
qed

definition failing_bus :: "(mem_outbox, nat) bus" where
  "failing_bus = \<lparr>bu_outbox = mem_outbox_store (\<lambda>_. []), bu_bus = Some (\<lambda>e w. (Inl (ErrRemote ''down''), w + 1)),
     bu_marshal = (\<lambda>e. Inr [])\<rparr>"

theorem publish_failure_not_retried_witness:
  "\<exists>st1 st2. Emit failing_bus 1 1 1 (sample_event StatusConfirmed) (NewBus NewOutboxStore 0) = (Inr (), st1) \<and>
    Emit failing_bus 2 2 2 (sample_event StatusConfirmed) st1 = (Inr (), st2) \<and> bus_world st2 = 1 \<and>
    bus_emitted st2 = 1"
proof -
  have plain: "plain_event failing_bus (stamped n (sample_event StatusConfirmed))" for n
    by (simp add: plain_event_def failing_bus_def sample_event_def stamped_def sep_free_def)
  have "bu_outbox failing_bus = mem_outbox_store (\<lambda>_. [])"
    and "bu_bus failing_bus = Some (\<lambda>e w. (Inl (ErrRemote ''down''), w + 1))"
    by (simp_all add: failing_bus_def)
  from publish_failure_not_retried [where now = 1 and now' = 1 and u = 1 and ?now2.0 = 2 and ?now2'.0 = 2 and ?u2.0 = 2,
      OF this(1) _ this(2) _ plain plain, of "NewBus NewOutboxStore 0" "ErrRemote ''down''" 1]
  show ?thesis using outbox_inv_New by (auto simp: NewBus_def NewOutboxStore_def)
qed

text \<open>
  Reading a Kafka URL back: the URL made of a list of brokers and a topic selects the Kafka
  publisher with exactly these brokers, in order, and this topic, or the default topic when it is
  empty.
\<close>

theorem kafka_url_roundtrip:
  assumes "bs \<noteq> []" and "\<forall>w \<in> set bs. w \<noteq> [] \<and> (\<forall>c \<in> set w. \<not> ascii_space c \<and> c \<noteq> CHR '','' \<and> c \<noteq> CHR ''?'')"
    and "CHR ''&'' \<notin> set topic"
  shows "NewPublisherFromURL (''kafka://'' @ go_join CHR '','' bs @ ''?topic='' @ topic) =
    Inr (KafkaPublisher \<lparr>kw_brokers = bs, kw_topic = (if topic = [] then ''blockchain.events.v1'' else topic)\<rparr>)"
proof -
  let ?rest = "go_join CHR '','' bs"
  have "CHR ''?'' \<notin> set ?rest" using assms(1,2) by (cases bs) (auto simp: go_join_def)
  then have cut: "go_cut CHR ''?'' (?rest @ ''?topic='' @ topic) = (?rest, Some (''topic='' @ topic))"
    using go_cut_append [of "CHR ''?''" ?rest "''topic='' @ topic"] by simp
  have "query_topic (''topic='' @ topic) = topic"
    using assms(3) by (simp add: query_topic_def go_split_free has_prefix_def trim_prefix_def)
  moreover have "csv_parts ?rest = bs" using assms(1,2) by (intro csv_parts_join) auto
  ultimately have "NewKafkaPublisherFromURL (''kafka://'' @ ?rest @ ''?topic='' @ topic) =
      Inr \<lparr>kw_brokers = bs, kw_topic = (if topic = [] then ''blockchain.events.v1'' else topic)\<rparr>"
    using cut trim_prefix_append [of "''kafka://''" "?rest @ ''?topic='' @ topic"] assms(1)
    by (simp add: NewKafkaPublisherFromURL_def NewKafkaPublisher_def)
  then show ?thesis
    using has_prefix_append [of "''kafka://''" "?rest @ ''?topic='' @ topic"]
    by (simp add: NewPublisherFromURL_def)
qed

theorem kafka_url_roundtrip_witness:
  "NewPublisherFromURL ''kafka://a:9092,b:9092?topic=t'' =
    Inr (KafkaPublisher \<lparr>kw_brokers = [''a:9092'', ''b:9092''], kw_topic = ''t''\<rparr>)"
  using kafka_url_roundtrip [of "[''a:9092'', ''b:9092'']" "''t''"] by (simp add: go_join_def ascii_space_def)

end
