(* ===== verification/Broadcast_Service.thy ===== *)
theory Broadcast_Service
  imports Prepayment Confirmation_Pool Mempool_Watcher Event_Bus
begin

text \<open>
  The broadcast path (\<open>internal/broadcast/service.go\<close>) and the re-broadcaster
  (\<open>internal/broadcast/rebroadcaster.go\<close>). The service composes the registry, the two stores, the
  prepayment manager, the confirmation pool, the mempool watcher and the event bus; its state is the
  states of these components. The adapters of the registry act on one state \<open>'w\<close>, the nodes behind
  them. An optional collaborator that is \<open>nil\<close> in the code is \<open>None\<close> or \<open>False\<close> here.
\<close>

section \<open>Requests\<close>

record request =
  rq_ChainID :: string
  rq_SignedTx :: bytes
  rq_From :: string
  rq_WalletID :: string
  rq_To :: string
  rq_Value :: string
  rq_Nonce :: u64
  rq_SubmittedBy :: string

record response =
  rp_TxHash :: string
  rp_Nonce :: u64

section \<open>The service\<close>

record ('b, 'c, 'w, 'r, 'l, 'o, 'p) service =
  sc_registry :: "'w registry"
  sc_broadcasts :: "'b broadcast_store"
  sc_confirms :: "'c confirmation_store option"
  sc_prepay :: "(prepay_manager \<times> 'r redis_client \<times> 'l wallet_client) option"
  sc_watcher :: bool
  sc_bus :: "('o, 'p) bus option"
  sc_timeout :: duration
  sc_retryMax :: int
  sc_tracker :: bool

record ('b, 'c, 'w, 'r, 'l, 'o, 'p) service_state =
  sv_broadcasts :: 'b
  sv_confirms :: 'c
  sv_world :: 'w
  sv_redis :: 'r
  sv_wallet :: 'l
  sv_pool :: worker_pool
  sv_watch :: watcher
  sv_bus :: "('o, 'p) bus_state"

record options =
  op_Timeout :: duration
  op_RetryMax :: int

definition NewService ::
  "'w registry \<Rightarrow> 'b broadcast_store \<Rightarrow> 'c confirmation_store option \<Rightarrow>
    (prepay_manager \<times> 'r redis_client \<times> 'l wallet_client) option \<Rightarrow> bool \<Rightarrow> ('o, 'p) bus option \<Rightarrow> bool \<Rightarrow>
    options \<Rightarrow> ('b, 'c, 'w, 'r, 'l, 'o, 'p) service" where
  "NewService reg b c prepay watcher bus tracker opts =
     \<lparr>sc_registry = reg, sc_broadcasts = b, sc_confirms = c, sc_prepay = prepay, sc_watcher = watcher,
      sc_bus = bus,
      sc_timeout = (if op_Timeout opts \<le> 0 then 10 * 1000000000 else op_Timeout opts),
      sc_retryMax = (if op_RetryMax opts \<le> 0 then 3 else op_RetryMax opts),
      sc_tracker = tracker\<rparr>"

text \<open>
  What a call draws from outside: what the prepayment meets, the readings of the clock and the
  fresh ids, numbered in the order in which the code reads them.
\<close>

record bcast_input =
  bi_env :: prepay_env
  bi_clk :: "nat \<Rightarrow> time"
  bi_uuid :: "nat \<Rightarrow> uuid"

text \<open>
  The retry loop: \<open>n\<close> attempts are left, \<open>lastErr\<close> is the error of the attempt before. Each attempt
  has a context with the service's timeout; a node that exceeds it answers with an error.
\<close>

fun submit_loop :: "'w chain_adapter \<Rightarrow> bytes \<Rightarrow> nat \<Rightarrow> error option \<Rightarrow> 'w \<Rightarrow> string result \<times> 'w" where
  "submit_loop adapter signedTx 0 lastErr w = ((case lastErr of None \<Rightarrow> Inr [] | Some e \<Rightarrow> Inl e), w)"
| "submit_loop adapter signedTx (Suc n) lastErr w =
     (case ad_Broadcast adapter signedTx w of
        (Inr hash, w') \<Rightarrow> (Inr hash, w')
      | (Inl err, w') \<Rightarrow> submit_loop adapter signedTx n (Some err) w')"

definition submitWithRetry :: "int \<Rightarrow> 'w chain_adapter \<Rightarrow> bytes \<Rightarrow> 'w \<Rightarrow> string result \<times> 'w" where
  "submitWithRetry retryMax adapter signedTx w = submit_loop adapter signedTx (nat (retryMax + 1)) None w"

definition isTransient :: "string option \<Rightarrow> bool" where
  "isTransient err =
     (case err of
        None \<Rightarrow> False
      | Some text \<Rightarrow>
          (let msg = to_lower text
           in go_contains msg ''timeout'' \<or> go_contains msg ''temporary'' \<or> go_contains msg ''connection reset''))"

text \<open>The fee to prepay, zero when the adapter gives none.\<close>

definition standard_fee :: "'w chain_adapter \<Rightarrow> 'w \<Rightarrow> int" where
  "standard_fee adapter w =
     (case ad_EstimateFee adapter \<lparr>fr_To = [], fr_Amount = None, fr_Priority = PriorityStandard\<rparr> w of
        Inr (Some fee) \<Rightarrow> (case fe_TotalFee fee of Some t \<Rightarrow> t | None \<Rightarrow> 0)
      | _ \<Rightarrow> 0)"

definition prepay_step ::
  "('b, 'c, 'w, 'r, 'l, 'o, 'p) service \<Rightarrow> 'w chain_adapter \<Rightarrow> prepay_env \<Rightarrow> request \<Rightarrow>
    ('b, 'c, 'w, 'r, 'l, 'o, 'p) service_state \<Rightarrow>
    u64 result option \<times> ('b, 'c, 'w, 'r, 'l, 'o, 'p) service_state" where
  "prepay_step sv adapter env req st =
     (case sc_prepay sv of
        None \<Rightarrow> (Some (Inr (rq_Nonce req)), st)
      | Some (m, redis, wallet) \<Rightarrow>
          if rq_From req = [] then (Some (Inr (rq_Nonce req)), st)
          else
            (let feeAmt = standard_fee adapter (sv_world st);
                 env = env\<lparr>pe_balance := ad_Balance adapter (rq_From req) (sv_world st)\<rparr>;
                 (res, r, l) = EnsureFundsAndNonce m redis wallet (ad_ChainID adapter) env (rq_WalletID req)
                   (rq_From req) feeAmt (sv_redis st) (sv_wallet st);
                 st = st\<lparr>sv_redis := r, sv_wallet := l\<rparr> in
             case res of
               None \<Rightarrow> (None, st)
             | Some (Inl err) \<Rightarrow> (Some (Inl err), st)
             | Some (Inr pr) \<Rightarrow> (Some (Inr (pr_Nonce pr)), st)))"

text \<open>Persisting a submitted transaction: the row of \<open>broadcasts\<close>.\<close>

definition broadcast_record :: "time \<Rightarrow> request \<Rightarrow> u64 \<Rightarrow> string \<Rightarrow> broadcast_row" where
  "broadcast_record now req nonce hash =
     \<lparr>br_ID = zero_uuid, br_ChainID = rq_ChainID req, br_TxHash = hash, br_SignedTx = rq_SignedTx req,
      br_FromAddr = rq_From req, br_ToAddr = rq_To req,
      br_Value = (if rq_Value req \<noteq> [] then big_SetString (rq_Value req) else Some 0),
      br_Nonce = nonce, br_SubmittedAt = now, br_SubmittedBy = rq_SubmittedBy req\<rparr>"

definition first_confirmation :: "time \<Rightarrow> string \<Rightarrow> string \<Rightarrow> confirmation" where
  "first_confirmation now chainID hash =
     \<lparr>cf_ID = zero_uuid, cf_ChainID = chainID, cf_TxHash = hash, cf_Status = StatusBroadcast,
      cf_BlockHeight = 0, cf_BlockHash = [], cf_Confirmations = 0, cf_FirstSeenAt = now,
      cf_ConfirmedAt = zero_time, cf_FinalizedAt = zero_time\<rparr>"

definition broadcasted_event :: "time \<Rightarrow> request \<Rightarrow> string \<Rightarrow> bus_event" where
  "broadcasted_event now req hash =
     \<lparr>be_Type = ''tx.broadcasted'', be_ChainID = rq_ChainID req, be_TxHash = hash, be_From = rq_From req,
      be_To = rq_To req, be_Value = rq_Value req, be_Fee = [], be_Status = StatusBroadcast,
      be_BlockHeight = 0, be_BlockHash = [], be_Confirmations = 0, be_FinalizedAt = zero_time,
      be_EmittedAt = now\<rparr>"

text \<open>The registrations after the row is stored, each only where the collaborator is set.\<close>

definition register_tx ::
  "('b, 'c, 'w, 'r, 'l, 'o, 'p) service \<Rightarrow> bcast_input \<Rightarrow> request \<Rightarrow> string \<Rightarrow>
    ('b, 'c, 'w, 'r, 'l, 'o, 'p) service_state \<Rightarrow> ('b, 'c, 'w, 'r, 'l, 'o, 'p) service_state" where
  "register_tx sv inp req hash st =
     (let clk = bi_clk inp; chainID = rq_ChainID req;
          st = (case sc_confirms sv of
                  None \<Rightarrow> st
                | Some cs \<Rightarrow> st\<lparr>sv_confirms := snd (cs_Upsert cs (clk 3) (bi_uuid inp 1)
                    (first_confirmation (clk 2) chainID hash) (sv_confirms st))\<rparr>);
          st = (if sc_tracker sv then st\<lparr>sv_pool := Track chainID hash (sv_pool st)\<rparr> else st);
          st = (if sc_watcher sv then st\<lparr>sv_watch := watcher_Track (clk 4) chainID hash (sv_watch st)\<rparr> else st)
      in case sc_bus sv of
           None \<Rightarrow> st
         | Some b \<Rightarrow> st\<lparr>sv_bus := snd (Emit b (clk 6) (clk 7) (bi_uuid inp 2)
             (broadcasted_event (clk 5) req hash) (sv_bus st))\<rparr>)"

definition Broadcast ::
  "('b, 'c, 'w, 'r, 'l, 'o, 'p) service \<Rightarrow> bcast_input \<Rightarrow> request option \<Rightarrow>
    ('b, 'c, 'w, 'r, 'l, 'o, 'p) service_state \<Rightarrow>
    response result option \<times> ('b, 'c, 'w, 'r, 'l, 'o, 'p) service_state" where
  "Broadcast sv inp req0 st =
     (case req0 of
        None \<Rightarrow> (Some (Inl (ErrBadRequest ''missing chain or signed_tx'')), st)
      | Some req \<Rightarrow>
          if rq_ChainID req = [] \<or> length (rq_SignedTx req) = 0
          then (Some (Inl (ErrBadRequest ''missing chain or signed_tx'')), st)
          else
            (case registry_Get (rq_ChainID req) (sc_registry sv) of
               Inl err \<Rightarrow> (Some (Inl err), st)
             | Inr adapter \<Rightarrow>
                 (let predicted = predictHash (rq_SignedTx req) in
                  case (if predicted \<noteq> []
                        then bs_GetByTxHash (sc_broadcasts sv) (rq_ChainID req) predicted (sv_broadcasts st)
                        else Inl (ErrNotFound (rq_ChainID req) predicted)) of
                    Inr existing \<Rightarrow>
                      (Some (Inr \<lparr>rp_TxHash = br_TxHash existing, rp_Nonce = br_Nonce existing\<rparr>), st)
                  | Inl _ \<Rightarrow>
                      (case prepay_step sv adapter (bi_env inp) req st of
                         (None, st) \<Rightarrow> (None, st)
                       | (Some (Inl err), st) \<Rightarrow> (Some (Inl err), st)
                       | (Some (Inr nonce), st) \<Rightarrow>
                           (let (submitted, w) = submitWithRetry (sc_retryMax sv) adapter (rq_SignedTx req) (sv_world st);
                                st = st\<lparr>sv_world := w\<rparr> in
                            case submitted of
                              Inl err \<Rightarrow> (Some (Inl (ErrAdapter err)), st)
                            | Inr hash \<Rightarrow>
                                (let (inserted, bs) = bs_Insert (sc_broadcasts sv) (bi_clk inp 1) (bi_uuid inp 0)
                                       (broadcast_record (bi_clk inp 0) req nonce hash) (sv_broadcasts st);
                                     st = st\<lparr>sv_broadcasts := bs\<rparr> in
                                 case inserted of
                                   Inl err \<Rightarrow> (Some (Inl err), st)
                                 | Inr _ \<Rightarrow>
                                     (Some (Inr \<lparr>rp_TxHash = hash, rp_Nonce = nonce\<rparr>),
                                      register_tx sv inp req hash st)))))))"

section \<open>The re-broadcaster\<close>

definition Rebroadcast ::
  "'w registry \<Rightarrow> 'b broadcast_store \<Rightarrow> string \<Rightarrow> string \<Rightarrow> 'w \<times> 'b \<Rightarrow> unit result \<times> 'w \<times> 'b" where
  "Rebroadcast reg broadcasts chainID txHash wb =
     (let (w, bs) = wb in
      case registry_Get chainID reg of
        Inl err \<Rightarrow> (Inl err, w, bs)
      | Inr adapter \<Rightarrow>
          (case bs_GetByTxHash broadcasts chainID txHash bs of
             Inl err \<Rightarrow> (Inl (ErrWrapped (''rebroadcast lookup '' @ chainID @ ''/'' @ txHash) err), w, bs)
           | Inr b \<Rightarrow>
               if length (br_SignedTx b) = 0 then (Inl (ErrMessage ''rebroadcast: empty signed tx''), w, bs)
               else (case ad_Broadcast adapter (br_SignedTx b) w of
                       (Inl err, w') \<Rightarrow>
                         (Inl (ErrWrapped (''rebroadcast '' @ chainID @ ''/'' @ txHash) err), w', bs)
                     | (Inr _, w') \<Rightarrow> (Inr (), w', bs))))"

section \<open>The retry loop\<close>

text \<open>The node after \<open>k\<close> submissions of the same bytes.\<close>

definition tries :: "'w chain_adapter \<Rightarrow> bytes \<Rightarrow> nat \<Rightarrow> 'w \<Rightarrow> 'w" where
  "tries a b k w = ((\<lambda>w. snd (ad_Broadcast a b w)) ^^ k) w"

lemma tries_simps [simp]:
  "tries a b 0 w = w" "tries a b (Suc k) w = tries a b k (snd (ad_Broadcast a b w))"
  by (simp_all add: tries_def funpow_Suc_right del: funpow.simps(2))

lemma submit_loop_ok:
  assumes "k < n" and "\<And>i. i < k \<Longrightarrow> \<exists>e. fst (ad_Broadcast a b (tries a b i w)) = Inl e"
    and "fst (ad_Broadcast a b (tries a b k w)) = Inr h"
  shows "submit_loop a b n le w = (Inr h, tries a b (Suc k) w)"
  using assms
proof (induction k arbitrary: n le w)
  case 0
  then show ?case by (cases n) (auto split: prod.splits)
next
  case (Suc k)
  then obtain m where n: "n = Suc m" by (cases n) auto
  obtain e where e: "fst (ad_Broadcast a b w) = Inl e" using Suc.prems(2) [of 0] by auto
  let ?w = "snd (ad_Broadcast a b w)"
  have "submit_loop a b n le w = submit_loop a b m (Some e) ?w"
    using e by (cases "ad_Broadcast a b w") (simp add: n)
  also have "\<dots> = (Inr h, tries a b (Suc k) ?w)"
  proof (rule Suc.IH)
    show "\<exists>e. fst (ad_Broadcast a b (tries a b i ?w)) = Inl e" if "i < k" for i
      using Suc.prems(2) [of "Suc i"] that by simp
  qed (use Suc.prems n in auto)
  finally show ?case by simp
qed

lemma submit_loop_fail:
  assumes "\<And>i. i \<le> k \<Longrightarrow> \<exists>e. fst (ad_Broadcast a b (tries a b i w)) = Inl e"
    and "fst (ad_Broadcast a b (tries a b k w)) = Inl e"
  shows "submit_loop a b (Suc k) le w = (Inl e, tries a b (Suc k) w)"
  using assms
proof (induction k arbitrary: le w)
  case 0
  then show ?case by (auto split: prod.splits)
next
  case (Suc k)
  obtain e0 where e0: "fst (ad_Broadcast a b w) = Inl e0" using Suc.prems(1) [of 0] by auto
  let ?w = "snd (ad_Broadcast a b w)"
  have "submit_loop a b (Suc (Suc k)) le w = submit_loop a b (Suc k) (Some e0) ?w"
    using e0 by (cases "ad_Broadcast a b w") simp
  also have "\<dots> = (Inl e, tries a b (Suc k) ?w)"
  proof (rule Suc.IH)
    show "\<exists>e. fst (ad_Broadcast a b (tries a b i ?w)) = Inl e" if "i \<le> k" for i
      using Suc.prems(1) [of "Suc i"] that by simp
  qed (use Suc.prems in auto)
  finally show ?case by simp
qed

context adapter_contract
begin

lemma submit_loop_hash:
  assumes "inv w" and "submit_loop ad b n le w = (Inr h, w')" and "n \<noteq> 0 \<or> le \<noteq> None"
  shows "h = hash_of b"
  using assms
proof (induction n arbitrary: le w)
  case 0
  then show ?case by (auto split: option.splits)
next
  case (Suc n)
  obtain r w1 where call: "ad_Broadcast ad b w = (r, w1)" by (cases "ad_Broadcast ad b w")
  then have "inv w1" using Broadcast_inv [OF Suc.prems(1), of b] by simp
  show ?case
  proof (cases r)
    case (Inl e)
    then show ?thesis using Suc.IH [OF \<open>inv w1\<close>, of "Some e"] Suc.prems(2) call by simp
  next
    case (Inr h0)
    then show ?thesis using Broadcast_hash [OF Suc.prems(1), of b h] Suc.prems(2) call by simp
  qed
qed

lemma submitWithRetry_hash:
  assumes "inv w" and "0 \<le> retryMax" and "submitWithRetry retryMax ad b w = (Inr h, w')"
  shows "h = hash_of b"
  using submit_loop_hash [OF assms(1), of b "nat (retryMax + 1)" None h w'] assms(2,3)
  by (simp add: submitWithRetry_def)

end

section \<open>The branches of a call\<close>

lemma prepay_step_frame [simp]:
  "sv_broadcasts (snd (prepay_step sv a env req st)) = sv_broadcasts st"
  "sv_confirms (snd (prepay_step sv a env req st)) = sv_confirms st"
  "sv_world (snd (prepay_step sv a env req st)) = sv_world st"
  "sv_pool (snd (prepay_step sv a env req st)) = sv_pool st"
  "sv_watch (snd (prepay_step sv a env req st)) = sv_watch st"
  "sv_bus (snd (prepay_step sv a env req st)) = sv_bus st"
  by (auto simp: prepay_step_def Let_def split: option.splits prod.splits sum.splits)

lemma register_tx_frame [simp]:
  "sv_broadcasts (register_tx sv inp req h st) = sv_broadcasts st"
  "sv_world (register_tx sv inp req h st) = sv_world st"
  "sv_redis (register_tx sv inp req h st) = sv_redis st"
  "sv_wallet (register_tx sv inp req h st) = sv_wallet st"
  by (simp_all add: register_tx_def Let_def split: option.splits)

lemma register_tx_registers [simp]:
  "sv_confirms (register_tx sv inp req h st) =
     (case sc_confirms sv of
        None \<Rightarrow> sv_confirms st
      | Some cs \<Rightarrow> snd (cs_Upsert cs (bi_clk inp 3) (bi_uuid inp 1)
          (first_confirmation (bi_clk inp 2) (rq_ChainID req) h) (sv_confirms st)))"
  "sv_pool (register_tx sv inp req h st) =
     (if sc_tracker sv then Track (rq_ChainID req) h (sv_pool st) else sv_pool st)"
  "sv_watch (register_tx sv inp req h st) =
     (if sc_watcher sv then watcher_Track (bi_clk inp 4) (rq_ChainID req) h (sv_watch st) else sv_watch st)"
  "sv_bus (register_tx sv inp req h st) =
     (case sc_bus sv of
        None \<Rightarrow> sv_bus st
      | Some b \<Rightarrow> snd (Emit b (bi_clk inp 6) (bi_clk inp 7) (bi_uuid inp 2)
          (broadcasted_event (bi_clk inp 5) req h) (sv_bus st)))"
  by (simp_all add: register_tx_def Let_def split: option.splits)

lemma Broadcast_cases:
  assumes "Broadcast sv inp (Some req) st = (res, st')"
  obtains
    (refused) err where "res = Some (Inl err)" "st' = st"
      "err = ErrBadRequest ''missing chain or signed_tx'' \<or> err = ErrUnknownChain (rq_ChainID req)"
      "rq_ChainID req = [] \<or> rq_SignedTx req = [] \<or> map_of (sc_registry sv) (rq_ChainID req) = None"
  | (known) b where "rq_SignedTx req \<noteq> []" "res = Some (Inr \<lparr>rp_TxHash = br_TxHash b, rp_Nonce = br_Nonce b\<rparr>)"
      "st' = st" "bs_GetByTxHash (sc_broadcasts sv) (rq_ChainID req) (predictHash (rq_SignedTx req)) (sv_broadcasts st) = Inr b"
  | (waiting) a where "res = None" "prepay_step sv a (bi_env inp) req st = (None, st')"
  | (unfunded) a err where "res = Some (Inl err)" "prepay_step sv a (bi_env inp) req st = (Some (Inl err), st')"
  | (rejected) a n st1 err w where "res = Some (Inl (ErrAdapter err))" "st' = st1\<lparr>sv_world := w\<rparr>"
      "prepay_step sv a (bi_env inp) req st = (Some (Inr n), st1)"
      "submitWithRetry (sc_retryMax sv) a (rq_SignedTx req) (sv_world st1) = (Inl err, w)"
  | (unsaved) a n h st1 w err bs where "res = Some (Inl err)" "st' = st1\<lparr>sv_world := w, sv_broadcasts := bs\<rparr>"
      "prepay_step sv a (bi_env inp) req st = (Some (Inr n), st1)"
      "bs_Insert (sc_broadcasts sv) (bi_clk inp 1) (bi_uuid inp 0)
         (broadcast_record (bi_clk inp 0) req n h) (sv_broadcasts st1) = (Inl err, bs)"
      "registry_Get (rq_ChainID req) (sc_registry sv) = Inr a"
      "submitWithRetry (sc_retryMax sv) a (rq_SignedTx req) (sv_world st1) = (Inr h, w)"
  | (accepted) a n st1 h w bs where "rq_SignedTx req \<noteq> []"
      "\<forall>b. predictHash (rq_SignedTx req) \<noteq> [] \<longrightarrow>
         bs_GetByTxHash (sc_broadcasts sv) (rq_ChainID req) (predictHash (rq_SignedTx req)) (sv_broadcasts st) \<noteq> Inr b"
      "res = Some (Inr \<lparr>rp_TxHash = h, rp_Nonce = n\<rparr>)"
      "registry_Get (rq_ChainID req) (sc_registry sv) = Inr a"
      "st' = register_tx sv inp req h (st1\<lparr>sv_world := w, sv_broadcasts := bs\<rparr>)"
      "prepay_step sv a (bi_env inp) req st = (Some (Inr n), st1)"
      "submitWithRetry (sc_retryMax sv) a (rq_SignedTx req) (sv_world st1) = (Inr h, w)"
      "bs_Insert (sc_broadcasts sv) (bi_clk inp 1) (bi_uuid inp 0)
         (broadcast_record (bi_clk inp 0) req n h) (sv_broadcasts st1) = (Inr (), bs)"
proof (cases "rq_ChainID req = [] \<or> rq_SignedTx req = []")
  case True
  with assms show ?thesis by (intro refused) (auto simp: Broadcast_def)
next
  case ok: False
  show ?thesis
  proof (cases "registry_Get (rq_ChainID req) (sc_registry sv)")
    case (Inl err)
    with ok assms show ?thesis
      by (intro refused [of err]) (auto simp: Broadcast_def registry_Get_def split: option.splits)
  next
    case reg: (Inr a)
    let ?h = "predictHash (rq_SignedTx req)"
    show ?thesis
    proof (cases "if ?h \<noteq> [] then bs_GetByTxHash (sc_broadcasts sv) (rq_ChainID req) ?h (sv_broadcasts st)
                  else Inl (ErrNotFound (rq_ChainID req) ?h)")
      case (Inr b)
      with ok reg assms show ?thesis by (intro known [of b]) (auto simp: Broadcast_def split: if_splits)
    next
      case look: (Inl e)
      obtain pr st1 where pp: "prepay_step sv a (bi_env inp) req st = (pr, st1)" by (cases "prepay_step sv a (bi_env inp) req st")
      consider "pr = None" | err where "pr = Some (Inl err)" | n where "pr = Some (Inr n)"
        by (metis option.exhaust sum.exhaust)
      then show ?thesis
      proof cases
        case 1
        with ok reg look pp assms show ?thesis by (intro waiting [of a]) (simp_all add: Broadcast_def Let_def)
      next
        case 2
        with ok reg look pp assms show ?thesis by (intro unfunded [of err a]) (simp_all add: Broadcast_def Let_def)
      next
        case 3
        obtain sub w where sub: "submitWithRetry (sc_retryMax sv) a (rq_SignedTx req) (sv_world st1) = (sub, w)"
          by (cases "submitWithRetry (sc_retryMax sv) a (rq_SignedTx req) (sv_world st1)")
        show ?thesis
        proof (cases sub)
          case (Inl err)
          with 3 ok reg look pp sub assms show ?thesis
            by (intro rejected [of err w st1 a n]) (simp_all add: Broadcast_def Let_def)
        next
          case (Inr h)
          obtain ins bs where ins: "bs_Insert (sc_broadcasts sv) (bi_clk inp 1) (bi_uuid inp 0)
              (broadcast_record (bi_clk inp 0) req n h) (sv_broadcasts st1) = (ins, bs)"
            by (cases "bs_Insert (sc_broadcasts sv) (bi_clk inp 1) (bi_uuid inp 0)
              (broadcast_record (bi_clk inp 0) req n h) (sv_broadcasts st1)")
          show ?thesis
          proof (cases ins)
            case err: (Inl err)
            with 3 ok reg look pp sub Inr ins assms show ?thesis
              by (intro unsaved [of err bs w st1 a n h]) (simp_all add: Broadcast_def Let_def)
          next
            case saved: (Inr u)
            with 3 ok reg look pp sub Inr ins assms show ?thesis
              by (intro accepted [of h n a bs w st1]) (auto simp: Broadcast_def Let_def)
          qed
        qed
      qed
    qed
  qed
qed

section \<open>Over any store that meets the contract\<close>

fun service_step ::
  "('b, 'c, 'w, 'r, 'l, 'o, 'p) service \<Rightarrow> ('b, 'c, 'w, 'r, 'l, 'o, 'p) service_state \<Rightarrow> bcast_input \<times> request option \<Rightarrow>
    ('b, 'c, 'w, 'r, 'l, 'o, 'p) service_state" where
  "service_step sv st (inp, req) = snd (Broadcast sv inp req st)"

fun call_ok :: "bcast_input \<times> request option \<Rightarrow> bool" where
  "call_ok (inp, None) \<longleftrightarrow> True"
| "call_ok (inp, Some req) \<longleftrightarrow> sep_free (rq_ChainID req)"

lemma predictHash_not_Nil [simp]: "b \<noteq> [] \<Longrightarrow> predictHash b \<noteq> []"
  by (simp add: predictHash_def bcast_stubHash_def Let_def)

lemma broadcast_record_simps [simp]:
  "br_ChainID (broadcast_record now req n h) = rq_ChainID req" "br_TxHash (broadcast_record now req n h) = h"
  "br_Nonce (broadcast_record now req n h) = n" "br_SignedTx (broadcast_record now req n h) = rq_SignedTx req"
  by (simp_all add: broadcast_record_def)

context broadcast_contract
begin

text \<open>A call keeps the store's invariant and every row that is there.\<close>

lemma Broadcast_keeps:
  assumes "sc_broadcasts sv = ops" and "inv (sv_broadcasts st)" and "call_ok (inp, rq)"
  shows "inv (sv_broadcasts (snd (Broadcast sv inp rq st)))"
    and "sep_free c \<Longrightarrow> row (sv_broadcasts st) c h = Some r \<Longrightarrow>
      row (sv_broadcasts (snd (Broadcast sv inp rq st))) c h = Some r"
proof -
  have "inv (sv_broadcasts (snd (Broadcast sv inp rq st))) \<and>
    (sep_free c \<longrightarrow> row (sv_broadcasts st) c h = Some r \<longrightarrow>
      row (sv_broadcasts (snd (Broadcast sv inp rq st))) c h = Some r)" for c h r
  proof (cases rq)
    case None
    with assms(2) show ?thesis by (simp add: Broadcast_def)
  next
    case (Some req)
    obtain res st' where call: "Broadcast sv inp (Some req) st = (res, st')"
      by (cases "Broadcast sv inp (Some req) st")
    have free: "sep_free (rq_ChainID req)" using assms(3) Some by simp
    have ins: "inv bs \<and> (sep_free c \<longrightarrow> row (sv_broadcasts st) c h = Some r \<longrightarrow> row bs c h = Some r)"
      if "bs_Insert ops t u (broadcast_record now req n x) (sv_broadcasts st) = (res, bs)" for t u now n x res bs
      using Insert_inv [OF assms(2), of "broadcast_record now req n x" t u]
        Insert_again [OF assms(2), of "broadcast_record now req n x" c h r t u] free that
      by simp
    have st1: "sv_broadcasts st1 = sv_broadcasts st" if "prepay_step sv a env req st = (p, st1)" for a env p st1
      using prepay_step_frame(1) [of sv a env req st] that by simp
    from call have "inv (sv_broadcasts st') \<and>
      (sep_free c \<longrightarrow> row (sv_broadcasts st) c h = Some r \<longrightarrow> row (sv_broadcasts st') c h = Some r)"
    proof (cases rule: Broadcast_cases)
      case (unsaved a n x st1 w err bs)
      then show ?thesis using ins [of _ _ _ n x "Inl err" bs] assms(1) st1 by auto
    next
      case (accepted a n st1 x w bs)
      then show ?thesis using ins [of _ _ _ n x "Inr ()" bs] assms(1) st1 by auto
    qed (use assms(2) st1 in auto)
    with call Some show ?thesis by simp
  qed
  then show "inv (sv_broadcasts (snd (Broadcast sv inp rq st)))"
    and "sep_free c \<Longrightarrow> row (sv_broadcasts st) c h = Some r \<Longrightarrow>
      row (sv_broadcasts (snd (Broadcast sv inp rq st))) c h = Some r"
    by blast+
qed

lemma Broadcast_run_keeps:
  assumes "sc_broadcasts sv = ops" and "inv (sv_broadcasts st)" and "\<forall>x \<in> set xs. call_ok x"
    and "sep_free c" and "row (sv_broadcasts st) c h = Some r"
  shows "row (sv_broadcasts (run (service_step sv) st xs)) c h = Some r"
  using assms(2,3,5)
proof (induction xs arbitrary: st)
  case (Cons x xs)
  obtain inp rq where x: "x = (inp, rq)" by (cases x)
  have "call_ok (inp, rq)" using Cons.prems(2) x by simp
  note keep = Broadcast_keeps [OF assms(1) Cons.prems(1) this]
  show ?case using Cons.IH [of "snd (Broadcast sv inp rq st)"] keep(1) keep(2) [OF assms(4)] Cons.prems by (simp add: x)
qed simp

lemma Broadcast_known:
  assumes "sc_broadcasts sv = ops" and "rq_ChainID req \<noteq> []" and "rq_SignedTx req \<noteq> []"
    and "registry_Get (rq_ChainID req) (sc_registry sv) = Inr a"
    and "row (sv_broadcasts st) (rq_ChainID req) (predictHash (rq_SignedTx req)) = Some b"
  shows "Broadcast sv inp (Some req) st = (Some (Inr \<lparr>rp_TxHash = br_TxHash b, rp_Nonce = br_Nonce b\<rparr>), st)"
  using assms by (simp add: Broadcast_def GetByTxHash Let_def)

text \<open>
  After a successful call the row under the predicted hash answers it, provided the adapter's hash
  is the predicted one.
\<close>

lemma Broadcast_answered:
  assumes "sc_broadcasts sv = ops" and "inv (sv_broadcasts st)" and "sep_free (rq_ChainID req)"
    and "0 \<le> sc_retryMax sv" and "registry_Get (rq_ChainID req) (sc_registry sv) = Inr a"
    and "adapter_contract a hash_of winv" and "winv (sv_world st)" and "hash_of (rq_SignedTx req) = predictHash (rq_SignedTx req)"
    and "Broadcast sv inp (Some req) st = (Some (Inr resp), st1)"
  shows "\<exists>b. row (sv_broadcasts st1) (rq_ChainID req) (predictHash (rq_SignedTx req)) = Some b \<and>
    resp = \<lparr>rp_TxHash = br_TxHash b, rp_Nonce = br_Nonce b\<rparr> \<and> rq_SignedTx req \<noteq> []"
  using assms(9)
proof (cases rule: Broadcast_cases)
  case (known b)
  then show ?thesis using assms(1) by (auto simp: GetByTxHash split: option.splits)
next
  case (accepted a' n st2 h w bs)
  have "a' = a" using accepted(4) assms(5) by simp
  then have "submitWithRetry (sc_retryMax sv) a (rq_SignedTx req) (sv_world st) = (Inr h, w)"
    using accepted(7) by (metis accepted(6) prepay_step_frame(3) snd_conv)
  then have h: "h = predictHash (rq_SignedTx req)"
    using adapter_contract.submitWithRetry_hash [OF assms(6,7,4)] assms(8) by simp
  have st2: "sv_broadcasts st2 = sv_broadcasts st"
    using prepay_step_frame(1) [of sv a' "bi_env inp" req st] accepted(6) by simp
  have "row (sv_broadcasts st) (rq_ChainID req) h = None"
    using accepted(1,2) assms(1) h by (auto simp: GetByTxHash split: option.splits)
  then have "row bs (rq_ChainID req) h = Some (filled (bi_clk inp 1) (bi_uuid inp 0) (broadcast_record (bi_clk inp 0) req n h))"
    using Insert_row [OF assms(2), of "broadcast_record (bi_clk inp 0) req n h" "rq_ChainID req"
        "bi_clk inp 1" "bi_uuid inp 0" h] accepted(8) assms(1,3) st2 by simp
  then show ?thesis using accepted(1,3,5) h by (simp add: filled_keeps)
qed simp_all

end

lemma map_snd_update_new: "map_of m k = None \<Longrightarrow> v \<in> snd ` set (AList.update k v m)"
  by (induction m) (auto split: if_splits)

section \<open>Properties\<close>

text \<open>
  Broadcasting is idempotent, over whole histories: once a request has been accepted by a chain
  whose adapter returns the predicted hash, a request with the same chain and the same signed bytes,
  made after any further calls, gets the same hash and the same nonce back and changes nothing: no
  prepayment, no submission, no row, no event.
\<close>

theorem broadcast_idempotent:
  assumes "sc_broadcasts sv = mem_broadcast_store" and "0 \<le> sc_retryMax sv"
    and "sep_free (rq_ChainID req)" and "registry_Get (rq_ChainID req) (sc_registry sv) = Inr a"
    and "adapter_contract a hash_of winv" and "winv (sv_world st)" and "hash_of (rq_SignedTx req) = predictHash (rq_SignedTx req)"
    and "Broadcast sv inp (Some req) st = (Some (Inr resp), st1)"
    and "\<forall>x \<in> set xs. call_ok x"
    and "rq_ChainID req' = rq_ChainID req" and "rq_SignedTx req' = rq_SignedTx req" and "rq_ChainID req \<noteq> []"
  shows "Broadcast sv inp' (Some req') (run (service_step sv) st1 xs) = (Some (Inr resp), run (service_step sv) st1 xs)"
proof -
  obtain b where b: "map_of (sv_broadcasts st1) (key (rq_ChainID req) (predictHash (rq_SignedTx req))) = Some b"
    "resp = \<lparr>rp_TxHash = br_TxHash b, rp_Nonce = br_Nonce b\<rparr>" "rq_SignedTx req \<noteq> []"
    using mem_broadcast.Broadcast_answered [OF assms(1) _ assms(3,2,4-8)] by auto
  have "map_of (sv_broadcasts (run (service_step sv) st1 xs)) (key (rq_ChainID req) (predictHash (rq_SignedTx req))) = Some b"
    by (rule mem_broadcast.Broadcast_run_keeps [OF assms(1) _ assms(9,3) b(1)]) simp
  then show ?thesis
    using mem_broadcast.Broadcast_known [OF assms(1), of req' a] assms(4,10-12) b(2,3) by simp
qed

text \<open>
  What an accepted request leaves behind: its row in \<open>broadcasts\<close> with the signed bytes, the
  nonce and the parsed value; a confirmation row in \<open>BROADCAST\<close> at height zero; the transaction is
  tracked by the confirmation pool and pending in the mempool watcher; and the response carries the
  hash and the nonce.
\<close>

theorem broadcast_registers:
  assumes "sc_broadcasts sv = mem_broadcast_store" and "sc_confirms sv = Some mem_confirmation_store"
    and "sc_tracker sv" and "sc_watcher sv"
    and "Broadcast sv inp (Some req) st = (Some (Inr \<lparr>rp_TxHash = h, rp_Nonce = n\<rparr>), st')"
    and "bcast_GetByTxHash (rq_ChainID req) (predictHash (rq_SignedTx req)) (sv_broadcasts st) = Inl e"
    and "bcast_GetByTxHash (rq_ChainID req) h (sv_broadcasts st) = Inl e'"
    and "map_of (wp_tracked (sv_pool st)) (key (rq_ChainID req) h) = None"
  shows "\<exists>b r. bcast_GetByTxHash (rq_ChainID req) h (sv_broadcasts st') = Inr b \<and>
    br_SignedTx b = rq_SignedTx req \<and> br_Nonce b = n \<and> br_FromAddr b = rq_From req \<and> br_ToAddr b = rq_To req \<and>
    br_Value b = (if rq_Value req = [] then Some 0 else big_SetString (rq_Value req)) \<and>
    conf_Get (rq_ChainID req) h (sv_confirms st') = Inr r \<and> cf_Status r = StatusBroadcast \<and> cf_BlockHeight r = 0 \<and>
    \<lparr>tk_chainID = rq_ChainID req, tk_txHash = h\<rparr> \<in> set (Tracked (sv_pool st')) \<and>
    watcher_key (rq_ChainID req) h \<in> set (Pending (sv_watch st'))"
  using assms(5)
proof (cases rule: Broadcast_cases)
  case (known b)
  then show ?thesis using assms(1,6) by (simp add: mem_broadcast_store_def)
next
  case (accepted a n' st2 h' w bs)
  then have h: "h' = h" "n' = n" by simp_all
  have frame: "sv_broadcasts st2 = sv_broadcasts st" "sv_confirms st2 = sv_confirms st" "sv_pool st2 = sv_pool st"
    using prepay_step_frame [of sv a "bi_env inp" req st] accepted(6) by simp_all
  have new: "map_of (sv_broadcasts st) (key (rq_ChainID req) h) = None"
    using assms(7) by (simp add: bcast_GetByTxHash_def split: option.splits)
  let ?b = "fill_broadcast (bi_clk inp 1) (bi_uuid inp 0) (broadcast_record (bi_clk inp 0) req n h)"
  let ?r = "fill_confirmation (bi_clk inp 3) (bi_uuid inp 1) (first_confirmation (bi_clk inp 2) (rq_ChainID req) h)"
  have "bcast_GetByTxHash (rq_ChainID req) h (sv_broadcasts st') =
      Inr ?b"
    using accepted(5,8) assms(1) new
    by (auto simp: h frame mem_broadcast_store_def bcast_Insert_def bcast_GetByTxHash_def)
  moreover have "conf_Get (rq_ChainID req) h (sv_confirms st') =
      Inr ?r"
    using accepted(5) assms(2)
    by (simp add: h frame mem_confirmation_store_def conf_Upsert_def conf_Get_def first_confirmation_def)
  moreover have "sv_pool st' = Track (rq_ChainID req) h (sv_pool st)"
    using accepted(5) assms(3) by (simp add: h frame)
  then have "\<lparr>tk_chainID = rq_ChainID req, tk_txHash = h\<rparr> \<in> set (Tracked (sv_pool st'))"
    using assms(8) by (simp add: Track_def Tracked_def Let_def map_snd_update_new)
  moreover have "watcher_key (rq_ChainID req) h \<in> set (Pending (sv_watch st'))"
    using accepted(5) assms(4) by (simp add: h)
  moreover have "br_SignedTx ?b = rq_SignedTx req \<and> br_Nonce ?b = n \<and> br_FromAddr ?b = rq_From req \<and>
      br_ToAddr ?b = rq_To req \<and> br_Value ?b = (if rq_Value req = [] then Some 0 else big_SetString (rq_Value req))"
    by (simp add: fill_broadcast_def broadcast_record_def)
  moreover have "cf_Status ?r = StatusBroadcast \<and> cf_BlockHeight ?r = 0"
    by (simp add: fill_confirmation_def first_confirmation_def)
  ultimately show ?thesis by blast
qed simp_all

text \<open>
  C28. The retry loop makes as many submissions as it needs and at most one more than the configured
  number of retries: it stops at the first one the node accepts and returns its hash; when all fail
  it has made all of them and returns the error of the last.
\<close>

theorem submissions_bounded:
  assumes "0 \<le> retryMax"
  shows "(\<exists>k h. k \<le> nat retryMax \<and> (\<forall>i < k. \<exists>e. fst (ad_Broadcast a b (tries a b i w)) = Inl e) \<and>
      fst (ad_Broadcast a b (tries a b k w)) = Inr h \<and>
      submitWithRetry retryMax a b w = (Inr h, tries a b (k + 1) w)) \<or>
    (\<exists>e. (\<forall>i \<le> nat retryMax. \<exists>e. fst (ad_Broadcast a b (tries a b i w)) = Inl e) \<and>
      fst (ad_Broadcast a b (tries a b (nat retryMax) w)) = Inl e \<and>
      submitWithRetry retryMax a b w = (Inl e, tries a b (nat retryMax + 1) w))"
proof -
  have n: "nat (retryMax + 1) = Suc (nat retryMax)" using assms by simp
  let ?ok = "\<lambda>k. \<exists>h. fst (ad_Broadcast a b (tries a b k w)) = Inr h"
  have err: "\<exists>e. fst (ad_Broadcast a b (tries a b i w)) = Inl e" if "\<not> ?ok i" for i
    using that by (metis sum.exhaust)
  show ?thesis
  proof (cases "\<exists>k \<le> nat retryMax. ?ok k")
    case True
    then obtain k where k: "k \<le> nat retryMax" "?ok k" "\<forall>i < k. \<not> ?ok i"
      using exists_least_iff [of "\<lambda>k. k \<le> nat retryMax \<and> ?ok k"] by (auto dest: order.strict_trans2)
    then obtain h where "fst (ad_Broadcast a b (tries a b k w)) = Inr h" by blast
    with k err have "submitWithRetry retryMax a b w = (Inr h, tries a b (Suc k) w)"
      unfolding submitWithRetry_def n by (intro submit_loop_ok) auto
    with k err show ?thesis using \<open>fst (ad_Broadcast a b (tries a b k w)) = Inr h\<close> by auto
  next
    case False
    then obtain e where e: "fst (ad_Broadcast a b (tries a b (nat retryMax) w)) = Inl e" using err by blast
    have "submitWithRetry retryMax a b w = (Inl e, tries a b (Suc (nat retryMax)) w)"
      unfolding submitWithRetry_def n using False err e by (intro submit_loop_fail) auto
    with e False err show ?thesis by auto
  qed
qed

lemma EnsureFunds_error:
  assumes "EnsureFundsAndNonce m redis wallet c env wid addr fee r w = (Some (Inl err), rw)"
  shows "\<exists>e. err = ErrPrepaymentFailed e"
proof -
  have f: "funding_step m wallet c env wid addr bal fee w = (Some (Inl e), w') \<Longrightarrow> \<exists>e'. e = ErrPrepaymentFailed e'" for bal e w'
    using funding_step_error [of m wallet c env wid addr bal fee w e] by simp
  have n: "nonce_step m redis wallet c env wid addr r w' = (Some (Inl e), rw') \<Longrightarrow> \<exists>e'. e = ErrPrepaymentFailed e'" for w' e rw'
    using nonce_step_error [of m redis wallet c env wid addr r w' e] by simp
  show ?thesis
    using assms by (auto simp: EnsureFundsAndNonce_def Let_def dest!: f n split: sum.splits prod.splits option.splits if_splits)
qed

lemma prepay_step_error:
  assumes "prepay_step sv a env req st = (Some (Inl err), st')"
  shows "\<exists>e. err = ErrPrepaymentFailed e"
  using assms
  by (auto simp: prepay_step_def Let_def dest!: EnsureFunds_error split: option.splits prod.splits sum.splits if_splits)

text \<open>
  An error of the store: the transaction was submitted under the hash \<open>h\<close>, and \<open>Insert\<close> of its row failed with \<open>err\<close>.
\<close>

definition insert_failed ::
  "('b, 'c, 'w, 'r, 'l, 'o, 'p) service \<Rightarrow> bcast_input \<Rightarrow> request \<Rightarrow> ('b, 'c, 'w, 'r, 'l, 'o, 'p) service_state \<Rightarrow> error \<Rightarrow>
    ('b, 'c, 'w, 'r, 'l, 'o, 'p) service_state \<Rightarrow> bool" where
  "insert_failed sv inp req st err st' \<longleftrightarrow>
     (\<exists>a n h w. registry_Get (rq_ChainID req) (sc_registry sv) = Inr a \<and>
        submitWithRetry (sc_retryMax sv) a (rq_SignedTx req) w = (Inr h, sv_world st') \<and>
        bs_Insert (sc_broadcasts sv) (bi_clk inp 1) (bi_uuid inp 0) (broadcast_record (bi_clk inp 0) req n h) (sv_broadcasts st) =
          (Inl err, sv_broadcasts st'))"

lemma mem_insert_ok [simp]: "sc_broadcasts sv = mem_broadcast_store \<Longrightarrow> \<not> insert_failed sv inp req st err st'"
  by (auto simp: insert_failed_def mem_broadcast_store_def bcast_Insert_def Let_def split: option.splits)

text \<open>
  C29. Every error of the broadcast path, over any stores, is one of five: a bad request, an unknown chain, a failed
  prepayment, an adapter that failed on every attempt, each of which leaves the broadcast rows as they were; or the error of the
  store that could not insert the row of a transaction the adapter had accepted. The in-memory store never fails so. After an
  error nothing is tracked or watched, no confirmation row was written and no event was emitted.
\<close>

theorem broadcast_errors:
  assumes "Broadcast sv inp rq st = (Some (Inl err), st')"
  shows "((err = ErrBadRequest ''missing chain or signed_tx'' \<or> (\<exists>c. err = ErrUnknownChain c) \<or>
       (\<exists>e. err = ErrPrepaymentFailed e) \<or> (\<exists>e. err = ErrAdapter e)) \<and> sv_broadcasts st' = sv_broadcasts st \<or>
      (\<exists>req. rq = Some req \<and> insert_failed sv inp req st err st')) \<and>
    sv_confirms st' = sv_confirms st \<and> sv_pool st' = sv_pool st \<and> sv_watch st' = sv_watch st \<and> sv_bus st' = sv_bus st"
proof (cases rq)
  case None
  with assms show ?thesis by (simp add: Broadcast_def)
next
  case (Some req)
  have frame: "sv_broadcasts st1 = sv_broadcasts st \<and> sv_confirms st1 = sv_confirms st \<and> sv_pool st1 = sv_pool st \<and>
      sv_watch st1 = sv_watch st \<and> sv_bus st1 = sv_bus st" if "prepay_step sv a env req st = (p, st1)" for a env p st1
    using prepay_step_frame [of sv a env req st] that by simp
  from assms [unfolded Some] show ?thesis
  proof (cases rule: Broadcast_cases)
    case (unfunded a err')
    with frame [OF unfunded(2)] prepay_step_error [OF unfunded(2)] show ?thesis by auto
  next
    case (rejected a n st1 err' w)
    with frame [OF rejected(3)] show ?thesis by auto
  next
    case (unsaved a n h st1 w err' bs)
    with frame [OF unsaved(3)] have "insert_failed sv inp req st err st'" by (auto simp: insert_failed_def)
    with frame [OF unsaved(3)] unsaved(2) Some show ?thesis by simp
  qed (use assms in auto)
qed

text \<open>
  A request that is not recognised as a repetition resets its transaction: when the chain's
  adapter returns a hash other than the predicted one, submitting the same bytes again writes the
  confirmation row anew. Even a finalized row goes back to \<open>BROADCAST\<close> at height zero, a change the
  lifecycle forbids.
\<close>

theorem repeated_broadcast_resets_row:
  assumes "sc_broadcasts sv = mem_broadcast_store" and "sc_confirms sv = Some mem_confirmation_store"
    and "Broadcast sv inp (Some req) st = (Some (Inr resp), st')"
    and "bcast_GetByTxHash (rq_ChainID req) (predictHash (rq_SignedTx req)) (sv_broadcasts st) = Inl e"
    and "conf_Get (rq_ChainID req) (rp_TxHash resp) (sv_confirms st) = Inr r" and "IsTerminal (cf_Status r)"
  shows "\<exists>r'. conf_Get (rq_ChainID req) (rp_TxHash resp) (sv_confirms st') = Inr r' \<and>
    cf_Status r' = StatusBroadcast \<and> cf_BlockHeight r' = 0 \<and> \<not> CanTransitionTo (cf_Status r) (cf_Status r')"
  using assms(3)
proof (cases rule: Broadcast_cases)
  case (known b)
  then show ?thesis using assms(1,4) by (simp add: mem_broadcast_store_def)
next
  case (accepted a n st1 h w bs)
  let ?r = "fill_confirmation (bi_clk inp 3) (bi_uuid inp 1) (first_confirmation (bi_clk inp 2) (rq_ChainID req) h)"
  have "conf_Get (rq_ChainID req) h (sv_confirms st') = Inr ?r"
    using accepted(5) assms(2)
    by (simp add: mem_confirmation_store_def conf_Upsert_def conf_Get_def first_confirmation_def)
  moreover have "cf_Status ?r = StatusBroadcast \<and> cf_BlockHeight ?r = 0"
    by (simp add: fill_confirmation_def first_confirmation_def)
  ultimately show ?thesis using accepted(3) assms(6) by auto
qed simp_all

text \<open>
  C30. The re-broadcaster submits exactly the bytes that were accepted: after an accepted request,
  and any further calls of the service, re-broadcasting its hash hands the original signed bytes to
  the chain's adapter once, changes no row, and fails only if the adapter does; a hash without a
  row is refused without a submission.
\<close>

theorem rebroadcast_same_bytes:
  assumes "sc_broadcasts sv = mem_broadcast_store" and "sep_free (rq_ChainID req)"
    and "registry_Get (rq_ChainID req) (sc_registry sv) = Inr a"
    and "Broadcast sv inp (Some req) st = (Some (Inr resp), st1)"
    and "bcast_GetByTxHash (rq_ChainID req) (predictHash (rq_SignedTx req)) (sv_broadcasts st) = Inl e"
    and "bcast_GetByTxHash (rq_ChainID req) (rp_TxHash resp) (sv_broadcasts st) = Inl e'"
    and "\<forall>x \<in> set xs. call_ok x" and "bs = sv_broadcasts (run (service_step sv) st1 xs)"
  shows "snd (Rebroadcast (sc_registry sv) mem_broadcast_store (rq_ChainID req) (rp_TxHash resp) (w, bs)) =
      (snd (ad_Broadcast a (rq_SignedTx req) w), bs) \<and>
    (fst (Rebroadcast (sc_registry sv) mem_broadcast_store (rq_ChainID req) (rp_TxHash resp) (w, bs)) = Inr () \<longleftrightarrow>
      (\<exists>h. fst (ad_Broadcast a (rq_SignedTx req) w) = Inr h))"
proof -
  obtain b where b: "map_of (sv_broadcasts st1) (key (rq_ChainID req) (rp_TxHash resp)) = Some b"
    "br_SignedTx b = rq_SignedTx req" "rq_SignedTx req \<noteq> []"
    using assms(4)
  proof (cases rule: Broadcast_cases)
    case (known b)
    then show ?thesis using assms(1,5) by (simp add: mem_broadcast_store_def)
  next
    case (accepted a' n st2 h w bs)
    have "sv_broadcasts st2 = sv_broadcasts st"
      using prepay_step_frame(1) [of sv a' "bi_env inp" req st] accepted(6) by simp
    moreover have "map_of (sv_broadcasts st) (key (rq_ChainID req) h) = None"
      using assms(6) accepted(3) by (simp add: bcast_GetByTxHash_def split: option.splits)
    ultimately show ?thesis
      using accepted(1,3,5,8) assms(1) that
      by (auto simp: mem_broadcast_store_def bcast_Insert_def fill_broadcast_def)
  qed simp_all
  have "map_of bs (key (rq_ChainID req) (rp_TxHash resp)) = Some b"
    unfolding assms(8) by (rule mem_broadcast.Broadcast_run_keeps [OF assms(1) _ assms(7,2) b(1)]) simp
  then show ?thesis
    using b(2,3) assms(3)
    by (auto simp: Rebroadcast_def mem_broadcast_store_def bcast_GetByTxHash_def split: prod.splits sum.splits)
qed
section \<open>Witnesses\<close>

type_synonym sample_state =
  "(mem_broadcasts, mem_confirmations, stub_adapter, mem_redis, wallet_mock, mem_outbox, bus_event list) service_state"

definition sample_service ::
  "(mem_broadcasts, mem_confirmations, stub_adapter, mem_redis, wallet_mock, mem_outbox, bus_event list) service" where
  "sample_service = NewService (Register (stub_ops sample_stub) NewRegistry) mem_broadcast_store
     (Some mem_confirmation_store) None True (Some sample_bus) True \<lparr>op_Timeout = 0, op_RetryMax = 0\<rparr>"

definition sample_start :: "stub_adapter \<Rightarrow> mem_confirmations \<Rightarrow> sample_state" where
  "sample_start w cs = \<lparr>sv_broadcasts = NewBroadcastStore, sv_confirms = cs, sv_world = w,
     sv_redis = NewMemRedis, sv_wallet = NewMock [] 7, sv_pool = NewWorkerPool 0 (stub_ops sample_stub),
     sv_watch = NewWatcher True 0, sv_bus = NewBus NewOutboxStore []\<rparr>"

definition sample_request :: request where
  "sample_request = \<lparr>rq_ChainID = ''ethereum'', rq_SignedTx = [1, 2], rq_From = [], rq_WalletID = [], rq_To = ''0x2'',
     rq_Value = ''5'', rq_Nonce = 3, rq_SubmittedBy = []\<rparr>"

definition sample_input :: bcast_input where
  "sample_input = \<lparr>bi_env = sample_env 1 100, bi_clk = (\<lambda>i. 10 + int i), bi_uuid = (\<lambda>i. of_nat i + 1)\<rparr>"

text \<open>A stub that accepts every submission under a hash of its own, and one that refuses all.\<close>

definition named_stub :: stub_adapter where
  "named_stub = sample_stub\<lparr>sa_broadcastFn := Some (\<lambda>_. Inr ''0xab'')\<rparr>"

definition refusing_stub :: stub_adapter where
  "refusing_stub = sample_stub\<lparr>sa_broadcastErr := Some (ErrRemote ''down'')\<rparr>"

lemma sample_service_simps [simp]:
  "sc_broadcasts sample_service = mem_broadcast_store" "sc_confirms sample_service = Some mem_confirmation_store"
  "sc_tracker sample_service" "sc_watcher sample_service" "sc_retryMax sample_service = 3"
  "sc_prepay sample_service = None"
  "registry_Get ''ethereum'' (sc_registry sample_service) = Inr (stub_ops sample_stub)"
  by (simp_all add: sample_service_def NewService_def registry_Get_def Register_def NewRegistry_def
      stub_ops_def sample_stub_def NewStubAdapter_def)

lemma sample_stub_simps [simp]:
  "ad_Broadcast (stub_ops s0) = stub_Broadcast" "stub_plain sample_stub"
  by (simp_all add: stub_ops_def stub_plain_def sample_stub_def NewStubAdapter_def)

lemma sample_accepts:
  assumes "stub_Broadcast [1, 2] w = (Inr h, w')"
  shows "\<exists>st. Broadcast sample_service sample_input (Some sample_request) (sample_start w cs) =
    (Some (Inr \<lparr>rp_TxHash = h, rp_Nonce = 3\<rparr>), st)"
  using assms
  by (simp add: Broadcast_def sample_request_def sample_start_def mem_broadcast_store_def bcast_GetByTxHash_def
      NewBroadcastStore_def prepay_step_def submitWithRetry_def numeral_eq_Suc bcast_Insert_def Let_def)

lemma sample_fresh:
  "bcast_GetByTxHash (rq_ChainID sample_request) h (sv_broadcasts (sample_start w cs)) =
     Inl (ErrNotFound (rq_ChainID sample_request) h)"
  "map_of (wp_tracked (sv_pool (sample_start w cs))) k = None"
  by (simp_all add: bcast_GetByTxHash_def sample_start_def NewBroadcastStore_def NewWorkerPool_def Let_def)

lemma sample_stub_hash: "stub_Broadcast [1, 2] sample_stub = (Inr (predictHash [1, 2]), snd (stub_Broadcast [1, 2] sample_stub))"
  by (simp add: stub_Broadcast_def sample_stub_def NewStubAdapter_def predictHash_def bcast_stubHash_eq Let_def)

theorem broadcast_registers_witness:
  "\<exists>st r. Broadcast sample_service sample_input (Some sample_request) (sample_start sample_stub NewConfirmationStore) =
      (Some (Inr \<lparr>rp_TxHash = predictHash [1, 2], rp_Nonce = 3\<rparr>), st) \<and>
    conf_Get ''ethereum'' (predictHash [1, 2]) (sv_confirms st) = Inr r \<and> cf_Status r = StatusBroadcast"
proof -
  obtain st where st: "Broadcast sample_service sample_input (Some sample_request) (sample_start sample_stub NewConfirmationStore) =
      (Some (Inr \<lparr>rp_TxHash = predictHash [1, 2], rp_Nonce = 3\<rparr>), st)"
    using sample_accepts [OF sample_stub_hash] by blast
  show ?thesis
    using st broadcast_registers [OF _ _ _ _ st sample_fresh(1) sample_fresh(1) sample_fresh(2)]
    by (auto simp: sample_request_def)
qed

theorem submissions_bounded_witness:
  "submitWithRetry 3 (stub_ops sample_stub) [1, 2] refusing_stub =
    (Inl (ErrRemote ''down''), tries (stub_ops sample_stub) [1, 2] 4 refusing_stub)"
proof -
  have fails: "fst (stub_Broadcast [1, 2] (tries (stub_ops sample_stub) [1, 2] k refusing_stub)) = Inl (ErrRemote ''down'')" for k
  proof -
    have "sa_broadcastErr (tries a b k w) = sa_broadcastErr w" if "ad_Broadcast a = stub_Broadcast" for a b k w
      using that by (induction k arbitrary: w) (auto simp: stub_Broadcast_def Let_def split: option.splits)
    then show ?thesis by (simp add: stub_Broadcast_def refusing_stub_def Let_def)
  qed
  show ?thesis
    using submissions_bounded [of 3 "stub_ops sample_stub" "[1, 2]" refusing_stub] fails by (auto simp del: tries_simps)
qed

theorem broadcast_errors_witness:
  "\<exists>st'. Broadcast sample_service sample_input (Some sample_request) (sample_start refusing_stub NewConfirmationStore) =
      (Some (Inl (ErrAdapter (ErrRemote ''down''))), st') \<and>
    sv_broadcasts st' = NewBroadcastStore \<and> sv_confirms st' = NewConfirmationStore"
proof -
  obtain st' where st': "Broadcast sample_service sample_input (Some sample_request) (sample_start refusing_stub NewConfirmationStore) =
      (Some (Inl (ErrAdapter (ErrRemote ''down''))), st')"
    by (simp add: Broadcast_def sample_request_def sample_start_def mem_broadcast_store_def bcast_GetByTxHash_def
      NewBroadcastStore_def prepay_step_def submitWithRetry_def numeral_eq_Suc stub_Broadcast_def refusing_stub_def
      Let_def)
  show ?thesis using st' broadcast_errors [OF st'] by (auto simp: sample_start_def)
qed

theorem repeated_broadcast_resets_row_witness:
  "\<exists>st' r'. snd (Broadcast sample_service sample_input (Some sample_request)
      (sample_start named_stub (sample_confs StatusFinalized))) = st' \<and>
    conf_Get ''ethereum'' ''0xab'' (sv_confirms st') = Inr r' \<and> cf_Status r' = StatusBroadcast"
proof -
  have "stub_Broadcast [1, 2] named_stub = (Inr ''0xab'', snd (stub_Broadcast [1, 2] named_stub))"
    by (simp add: stub_Broadcast_def named_stub_def sample_stub_def NewStubAdapter_def Let_def)
  from sample_accepts [OF this] obtain st where
    st: "Broadcast sample_service sample_input (Some sample_request) (sample_start named_stub (sample_confs StatusFinalized)) =
      (Some (Inr \<lparr>rp_TxHash = ''0xab'', rp_Nonce = 3\<rparr>), st)"
    by blast
  have "conf_Get (rq_ChainID sample_request) (rp_TxHash \<lparr>rp_TxHash = ''0xab'', rp_Nonce = 3\<rparr>)
      (sv_confirms (sample_start named_stub (sample_confs StatusFinalized))) = Inr (sample_row StatusFinalized)"
    by (simp add: conf_Get_def sample_confs_def sample_start_def sample_request_def)
  from repeated_broadcast_resets_row [OF _ _ st sample_fresh(1) this] st
  show ?thesis by (auto simp: sample_row_def sample_request_def)
qed

theorem broadcast_idempotent_witness:
  "\<exists>resp st1. Broadcast sample_service sample_input (Some sample_request) (sample_start sample_stub NewConfirmationStore) =
      (Some (Inr resp), st1) \<and>
    Broadcast sample_service sample_input (Some (sample_request\<lparr>rq_Nonce := 9\<rparr>)) st1 = (Some (Inr resp), st1)"
proof -
  obtain st where st: "Broadcast sample_service sample_input (Some sample_request) (sample_start sample_stub NewConfirmationStore) =
      (Some (Inr \<lparr>rp_TxHash = predictHash [1, 2], rp_Nonce = 3\<rparr>), st)"
    using sample_accepts [OF sample_stub_hash] by blast
  have "stub_plain (sv_world (sample_start sample_stub NewConfirmationStore))" by (simp add: sample_start_def)
  from broadcast_idempotent [OF _ _ _ _ stub.adapter_contract_axioms this _ st, of sample_stub "[]" "sample_request\<lparr>rq_Nonce := 9\<rparr>" sample_input] st
  show ?thesis by (auto simp: sample_request_def sep_free_def predictHash_def bcast_stubHash_eq)
qed

theorem rebroadcast_same_bytes_witness:
  "\<exists>resp st1. Broadcast sample_service sample_input (Some sample_request) (sample_start sample_stub NewConfirmationStore) =
      (Some (Inr resp), st1) \<and>
    LastBroadcast (fst (snd (Rebroadcast (sc_registry sample_service) mem_broadcast_store ''ethereum'' (rp_TxHash resp)
      (sample_stub, sv_broadcasts st1)))) = [1, 2]"
proof -
  obtain st where st: "Broadcast sample_service sample_input (Some sample_request) (sample_start sample_stub NewConfirmationStore) =
      (Some (Inr \<lparr>rp_TxHash = predictHash [1, 2], rp_Nonce = 3\<rparr>), st)"
    using sample_accepts [OF sample_stub_hash] by blast
  have "sep_free (rq_ChainID sample_request)" by (simp add: sample_request_def sep_free_def)
  from rebroadcast_same_bytes [OF _ this _ st sample_fresh(1) sample_fresh(1), of "stub_ops sample_stub" "[]" "sv_broadcasts st" sample_stub] st
  show ?thesis
    by (auto simp: sample_request_def stub_Broadcast_def LastBroadcast_def sample_stub_def NewStubAdapter_def Let_def)
qed

end
