(* ===== verification/Go_Float.thy ===== *)
theory Go_Float
  imports Complex_Main "HOL-Library.Log_Nat"
begin

text \<open>
  The rounding of Go's \<open>float64\<close> arithmetic, on rationals: to the nearest number with a 53-bit
  significand, ties to even (IEEE 754). Exponents are unbounded: the gateway computes percentiles
  with it, far from the ends of the exponent range. A \<open>float64\<close> operation is the exact operation
  followed by \<open>fl\<close>.
\<close>

definition round_even :: "rat \<Rightarrow> int" where
  "round_even y =
     (let f = \<lfloor>y\<rfloor>; d = y - of_int f in
      if d < 1 / 2 then f else if d > 1 / 2 then f + 1 else if even f then f else f + 1)"

text \<open>The exponent that scales a positive quotient into 53 bits.\<close>

definition fl_exp :: "rat \<Rightarrow> int" where
  "fl_exp x =
     (let (a, b) = quotient_of x; e = bitlen a - bitlen b - 53
      in if x / 2 powi e \<ge> 2 ^ 53 then e + 1 else e)"

definition fl :: "rat \<Rightarrow> rat" where
  "fl x =
     (if x = 0 then 0
      else (let e = fl_exp \<bar>x\<bar> in sgn x * of_int (round_even (\<bar>x\<bar> / 2 powi e)) * 2 powi e))"

lemma round_even_error: "\<bar>of_int (round_even y) - y\<bar> \<le> 1 / 2"
proof -
  have "of_int \<lfloor>y\<rfloor> \<le> y" "y < of_int \<lfloor>y\<rfloor> + 1" by linarith+
  then show ?thesis by (simp add: round_even_def Let_def abs_le_iff)
qed

lemma bitlen_rat_bounds:
  assumes "0 < n"
  shows "(2 :: rat) powi (bitlen n - 1) \<le> of_int n \<and> of_int n < (2 :: rat) powi bitlen n"
proof -
  have b: "2 ^ nat (bitlen n - 1) \<le> n" "n < 2 ^ nat (bitlen n)" using bitlen_bounds [OF assms] by auto
  have "0 < bitlen n" using assms by (simp add: bitlen_alt_def)
  then have "(2 :: rat) powi (bitlen n - 1) = of_int (2 ^ nat (bitlen n - 1))"
    "(2 :: rat) powi bitlen n = of_int (2 ^ nat (bitlen n))"
    by (simp_all add: power_int_def)
  then show ?thesis using b by (metis of_int_le_iff of_int_less_iff)
qed

text \<open>The scaled significand has 53 bits.\<close>

lemma fl_exp_bound:
  assumes "0 < x"
  shows "2 ^ 52 \<le> x / 2 powi fl_exp x"
proof -
  obtain a b where q: "quotient_of x = (a, b)" by (cases "quotient_of x")
  have ab: "x = of_int a / of_int b" "0 < b" using quotient_of_div [OF q] quotient_of_denom_pos [OF q] by auto
  with assms have "0 < a" by (simp add: zero_less_divide_iff)
  let ?e = "bitlen a - bitlen b - 53"
  have "(2 :: rat) ^ 52 * 2 powi ?e = 2 powi (bitlen a - 1) / 2 powi bitlen b"
    by (simp add: power_int_diff power_int_add field_simps)
  also have "\<dots> \<le> of_int a / of_int b"
    using bitlen_rat_bounds [OF \<open>0 < a\<close>] bitlen_rat_bounds [OF \<open>0 < b\<close>] ab(2) \<open>0 < a\<close>
    by (intro frac_le) auto
  finally have "2 ^ 52 * 2 powi ?e \<le> x" unfolding ab(1) [symmetric] .
  then have lo: "2 ^ 52 \<le> x / 2 powi ?e" by (simp add: pos_le_divide_eq)
  have "x / 2 powi (k + 1) = x / 2 powi k / 2" for k by (simp add: power_int_add)
  from this [of ?e] show ?thesis using lo by (auto simp: fl_exp_def q Let_def)
qed

lemma fl_error_bound: "\<bar>fl x - x\<bar> \<le> \<bar>x\<bar> / 2 ^ 53"
proof (cases "x = 0")
  case True
  then show ?thesis by (simp add: fl_def)
next
  case False
  let ?e = "fl_exp \<bar>x\<bar>"
  let ?y = "\<bar>x\<bar> / 2 powi ?e"
  have p: "(0 :: rat) < 2 powi ?e" by simp
  have y: "\<bar>x\<bar> = ?y * 2 powi ?e" by simp
  have "x = sgn x * \<bar>x\<bar>" by (simp add: sgn_mult_abs)
  then have "fl x - x = sgn x * (of_int (round_even ?y) - ?y) * 2 powi ?e"
    using False y by (simp add: fl_def Let_def algebra_simps)
  then have "\<bar>fl x - x\<bar> = \<bar>of_int (round_even ?y) - ?y\<bar> * 2 powi ?e"
    using False p by (simp add: abs_mult abs_sgn_eq)
  also have "\<dots> \<le> 1 / 2 * 2 powi ?e"
    using round_even_error [of ?y] p by (intro mult_right_mono) auto
  also have "\<dots> \<le> \<bar>x\<bar> / 2 ^ 53"
  proof -
    have "2 ^ 52 * 2 powi ?e \<le> \<bar>x\<bar>" using fl_exp_bound [of "\<bar>x\<bar>"] False p by (simp add: pos_le_divide_eq)
    then show ?thesis by simp
  qed
  finally show ?thesis .
qed

end
