(* ===== verification/Fee_Estimator.thy ===== *)
theory Fee_Estimator
  imports Chain_Adapter Go_Float
begin

text \<open>
  The fee estimator of \<open>internal/fee/estimator.go\<close>: the window of recent block samples, the
  EIP-1559 estimate and its strategies, the nearest-rank percentile with its \<open>float64\<close> index
  arithmetic, and one tick of the recompute loop. The entries of a block's priority-fee list are
  never \<open>nil\<close>.
\<close>

section \<open>State\<close>

record block_sample =
  sm_Number :: u64
  sm_BaseFee :: "int option"
  sm_GasUsed :: u64
  sm_GasLimit :: u64
  sm_PriorityFees :: "int list"

record estimator =
  es_chainID :: string
  es_strategy :: string
  es_finality :: u64
  es_samples :: "block_sample list"
  es_maxSamples :: nat
  es_defaultGas :: u64

record est_fee_row =
  ef_ChainID :: string
  ef_Priority :: priority
  ef_GasLimit :: u64
  ef_MaxFeePerGas :: "int option"
  ef_MaxPriorityFeePerGas :: "int option"
  ef_GasPrice :: "int option"
  ef_TotalFee :: "int option"
  ef_SampleCount :: int
  ef_Strategy :: string
  ef_ComputedAt :: time

definition NewEstimator :: "string \<Rightarrow> string \<Rightarrow> u64 \<Rightarrow> estimator" where
  "NewEstimator chainID strategy finalityBlocks =
     \<lparr>es_chainID = chainID, es_strategy = strategy, es_finality = finalityBlocks, es_samples = [],
      es_maxSamples = 20, es_defaultGas = 21000\<rparr>"

definition PushSample :: "estimator \<Rightarrow> block_sample \<Rightarrow> estimator" where
  "PushSample e s =
     (let xs = es_samples e @ [s] in
      e\<lparr>es_samples := (if length xs > es_maxSamples e then drop (length xs - es_maxSamples e) xs else xs)\<rparr>)"

definition Samples :: "estimator \<Rightarrow> block_sample list" where
  "Samples e = es_samples e"

section \<open>Percentiles\<close>

definition percentileForPriority :: "priority \<Rightarrow> rat" where
  "percentileForPriority p = (if p = PriorityLow then 10 else if p = PriorityHigh then 90 else 50)"

text \<open>The index, each \<open>float64\<close> operation and constant rounded; the conversion to \<open>int\<close> truncates.\<close>

definition percentile_index :: "rat \<Rightarrow> nat \<Rightarrow> nat" where
  "percentile_index p n =
     (let p = (if p < 0 then 0 else p);
          p = (if p > 100 then 100 else p);
          idx = \<lfloor>fl (fl (fl (p / 100) * fl (of_nat n)) + fl (999999 / 1000000))\<rfloor>;
          idx = (if idx < 1 then 1 else idx);
          idx = (if idx > int n then int n else idx)
      in nat idx)"

definition percentilePriority :: "int list \<Rightarrow> rat \<Rightarrow> int option" where
  "percentilePriority xs p =
     (if length xs = 0 then None
      else (let sorted = sort xs in Some (sorted ! (percentile_index p (length sorted) - 1))))"

definition Percentile :: "int list \<Rightarrow> rat \<Rightarrow> int option" where
  "Percentile xs p = percentilePriority xs p"

section \<open>Estimates\<close>

definition estimateEIP1559 :: "estimator \<Rightarrow> fee_estimate_req \<Rightarrow> bool \<Rightarrow> fee_estimate result" where
  "estimateEIP1559 e req allowFallback =
     (let samples = es_samples e in
      if length samples = 0 then
        Inl (ErrMessage (if allowFallback then ''no samples; fallback to legacy''
                         else ''no block samples for eip1559 estimate''))
      else
        (let latest = samples ! (length samples - 1) in
         case sm_BaseFee latest of
           None \<Rightarrow> Inl (ErrMessage (if allowFallback then ''no base fee; fallback to legacy''
                                    else ''missing base fee in latest sample''))
         | Some baseFee \<Rightarrow>
             (let pct = percentileForPriority (fr_Priority req);
                  priority = (case percentilePriority (sm_PriorityFees latest) pct of
                                None \<Rightarrow> 1000000000 | Some x \<Rightarrow> x);
                  maxFee = baseFee * 2 + priority;
                  total = maxFee * uint (es_defaultGas e)
              in Inr \<lparr>fe_ChainID = es_chainID e, fe_Priority = fr_Priority req, fe_GasLimit = es_defaultGas e,
                     fe_MaxFeePerGas = Some maxFee, fe_MaxPriorityFeePerGas = Some priority,
                     fe_GasPrice = None, fe_TotalFee = Some total, fe_Strategy = es_strategy e\<rparr>)))"

definition Estimate ::
  "estimator \<Rightarrow> 'w chain_adapter \<Rightarrow> 'w \<Rightarrow> fee_estimate_req \<Rightarrow> fee_estimate option result" where
  "Estimate e adapter w req0 =
     (let req = (if fr_Priority req0 = [] then req0\<lparr>fr_Priority := PriorityStandard\<rparr> else req0) in
      if es_strategy e = ''eip1559_dynamic'' then map_sum (\<lambda>x. x) Some (estimateEIP1559 e req False)
      else if es_strategy e = ''eip1559_legacy_fallback'' then
        (case estimateEIP1559 e req True of
           Inl _ \<Rightarrow> ad_EstimateFee adapter req w
         | Inr fe \<Rightarrow> Inr (Some fe))
      else ad_EstimateFee adapter req w)"

section \<open>The recompute loop\<close>

definition toRow :: "fee_estimate \<Rightarrow> int \<Rightarrow> time \<Rightarrow> est_fee_row" where
  "toRow fe sampleCount ts =
     \<lparr>ef_ChainID = fe_ChainID fe, ef_Priority = fe_Priority fe, ef_GasLimit = fe_GasLimit fe,
      ef_MaxFeePerGas = fe_MaxFeePerGas fe, ef_MaxPriorityFeePerGas = fe_MaxPriorityFeePerGas fe,
      ef_GasPrice = fe_GasPrice fe, ef_TotalFee = fe_TotalFee fe, ef_SampleCount = sampleCount,
      ef_Strategy = fe_Strategy fe, ef_ComputedAt = ts\<rparr>"

text \<open>
  One tick: the rows handed to the fee store's \<open>InsertFee\<close>, in order. \<open>clk i\<close> is the clock at the
  \<open>i\<close>-th priority.
\<close>

definition recompute_tick ::
  "estimator \<Rightarrow> 'w chain_adapter \<Rightarrow> 'w \<Rightarrow> bool \<Rightarrow> priority list \<Rightarrow> (nat \<Rightarrow> time) \<Rightarrow> est_fee_row list" where
  "recompute_tick e adapter w hasStore priorities0 clk =
     (let priorities = (if length priorities0 = 0 then [PriorityLow, PriorityStandard, PriorityHigh]
                        else priorities0)
      in List.concat (map (\<lambda>(i, p).
           case Estimate e adapter w \<lparr>fr_To = [], fr_Amount = None, fr_Priority = p\<rparr> of
             Inr (Some fe) \<Rightarrow> if hasStore then [toRow fe 0 (clk i)] else []
           | _ \<Rightarrow> []) (zip [0..<length priorities] priorities)))"

section \<open>The window of samples\<close>

interpretation samples: bounded_log PushSample es_samples es_maxSamples
  by unfold_locales (auto simp: PushSample_def lastn_def Let_def)

section \<open>Nearest rank\<close>

text \<open>The textbook nearest rank of an integer percentile: the smallest rank that covers \<open>p\<close> percent.\<close>

definition nearest_rank :: "nat \<Rightarrow> nat \<Rightarrow> nat" where
  "nearest_rank p n = max 1 ((p * n + 99) div 100)"

lemma fl_close: "\<bar>x\<bar> \<le> M \<Longrightarrow> \<bar>fl x - x\<bar> \<le> M / 2 ^ 53"
  using fl_error_bound [of x] by (simp add: field_simps)

text \<open>The four roundings together move the index by less than a millionth.\<close>

lemma float_index_close:
  fixes p N :: rat
  assumes "0 \<le> p" and "p \<le> 100" and "0 \<le> N" and "N \<le> 100000000"
  shows "\<bar>fl (fl (fl (p / 100) * fl N) + fl (999999 / 1000000)) - (p / 100 * N + 999999 / 1000000)\<bar> < 1 / 1000000"
proof -
  define q where "q = p / 100"
  have q: "0 \<le> q" "q \<le> 1" using assms(1,2) by (simp_all add: q_def)
  define u :: rat where "u = 1 / 9007199254740992"
  have close: "\<bar>fl x - x\<bar> \<le> M * u" if "\<bar>x\<bar> \<le> M" for x M
    using fl_close [OF that] by (simp add: u_def)
  define x where "x = fl q"
  define m where "m = fl N"
  define c where "c = fl (999999 / 1000000)"
  have a: "\<bar>x - q\<bar> \<le> u" using close [of q 1] q by (simp add: x_def)
  have b: "\<bar>m - N\<bar> \<le> 100000000 * u" using close [of N 100000000] assms(3,4) by (simp add: m_def)
  have c: "\<bar>c - 999999 / 1000000\<bar> \<le> u" using close [of "999999 / 1000000" 1] by (simp add: c_def)
  have u: "0 < u" "1000000000 * u < 1 / 1000000" by (simp_all add: u_def)
  have m: "\<bar>m\<bar> \<le> 200000000" using b assms(3,4) u by linarith
  have "x * m - q * N = (x - q) * m + q * (m - N)" by (simp add: algebra_simps)
  moreover have "\<bar>(x - q) * m\<bar> \<le> u * 200000000"
    unfolding abs_mult using a m u by (intro mult_mono) simp_all
  moreover have "\<bar>q * (m - N)\<bar> \<le> 1 * (100000000 * u)"
    unfolding abs_mult using b q u by (intro mult_mono) simp_all
  ultimately have d: "\<bar>x * m - q * N\<bar> \<le> 300000000 * u" by linarith
  have qN: "0 \<le> q * N" "q * N \<le> 100000000" using q assms(3,4) mult_mono [of q 1 N 100000000] by simp_all
  have "\<bar>x * m\<bar> \<le> 200000000" using d qN u by linarith
  then have e: "\<bar>fl (x * m) - x * m\<bar> \<le> 200000000 * u" by (rule close)
  define y where "y = fl (x * m) + c"
  have f: "\<bar>y - (q * N + 999999 / 1000000)\<bar> \<le> 500000001 * u" using c d e unfolding y_def by linarith
  then have "\<bar>y\<bar> \<le> 300000000" using qN u by linarith
  then have "\<bar>fl y - y\<bar> \<le> 300000000 * u" by (rule close)
  with f u have "\<bar>fl y - (q * N + 999999 / 1000000)\<bar> < 1 / 1000000" by linarith
  then show ?thesis unfolding y_def x_def m_def c_def q_def .
qed

text \<open>So the truncated index is the nearest rank, for integer percentiles.\<close>

lemma percentile_index_eq:
  assumes "p \<le> 100" and "0 < n" and "n \<le> 100000000"
  shows "percentile_index (of_nat p) n = nearest_rank p n"
proof -
  define P where "P = p * n"
  have P: "P \<le> 100 * n" using assms(1) by (simp add: P_def)
  let ?x = "fl (fl (fl (of_nat p / 100) * fl (of_nat n)) + fl (999999 / 1000000)) :: rat"
  have "(of_nat n :: rat) \<le> of_nat 100000000" using assms(3) by (rule of_nat_mono)
  then have "\<bar>?x - (of_nat p / 100 * of_nat n + 999999 / 1000000)\<bar> < 1 / 1000000"
    using assms(1) by (intro float_index_close) simp_all
  then have x: "\<bar>?x - (of_nat P / 100 + 999999 / 1000000)\<bar> < 1 / 1000000" by (simp add: P_def)
  obtain k r where k: "P = 100 * k + r" "r < 100" by (metis mod_less_divisor mult_div_mod_eq zero_less_numeral)
  have Pk: "(of_nat P :: rat) / 100 = of_nat k + of_nat r / 100" by (simp add: k add_divide_distrib)
  define z where "z = ?x"
  have z: "of_nat k + of_nat r / 100 + 999998 / 1000000 < z" "z < of_nat k + of_nat r / 100 + 1"
    using x unfolding Pk z_def by linarith+
  have fl: "\<lfloor>?x\<rfloor> = int ((P + 99) div 100)"
  proof (cases "r = 0")
    case True
    then have "(P + 99) div 100 = k" by (simp add: k)
    moreover have "\<lfloor>z\<rfloor> = int k" using z True by (intro floor_unique) simp_all
    ultimately show ?thesis by (simp add: z_def)
  next
    case False
    then have "(P + 99) div 100 = k + 1" using k by simp
    moreover have r: "1 \<le> (of_nat r :: rat)" "of_nat r \<le> (99 :: rat)"
      using False k(2) of_nat_mono [of 1 r, where ?'a = rat] of_nat_mono [of r 99, where ?'a = rat] by simp_all
    have "of_int (int k + 1) = (of_nat k + 1 :: rat)" by simp
    then have "of_int (int k + 1) \<le> z" "z < of_int (int k + 1) + 1" using z r by linarith+
    then have "\<lfloor>z\<rfloor> = int k + 1" by (rule floor_unique)
    ultimately show ?thesis by (simp add: z_def)
  qed
  have "(P + 99) div 100 \<le> n" using P by simp
  then show ?thesis
    using assms(1,2) fl by (simp add: percentile_index_def nearest_rank_def Let_def P_def [symmetric] max_def)
qed

lemma nearest_rank_bounds:
  assumes "p \<le> 100" and "0 < n"
  shows "1 \<le> nearest_rank p n \<and> nearest_rank p n \<le> n"
proof -
  have "(P + 99) div 100 \<le> n" if "P \<le> 100 * n" for P using that by simp
  from this [of "p * n"] have "(p * n + 99) div 100 \<le> n" using assms(1) by simp
  with assms(2) show ?thesis by (auto simp: nearest_rank_def)
qed

lemma nearest_rank_mono:
  assumes "p \<le> q"
  shows "nearest_rank p n \<le> nearest_rank q n"
proof -
  have "(p * n + 99) div 100 \<le> (q * n + 99) div 100"
    using assms by (intro div_le_mono add_le_mono mult_le_mono1) auto
  then show ?thesis by (auto simp: nearest_rank_def)
qed

lemma length_filter_sort: "length (filter P (sort xs)) = length (filter P xs)"
  by (metis mset_filter mset_sort size_mset)

lemma percentile_eq:
  assumes "p \<le> 100" and "xs \<noteq> []" and "length xs \<le> 100000000"
  shows "percentilePriority xs (of_nat p) = Some (sort xs ! (nearest_rank p (length xs) - 1))"
  using assms percentile_index_eq [of p "length xs"] by (simp add: percentilePriority_def Let_def)

text \<open>Counting in a sorted list.\<close>

lemma sorted_count_ge:
  fixes ys :: "int list"
  assumes "sorted ys" and "k < length ys"
  shows "k + 1 \<le> length (filter (\<lambda>x. x \<le> ys ! k) ys)"
proof -
  have "filter (\<lambda>x. x \<le> ys ! k) (take (k + 1) ys) = take (k + 1) ys"
    using assms by (auto simp: filter_id_conv in_set_conv_nth less_Suc_eq_le sorted_iff_nth_mono)
  then have "k + 1 = length (filter (\<lambda>x. x \<le> ys ! k) (take (k + 1) ys))" using assms(2) by simp
  also have "\<dots> \<le> length (filter (\<lambda>x. x \<le> ys ! k) (take (k + 1) ys @ drop (k + 1) ys))"
    unfolding filter_append by simp
  finally show ?thesis by simp
qed

lemma sorted_count_less:
  fixes ys :: "int list"
  assumes "sorted ys" and "k < length ys" and "w < ys ! k"
  shows "length (filter (\<lambda>x. x \<le> w) ys) \<le> k"
proof -
  have "filter (\<lambda>x. x \<le> w) (drop k ys) = []"
  proof -
    have "ys ! k \<le> x" if "x \<in> set (drop k ys)" for x
      using that assms(1,2) by (auto simp: in_set_conv_nth intro: sorted_nth_mono)
    with assms(3) show ?thesis by (force simp: filter_empty_conv)
  qed
  then have "filter (\<lambda>x. x \<le> w) ys = filter (\<lambda>x. x \<le> w) (take k ys)"
    by (metis append_Nil2 append_take_drop_id filter_append)
  then show ?thesis using length_filter_le [of "\<lambda>x. x \<le> w" "take k ys"] by simp
qed

section \<open>Properties\<close>

text \<open>
  C34. The percentile of up to a hundred million fees, computed with \<open>float64\<close> arithmetic and the
  constant 0.999999 in place of a ceiling, is exactly the nearest-rank percentile for every integer
  percentage: one of the fees, at least \<open>p\<close> percent of the fees are not above it, and no smaller fee
  of the list covers \<open>p\<close> percent.
\<close>

theorem percentile_is_nearest_rank:
  assumes "p \<le> 100" and "xs \<noteq> []" and "length xs \<le> 100000000"
  shows "\<exists>v. percentilePriority xs (of_nat p) = Some v \<and> v \<in> set xs \<and>
    p * length xs \<le> 100 * length (filter (\<lambda>x. x \<le> v) xs) \<and>
    (\<forall>w. w \<in> set xs \<and> w < v \<longrightarrow> 100 * length (filter (\<lambda>x. x \<le> w) xs) < p * length xs)"
proof -
  let ?n = "length xs" and ?ys = "sort xs"
  let ?k = "nearest_rank p ?n - 1"
  have k: "?k < length ?ys" "?k + 1 = nearest_rank p ?n"
    using nearest_rank_bounds [OF assms(1), of ?n] assms(2) by auto
  let ?v = "?ys ! ?k"
  have v: "percentilePriority xs (of_nat p) = Some ?v" using percentile_eq [OF assms] .
  have "?v \<in> set xs" using nth_mem [OF k(1)] by simp
  moreover have "p * ?n \<le> 100 * length (filter (\<lambda>x. x \<le> ?v) xs)"
  proof -
    have "p * ?n \<le> 100 * nearest_rank p ?n" by (auto simp: nearest_rank_def)
    also have "\<dots> \<le> 100 * length (filter (\<lambda>x. x \<le> ?v) ?ys)"
      using sorted_count_ge [OF sorted_sort k(1)] k(2) by simp
    finally show ?thesis by (simp add: length_filter_sort)
  qed
  moreover have "100 * length (filter (\<lambda>x. x \<le> w) xs) < p * ?n" if "w \<in> set xs" "w < ?v" for w
  proof -
    have "length (filter (\<lambda>x. x \<le> w) xs) \<le> ?k"
      using sorted_count_less [OF sorted_sort k(1) that(2)] by (simp add: length_filter_sort)
    moreover have "0 < length (filter (\<lambda>x. x \<le> w) xs)" using that(1) by (auto simp: filter_empty_conv)
    ultimately have "0 < ?k" and le: "100 * length (filter (\<lambda>x. x \<le> w) xs) \<le> 100 * ?k" by linarith+
    then have "nearest_rank p ?n = (p * ?n + 99) div 100" by (auto simp: nearest_rank_def max_def split: if_splits)
    then have "100 * ?k < p * ?n" using \<open>0 < ?k\<close> by auto
    with le show ?thesis by simp
  qed
  ultimately show ?thesis using v by blast
qed

theorem percentile_is_nearest_rank_witness:
  "\<exists>v. percentilePriority [30, 10, 20] (of_nat 50) = Some v \<and> v \<in> {10, 20, 30} \<and>
    50 * 3 \<le> 100 * length (filter (\<lambda>x. x \<le> v) [30, 10, 20])"
  using percentile_is_nearest_rank [of 50 "[30, 10, 20]"] by (auto simp del: of_nat_numeral)

text \<open>
  Higher tiers never cost less: on the same samples, the low, standard and high estimates all
  exist and their priority fee, maximum fee per gas and total fee are in ascending order.
\<close>

theorem tiers_ascending:
  assumes "es_samples e \<noteq> []" and "sm_BaseFee (last (es_samples e)) = Some base"
    and "length (sm_PriorityFees (last (es_samples e))) \<le> 100000000"
  shows "\<exists>lo st hi.
    estimateEIP1559 e \<lparr>fr_To = t, fr_Amount = a, fr_Priority = PriorityLow\<rparr> fb = Inr lo \<and>
    estimateEIP1559 e \<lparr>fr_To = t, fr_Amount = a, fr_Priority = PriorityStandard\<rparr> fb = Inr st \<and>
    estimateEIP1559 e \<lparr>fr_To = t, fr_Amount = a, fr_Priority = PriorityHigh\<rparr> fb = Inr hi \<and>
    the (fe_MaxPriorityFeePerGas lo) \<le> the (fe_MaxPriorityFeePerGas st) \<and>
    the (fe_MaxPriorityFeePerGas st) \<le> the (fe_MaxPriorityFeePerGas hi) \<and>
    the (fe_MaxFeePerGas lo) \<le> the (fe_MaxFeePerGas st) \<and>
    the (fe_MaxFeePerGas st) \<le> the (fe_MaxFeePerGas hi) \<and>
    the (fe_TotalFee lo) \<le> the (fe_TotalFee st) \<and> the (fe_TotalFee st) \<le> the (fe_TotalFee hi)"
proof -
  let ?s = "last (es_samples e)"
  let ?xs = "sm_PriorityFees ?s"
  let ?tip = "\<lambda>p. case percentilePriority ?xs p of None \<Rightarrow> 1000000000 | Some x \<Rightarrow> x"
  have mono: "?tip (of_nat p) \<le> ?tip (of_nat q)" if "p \<le> q" "q \<le> 100" for p q
  proof (cases "?xs = []")
    case True
    then show ?thesis by (simp add: percentilePriority_def)
  next
    case False
    have "sort ?xs ! (nearest_rank p (length ?xs) - 1) \<le> sort ?xs ! (nearest_rank q (length ?xs) - 1)"
      using nearest_rank_mono [OF that(1), of "length ?xs"] nearest_rank_bounds [OF that(2), of "length ?xs"] False
      by (intro sorted_nth_mono) auto
    then show ?thesis using that False assms(3) by (simp add: percentile_eq)
  qed
  have t: "?tip 10 \<le> ?tip 50" "?tip 50 \<le> ?tip 90" using mono [of 10 50] mono [of 50 90] by simp_all
  have last: "es_samples e ! (length (es_samples e) - 1) = ?s" using assms(1) by (simp add: last_conv_nth)
  have pct: "percentileForPriority PriorityLow = 10" "percentileForPriority PriorityStandard = 50"
    "percentileForPriority PriorityHigh = 90"
    by (simp_all add: percentileForPriority_def priority_defs)
  show ?thesis
    using t assms(1,2) by (simp add: estimateEIP1559_def Let_def last pct mult_right_mono del: One_nat_def)
qed

definition sample_estimator :: "string \<Rightarrow> estimator" where
  "sample_estimator strat = PushSample (NewEstimator ''ethereum'' strat 12)
     \<lparr>sm_Number = 1, sm_BaseFee = Some 100, sm_GasUsed = 0, sm_GasLimit = 0, sm_PriorityFees = [30, 10, 20]\<rparr>"

theorem tiers_ascending_witness:
  "\<exists>lo hi.
    estimateEIP1559 (sample_estimator ''eip1559_dynamic'') \<lparr>fr_To = [], fr_Amount = None, fr_Priority = PriorityLow\<rparr> False = Inr lo \<and>
    estimateEIP1559 (sample_estimator ''eip1559_dynamic'') \<lparr>fr_To = [], fr_Amount = None, fr_Priority = PriorityHigh\<rparr> False = Inr hi \<and>
    the (fe_TotalFee lo) \<le> the (fe_TotalFee hi)"
proof -
  let ?e = "sample_estimator ''eip1559_dynamic''"
  have "es_samples ?e \<noteq> []" "sm_BaseFee (last (es_samples ?e)) = Some 100"
    "length (sm_PriorityFees (last (es_samples ?e))) \<le> 100000000"
    by (simp_all add: sample_estimator_def PushSample_def NewEstimator_def)
  from tiers_ascending [OF this, of "[]" None False] show ?thesis by (auto intro: order_trans)
qed

text \<open>
  Without block samples the dynamic strategy never gives an estimate, whatever the adapter could
  answer, and the fallback strategy answers exactly what the adapter does.
\<close>

theorem estimate_without_samples:
  assumes "es_samples e = []" and "fr_Priority req \<noteq> []"
  shows "(es_strategy e = ''eip1559_dynamic'' \<longrightarrow> isl (Estimate e adapter w req)) \<and>
    (es_strategy e = ''eip1559_legacy_fallback'' \<longrightarrow> Estimate e adapter w req = ad_EstimateFee adapter req w)"
  using assms by (simp add: Estimate_def estimateEIP1559_def Let_def)

theorem estimate_without_samples_witness:
  "isl (Estimate (NewEstimator ''ethereum'' ''eip1559_dynamic'' 12) (stub_ops sample_stub) sample_stub
     \<lparr>fr_To = [], fr_Amount = None, fr_Priority = PriorityHigh\<rparr>)"
  using estimate_without_samples [of "NewEstimator ''ethereum'' ''eip1559_dynamic'' 12"
      "\<lparr>fr_To = [], fr_Amount = None, fr_Priority = PriorityHigh\<rparr>" "stub_ops sample_stub" sample_stub]
  by (simp add: NewEstimator_def priority_defs)

text \<open>
  The estimator's window: after any number of blocks it holds the newest twenty, in order.
\<close>

theorem samples_window:
  "Samples (run PushSample (NewEstimator c strat fin) ss) = lastn 20 ss"
  using samples.items_run [of "NewEstimator c strat fin" ss] by (simp add: Samples_def NewEstimator_def)

end
