(* ===== verification/Rest_Api.thy ===== *)
theory Rest_Api
  imports Broadcast_Service Fee_Estimator Go_Json
begin

text \<open>
  The REST layer of \<open>internal/api/rest/router.go\<close>. A handler is a function of the dependencies, the
  request and the state of the service and of the tip store. Routing is chi's: a request arrives
  with the parameters its route's pattern has bound. A body is the JSON value it holds, or none when
  its text is not JSON. A reply is its status code and the map that is handed to the JSON encoder;
  an error's text is kept as the error. A handler that dereferences \<open>nil\<close> panics; the server then
  closes the connection without a reply.
\<close>

section \<open>Requests and replies\<close>

record http_request =
  hr_param :: "string \<Rightarrow> string"
  hr_body :: "json option"

datatype goval = GStr string | GUint u64 | GInt int | GTime time | GErr error

type_synonym body = "(string \<times> goval) list"

datatype reply = Reply nat body | Panic | NoReply

text \<open>
  The fields of \<open>Deps\<close> that a handler reads; \<open>Broadcasts\<close>, \<open>Followers\<close> and \<open>Bus\<close> are read by none.
  Of the optional WebSocket handler only its presence matters to the router.
\<close>

record ('b, 'c, 'w, 'r, 'l, 'o, 'p, 't) deps =
  dp_Registry :: "'w registry"
  dp_Broadcast :: "('b, 'c, 'w, 'r, 'l, 'o, 'p) service"
  dp_Estimators :: "(string, estimator) gomap"
  dp_Confirms :: "'c confirmation_store"
  dp_Tips :: "'t tip_store"
  dp_WSHandler :: bool

record ('b, 'c, 'w, 'r, 'l, 'o, 'p, 't) rest_state =
  rs_service :: "('b, 'c, 'w, 'r, 'l, 'o, 'p) service_state"
  rs_tips :: 't

section \<open>Helpers\<close>

definition writeJSON :: "nat \<Rightarrow> body \<Rightarrow> reply" where
  "writeJSON code v = Reply code v"

definition writeError :: "nat \<Rightarrow> goval \<Rightarrow> reply" where
  "writeError code msg = writeJSON code [(''error'', msg)]"

text \<open>
  \<open>errors.Is\<close>: a wrapper built with \<open>%w\<close> is unwrapped. What an adapter or prepayment error adds to
  its sentinel is formatted with \<open>%v\<close>, or is a timeout or the context's error, and matches nothing
  the router looks for.
\<close>

fun errors_Is :: "error \<Rightarrow> (error \<Rightarrow> bool) \<Rightarrow> bool" where
  "errors_Is (ErrWrapped msg e) p = errors_Is e p"
| "errors_Is e p = p e"

definition is_ErrUnknownChain :: "error \<Rightarrow> bool" where
  "is_ErrUnknownChain e = (case e of ErrUnknownChain _ \<Rightarrow> True | _ \<Rightarrow> False)"

definition is_ErrBadRequest :: "error \<Rightarrow> bool" where
  "is_ErrBadRequest e = (case e of ErrBadRequest _ \<Rightarrow> True | _ \<Rightarrow> False)"

definition prepaymentErrSentinel :: error where
  "prepaymentErrSentinel = ErrPrepaymentStub"

definition writeBroadcastError :: "error \<Rightarrow> reply" where
  "writeBroadcastError err =
     (if errors_Is err is_ErrUnknownChain then writeError 404 (GErr err)
      else if errors_Is err is_ErrBadRequest then writeError 400 (GErr err)
      else if errors_Is err (\<lambda>e. e = prepaymentErrSentinel) then writeError 402 (GErr err)
      else writeError 500 (GErr err))"

definition rest_bigStr :: "int option \<Rightarrow> string" where
  "rest_bigStr b = (case b of None \<Rightarrow> ''0'' | Some n \<Rightarrow> big_String n)"

text \<open>A member that is set only when its value is not \<open>nil\<close>.\<close>

definition opt_big :: "string \<Rightarrow> int option \<Rightarrow> body" where
  "opt_big k v = (case v of None \<Rightarrow> [] | Some n \<Rightarrow> [(k, GStr (big_String n))])"

definition feeToJSON :: "fee_estimate \<Rightarrow> body" where
  "feeToJSON fe =
     [(''gas_limit'', GUint (fe_GasLimit fe)), (''priority'', GStr (fe_Priority fe)),
      (''strategy'', GStr (fe_Strategy fe)), (''total_fee'', GStr (rest_bigStr (fe_TotalFee fe)))]
     @ opt_big ''max_fee_per_gas'' (fe_MaxFeePerGas fe)
     @ opt_big ''max_priority_fee_per_gas'' (fe_MaxPriorityFeePerGas fe)
     @ opt_big ''gas_price'' (fe_GasPrice fe)"

definition txToJSON :: "tx \<Rightarrow> body" where
  "txToJSON t =
     [(''tx_hash'', GStr (tx_Hash t)), (''status'', GStr (status_string (tx_Status t))),
      (''block_height'', GUint (tx_BlockHeight t)), (''from'', GStr (tx_From t)), (''to'', GStr (tx_To t)),
      (''nonce'', GUint (tx_Nonce t))]
     @ opt_big ''value'' (tx_Value t) @ opt_big ''fee'' (tx_Fee t)
     @ (if length (tx_Raw t) > 0 then [(''raw'', GStr (''0x'' @ hex_encode (tx_Raw t)))] else [])"

definition symbolFor :: "string \<Rightarrow> string" where
  "symbolFor chainID =
     (if chainID \<in> {''ethereum'', ''polygon'', ''arbitrum'', ''optimism'', ''base''} then
        (if chainID = ''ethereum'' then ''ETH'' else if chainID = ''polygon'' then ''MATIC'' else ''ETH'')
      else if chainID = ''solana'' then ''SOL''
      else if chainID = ''bitcoin'' then ''BTC''
      else [])"

section \<open>Request bodies\<close>

record broadcast_req =
  bq_SignedTx :: string
  bq_From :: string
  bq_WalletID :: string
  bq_To :: string
  bq_Value :: string
  bq_Nonce :: u64
  bq_SubmittedBy :: string

definition broadcast_req_zero :: broadcast_req where
  "broadcast_req_zero = \<lparr>bq_SignedTx = [], bq_From = [], bq_WalletID = [], bq_To = [], bq_Value = [], bq_Nonce = 0,
     bq_SubmittedBy = []\<rparr>"

definition broadcast_req_fields :: "broadcast_req fields" where
  "broadcast_req_fields =
     [(''signed_tx'', set_string bq_SignedTx_update), (''from'', set_string bq_From_update),
      (''wallet_id'', set_string bq_WalletID_update), (''to'', set_string bq_To_update),
      (''value'', set_string bq_Value_update), (''nonce'', set_u64 bq_Nonce_update),
      (''submitted_by'', set_string bq_SubmittedBy_update)]"

record estimate_fee_req =
  eq_To :: string
  eq_Amount :: string
  eq_Priority :: string

definition estimate_fee_req_fields :: "estimate_fee_req fields" where
  "estimate_fee_req_fields =
     [(''to'', set_string eq_To_update), (''amount'', set_string eq_Amount_update),
      (''priority'', set_string eq_Priority_update)]"

text \<open>\<open>json.NewDecoder(r.Body).Decode\<close>: a text that is no JSON leaves the variable as it was.\<close>

definition decode_body :: "'a fields \<Rightarrow> json option \<Rightarrow> 'a \<Rightarrow> 'a \<times> bool" where
  "decode_body fs b a = (case b of None \<Rightarrow> (a, False) | Some j \<Rightarrow> unmarshal_struct fs j a)"

section \<open>Handlers\<close>

definition healthz :: reply where
  "healthz = writeJSON 200 [(''status'', GStr ''ok'')]"

definition handleBroadcast ::
  "('b, 'c, 'w, 'r, 'l, 'o, 'p, 't) deps \<Rightarrow> bcast_input \<Rightarrow> http_request \<Rightarrow> ('b, 'c, 'w, 'r, 'l, 'o, 'p, 't) rest_state \<Rightarrow>
    reply \<times> ('b, 'c, 'w, 'r, 'l, 'o, 'p, 't) rest_state" where
  "handleBroadcast d inp r st =
     (let chainID = hr_param r ''chain'';
          (req, ok) = decode_body broadcast_req_fields (hr_body r) broadcast_req_zero in
      if \<not> ok then (writeError 400 (GStr ''malformed json''), st)
      else if bq_SignedTx req = [] then (writeError 400 (GStr ''missing signed_tx''), st)
      else (case decodePayload (bq_SignedTx req) of
              None \<Rightarrow> (writeError 400 (GStr ''invalid signed_tx encoding''), st)
            | Some raw \<Rightarrow>
                (let (res, svc) = Broadcast (dp_Broadcast d) inp
                       (Some \<lparr>rq_ChainID = chainID, rq_SignedTx = raw, rq_From = bq_From req,
                          rq_WalletID = bq_WalletID req, rq_To = bq_To req, rq_Value = bq_Value req,
                          rq_Nonce = bq_Nonce req, rq_SubmittedBy = bq_SubmittedBy req\<rparr>) (rs_service st);
                     st = st\<lparr>rs_service := svc\<rparr> in
                 case res of
                   None \<Rightarrow> (NoReply, st)
                 | Some (Inl err) \<Rightarrow> (writeBroadcastError err, st)
                 | Some (Inr resp) \<Rightarrow>
                     (writeJSON 200 [(''tx_hash'', GStr (rp_TxHash resp)), (''nonce'', GUint (rp_Nonce resp))], st))))"

text \<open>The decoding error is ignored, so a malformed body is an empty request and a bad amount is \<open>nil\<close>.\<close>

definition handleEstimateFee ::
  "('b, 'c, 'w, 'r, 'l, 'o, 'p, 't) deps \<Rightarrow> http_request \<Rightarrow> ('b, 'c, 'w, 'r, 'l, 'o, 'p, 't) rest_state \<Rightarrow> reply" where
  "handleEstimateFee d r st =
     (let chainID = hr_param r ''chain''; w = sv_world (rs_service st) in
      case registry_Get chainID (dp_Registry d) of
        Inl err \<Rightarrow> writeError 404 (GErr err)
      | Inr adapter \<Rightarrow>
          (let req = fst (decode_body estimate_fee_req_fields (hr_body r) \<lparr>eq_To = [], eq_Amount = [], eq_Priority = []\<rparr>);
               p = (if eq_Priority req = [] then PriorityStandard else eq_Priority req);
               amt = (if eq_Amount req \<noteq> [] then big_SetString (eq_Amount req) else Some 0);
               freq = \<lparr>fr_To = eq_To req, fr_Amount = amt, fr_Priority = p\<rparr>;
               res = (case map_of (dp_Estimators d) chainID of
                        Some est \<Rightarrow> Estimate est adapter w freq
                      | None \<Rightarrow> ad_EstimateFee adapter freq w) in
           case res of
             Inl err \<Rightarrow> writeError 500 (GErr err)
           | Inr None \<Rightarrow> Panic
           | Inr (Some fe) \<Rightarrow> writeJSON 200 (feeToJSON fe)))"

definition handleHeight ::
  "('b, 'c, 'w, 'r, 'l, 'o, 'p, 't) deps \<Rightarrow> http_request \<Rightarrow> ('b, 'c, 'w, 'r, 'l, 'o, 'p, 't) rest_state \<Rightarrow> reply" where
  "handleHeight d r st =
     (let chainID = hr_param r ''chain'' in
      case registry_Get chainID (dp_Registry d) of
        Inl err \<Rightarrow> writeError 404 (GErr err)
      | Inr adapter \<Rightarrow>
          (case ad_Height adapter (sv_world (rs_service st)) of
             Inl err \<Rightarrow> writeError 500 (GErr err)
           | Inr h \<Rightarrow>
               (let (tipHash, finalized) = (case tps_Get (dp_Tips d) chainID (rs_tips st) of
                      Inr t \<Rightarrow> (tp_TipHash t, tp_FinalizedHeight t)
                    | Inl _ \<Rightarrow> ([], 0)) in
                writeJSON 200 [(''height'', GUint h), (''hash'', GStr tipHash), (''finalized_height'', GUint finalized)])))"

definition handleBalance ::
  "('b, 'c, 'w, 'r, 'l, 'o, 'p, 't) deps \<Rightarrow> http_request \<Rightarrow> ('b, 'c, 'w, 'r, 'l, 'o, 'p, 't) rest_state \<Rightarrow> reply" where
  "handleBalance d r st =
     (let chainID = hr_param r ''chain''; addr = hr_param r ''addr'' in
      case registry_Get chainID (dp_Registry d) of
        Inl err \<Rightarrow> writeError 404 (GErr err)
      | Inr adapter \<Rightarrow>
          (case ad_Balance adapter addr (sv_world (rs_service st)) of
             Inl err \<Rightarrow> writeError 500 (GErr err)
           | Inr bal \<Rightarrow>
               writeJSON 200 [(''address'', GStr addr), (''balance'', GStr (big_String bal)), (''decimals'', GInt 18),
                 (''symbol'', GStr (symbolFor chainID))]))"

definition handleGetTx ::
  "('b, 'c, 'w, 'r, 'l, 'o, 'p, 't) deps \<Rightarrow> http_request \<Rightarrow> ('b, 'c, 'w, 'r, 'l, 'o, 'p, 't) rest_state \<Rightarrow> reply" where
  "handleGetTx d r st =
     (let chainID = hr_param r ''chain''; hash = hr_param r ''hash'' in
      case registry_Get chainID (dp_Registry d) of
        Inl err \<Rightarrow> writeError 404 (GErr err)
      | Inr adapter \<Rightarrow>
          (case ad_GetTx adapter hash (sv_world (rs_service st)) of
             Inl err \<Rightarrow> writeError 404 (GErr err)
           | Inr t \<Rightarrow> writeJSON 200 (txToJSON t)))"

definition handleGetTxStatus ::
  "('b, 'c, 'w, 'r, 'l, 'o, 'p, 't) deps \<Rightarrow> http_request \<Rightarrow> ('b, 'c, 'w, 'r, 'l, 'o, 'p, 't) rest_state \<Rightarrow> reply" where
  "handleGetTxStatus d r st =
     (let chainID = hr_param r ''chain''; hash = hr_param r ''hash'' in
      case cs_Get (dp_Confirms d) chainID hash (sv_confirms (rs_service st)) of
        Inr c \<Rightarrow>
          writeJSON 200 [(''status'', GStr (status_string (cf_Status c))), (''confirmations'', GUint (cf_Confirmations c)),
            (''finalized_at'', GTime (cf_FinalizedAt c))]
      | Inl _ \<Rightarrow>
          (case registry_Get chainID (dp_Registry d) of
             Inl err \<Rightarrow> writeError 404 (GErr err)
           | Inr adapter \<Rightarrow>
               (case ad_GetTxStatus adapter hash (sv_world (rs_service st)) of
                  Inl err \<Rightarrow> writeError 404 (GErr err)
                | Inr None \<Rightarrow> Panic
                | Inr (Some ts) \<Rightarrow>
                    writeJSON 200 [(''status'', GStr (status_string (ts_Status ts))),
                      (''confirmations'', GUint (ts_Confirmations ts)), (''finalized_at'', GTime (ts_FinalizedAt ts))])))"

section \<open>The router\<close>

datatype endpoint = EHealthz | EBroadcast | EEstimateFee | EHeight | EBalance | EGetTx | EGetTxStatus

datatype route = Json endpoint | Heads

definition NewRouter :: "('b, 'c, 'w, 'r, 'l, 'o, 'p, 't) deps \<Rightarrow> (string \<times> string \<times> route) list" where
  "NewRouter d =
     [(''GET'', ''/healthz'', Json EHealthz),
      (''POST'', ''/v1/chains/{chain}/broadcast'', Json EBroadcast),
      (''POST'', ''/v1/chains/{chain}/estimate-fee'', Json EEstimateFee),
      (''GET'', ''/v1/chains/{chain}/height'', Json EHeight),
      (''GET'', ''/v1/chains/{chain}/address/{addr}/balance'', Json EBalance),
      (''GET'', ''/v1/chains/{chain}/tx/{hash}'', Json EGetTx),
      (''GET'', ''/v1/chains/{chain}/tx/{hash}/status'', Json EGetTxStatus)]
     @ (if dp_WSHandler d then [(''GET'', ''/v1/chains/{chain}/heads'', Heads)] else [])"

text \<open>The handlers of the JSON routes. The heads route is served by the WebSocket handler.\<close>

definition serve ::
  "('b, 'c, 'w, 'r, 'l, 'o, 'p, 't) deps \<Rightarrow> endpoint \<Rightarrow> bcast_input \<Rightarrow> http_request \<Rightarrow>
    ('b, 'c, 'w, 'r, 'l, 'o, 'p, 't) rest_state \<Rightarrow> reply \<times> ('b, 'c, 'w, 'r, 'l, 'o, 'p, 't) rest_state" where
  "serve d e inp r st =
     (case e of
        EHealthz \<Rightarrow> (healthz, st)
      | EBroadcast \<Rightarrow> handleBroadcast d inp r st
      | EEstimateFee \<Rightarrow> (handleEstimateFee d r st, st)
      | EHeight \<Rightarrow> (handleHeight d r st, st)
      | EBalance \<Rightarrow> (handleBalance d r st, st)
      | EGetTx \<Rightarrow> (handleGetTx d r st, st)
      | EGetTxStatus \<Rightarrow> (handleGetTxStatus d r st, st))"

section \<open>The types of the replies\<close>

datatype gotype = TStr | TUint | TInt | TTime

fun goval_type :: "goval \<Rightarrow> gotype" where
  "goval_type (GStr _) = TStr"
| "goval_type (GUint _) = TUint"
| "goval_type (GInt _) = TInt"
| "goval_type (GTime _) = TTime"
| "goval_type (GErr _) = TStr"

text \<open>What a reply with code 200 holds: for each member its type and whether it is always there.\<close>

fun schema :: "endpoint \<Rightarrow> (string \<times> gotype \<times> bool) list" where
  "schema EHealthz = [(''status'', TStr, True)]"
| "schema EBroadcast = [(''tx_hash'', TStr, True), (''nonce'', TUint, True)]"
| "schema EEstimateFee = [(''gas_limit'', TUint, True), (''priority'', TStr, True), (''strategy'', TStr, True),
     (''total_fee'', TStr, True), (''max_fee_per_gas'', TStr, False), (''max_priority_fee_per_gas'', TStr, False),
     (''gas_price'', TStr, False)]"
| "schema EHeight = [(''height'', TUint, True), (''hash'', TStr, True), (''finalized_height'', TUint, True)]"
| "schema EBalance = [(''address'', TStr, True), (''balance'', TStr, True), (''decimals'', TInt, True), (''symbol'', TStr, True)]"
| "schema EGetTx = [(''tx_hash'', TStr, True), (''status'', TStr, True), (''block_height'', TUint, True), (''from'', TStr, True),
     (''to'', TStr, True), (''nonce'', TUint, True), (''value'', TStr, False), (''fee'', TStr, False), (''raw'', TStr, False)]"
| "schema EGetTxStatus = [(''status'', TStr, True), (''confirmations'', TUint, True), (''finalized_at'', TTime, True)]"

fun codes :: "endpoint \<Rightarrow> nat list" where
  "codes EHealthz = [200]"
| "codes EBroadcast = [200, 400, 402, 404, 500]"
| "codes EGetTx = [200, 404]"
| "codes EGetTxStatus = [200, 404]"
| "codes _ = [200, 404, 500]"

definition conforms :: "(string \<times> gotype \<times> bool) list \<Rightarrow> body \<Rightarrow> bool" where
  "conforms sch b \<longleftrightarrow>
     list_all (\<lambda>(k, v). \<exists>req \<in> {True, False}. (k, goval_type v, req) \<in> set sch) b \<and>
     list_all (\<lambda>(k, t, req). req \<longrightarrow> k \<in> fst ` set b) sch \<and> distinct (map fst b)"

definition reply_ok :: "endpoint \<Rightarrow> reply \<Rightarrow> bool" where
  "reply_ok e r \<longleftrightarrow>
     (case r of
        Reply c b \<Rightarrow> c \<in> set (codes e) \<and> conforms (if c = 200 then schema e else [(''error'', TStr, True)]) b
      | Panic \<Rightarrow> e = EEstimateFee \<or> e = EGetTxStatus
      | NoReply \<Rightarrow> e = EBroadcast)"

lemma writeError_ok [simp]:
  "goval_type v = TStr \<Longrightarrow> reply_ok e (writeError c v) \<longleftrightarrow> c \<in> set (codes e) \<and> c \<noteq> 200"
  "reply_ok e Panic \<longleftrightarrow> e = EEstimateFee \<or> e = EGetTxStatus" "reply_ok e NoReply \<longleftrightarrow> e = EBroadcast"
  by (cases e; force simp: reply_ok_def writeError_def writeJSON_def conforms_def)+

lemma feeToJSON_conforms: "conforms (schema EEstimateFee) (feeToJSON fe)"
  by (simp add: conforms_def feeToJSON_def opt_big_def split: option.split)

lemma txToJSON_conforms: "conforms (schema EGetTx) (txToJSON t)"
  by (simp add: conforms_def txToJSON_def opt_big_def split: option.split)

lemma handleBroadcast_typed: "reply_ok EBroadcast (fst (handleBroadcast d inp r st))"
  by (auto simp: handleBroadcast_def writeBroadcastError_def writeJSON_def reply_ok_def [of _ "Reply _ _"] conforms_def
      Let_def split: prod.splits option.splits sum.splits)

lemma handleEstimateFee_typed: "reply_ok EEstimateFee (handleEstimateFee d r st)"
  by (auto simp: handleEstimateFee_def reply_ok_def [of _ "Reply _ _"] writeJSON_def feeToJSON_conforms Let_def
      simp del: schema.simps split: option.splits sum.splits)

lemma handleGetTx_typed: "reply_ok EGetTx (handleGetTx d r st)"
  by (auto simp: handleGetTx_def reply_ok_def [of _ "Reply _ _"] writeJSON_def txToJSON_conforms Let_def
      simp del: schema.simps split: sum.splits)

lemma handleHeight_typed: "reply_ok EHeight (handleHeight d r st)"
  by (auto simp: handleHeight_def reply_ok_def [of _ "Reply _ _"] writeJSON_def conforms_def Let_def
      split: sum.splits)

lemma handleBalance_typed: "reply_ok EBalance (handleBalance d r st)"
  by (auto simp: handleBalance_def reply_ok_def [of _ "Reply _ _"] writeJSON_def conforms_def Let_def
      split: sum.splits)

lemma handleGetTxStatus_typed: "reply_ok EGetTxStatus (handleGetTxStatus d r st)"
  by (auto simp: handleGetTxStatus_def reply_ok_def [of _ "Reply _ _"] writeJSON_def conforms_def Let_def
      split: sum.splits option.splits)

lemmas typed_handlers = handleBroadcast_typed handleEstimateFee_typed handleGetTx_typed handleHeight_typed
  handleBalance_typed handleGetTxStatus_typed

lemma serve_ok: "reply_ok e (fst (serve d e inp r st))"
proof (cases e)
  case EHealthz
  then show ?thesis by (simp add: serve_def healthz_def writeJSON_def reply_ok_def conforms_def)
qed (simp_all add: serve_def typed_handlers)

text \<open>
  What the table of endpoints in \<open>README.md\<close> says a reply holds, and the statuses it lists; \<open>/healthz\<close> is not in the
  table. The handlers differ from it: they send members that are not in it (\<open>extra_members\<close>), and leave some of it out or may
  leave it out (\<open>omitted_members\<close>).
\<close>

fun readme_members :: "endpoint \<Rightarrow> string list" where
  "readme_members EHealthz = []"
| "readme_members EBroadcast = [''tx_hash'']"
| "readme_members EGetTx = [''tx_hash'', ''status'', ''block_height'', ''confirmations'', ''from'', ''to'', ''value'', ''fee'', ''raw'']"
| "readme_members EGetTxStatus = [''status'', ''confirmations'', ''finalized_at'']"
| "readme_members EEstimateFee =
     [''gas_limit'', ''max_fee_per_gas'', ''max_priority_fee_per_gas'', ''gas_price'', ''total_fee'', ''priority'']"
| "readme_members EHeight = [''height'', ''hash'', ''finalized_height'']"
| "readme_members EBalance = [''address'', ''balance'', ''decimals'', ''symbol'']"

definition readme_statuses :: "string list" where
  "readme_statuses = [''mempool'', ''confirmed'', ''finalized'', ''dropped'', ''replaced'', ''reorged_out'', ''failed'']"

fun extra_members :: "endpoint \<Rightarrow> string list" where
  "extra_members EHealthz = [''status'']"
| "extra_members EBroadcast = [''nonce'']"
| "extra_members EGetTx = [''nonce'']"
| "extra_members EEstimateFee = [''strategy'']"
| "extra_members _ = []"

fun omitted_members :: "endpoint \<Rightarrow> string list" where
  "omitted_members EGetTx = [''confirmations'', ''value'', ''fee'', ''raw'']"
| "omitted_members EEstimateFee = [''max_fee_per_gas'', ''max_priority_fee_per_gas'', ''gas_price'']"
| "omitted_members _ = []"

lemma schema_members:
  "set (map fst (schema e)) = set (readme_members e) \<union> set (extra_members e) - (if e = EGetTx then {''confirmations''} else {})"
  "set (map fst (filter (\<lambda>x. snd (snd x)) (schema e))) = set (readme_members e) \<union> set (extra_members e) - set (omitted_members e)"
  by (induct e; code_simp)+

lemma conforms_members:
  assumes "conforms sch b"
  shows "set (map fst b) \<subseteq> set (map fst sch)" and "set (map fst (filter (\<lambda>x. snd (snd x)) sch)) \<subseteq> set (map fst b)" and "distinct (map fst b)"
proof -
  have b: "\<exists>req. (k, goval_type v, req) \<in> set sch" if "(k, v) \<in> set b" for k v
    using assms that by (auto simp: conforms_def list_all_iff)
  show "set (map fst b) \<subseteq> set (map fst sch)"
  proof
    fix k assume "k \<in> set (map fst b)"
    then obtain v where "(k, v) \<in> set b" by auto
    from b [OF this] show "k \<in> set (map fst sch)" by force
  qed
  show "set (map fst (filter (\<lambda>x. snd (snd x)) sch)) \<subseteq> set (map fst b)"
    using assms by (auto simp: conforms_def list_all_iff)
  show "distinct (map fst b)" using assms by (simp add: conforms_def)
qed

lemma status_not_in_readme: "status_string st \<notin> set readme_statuses"
  by (cases st) (simp_all add: readme_statuses_def)

lemma serve_status:
  assumes "fst (serve d e inp r st) = Reply 200 b" and "(''status'', v) \<in> set b" and "e \<noteq> EHealthz"
  shows "\<exists>st. v = GStr (status_string st)"
proof (cases e)
  case EGetTx
  then show ?thesis
    using assms(1,2) by (auto simp: serve_def handleGetTx_def writeError_def writeJSON_def txToJSON_def opt_big_def Let_def
        split: sum.splits option.splits if_splits)
next
  case EGetTxStatus
  then show ?thesis
    using assms(1,2) by (auto simp: serve_def handleGetTxStatus_def writeError_def writeJSON_def Let_def
        split: sum.splits option.splits)
qed (use assms serve_ok [of e d inp r st] in \<open>force simp: reply_ok_def conforms_def list_all_iff\<close>)+

text \<open>
  C6. The replies against the README's table of endpoints. Every reply of every endpoint, whatever the request, the stores and the nodes
  answer, has one of the endpoint's codes and no member twice; a code other than 200 comes with the single member
  \<open>error\<close>. A 200 has every documented member but for those the handler leaves out: \<open>confirmations\<close>, always, and \<open>value\<close>, \<open>fee\<close> and
  \<open>raw\<close> of a transaction, and the parts of a fee that the chain does not have; beyond the table it has \<open>nonce\<close> and
  \<open>strategy\<close>. A status is never one of the documented spellings, which are in lower case, and \<open>finalized_at\<close> is never null. Only a broadcast
  changes the state.
\<close>

theorem rest_replies_documented:
  assumes "serve d e inp r st = (Reply c b, st')"
  shows "c \<in> set (codes e) \<and> distinct (map fst b) \<and> (e \<noteq> EBroadcast \<longrightarrow> st' = st) \<and>
    (if c \<noteq> 200 then map fst b = [''error'']
     else set (map fst b) \<subseteq> set (readme_members e) \<union> set (extra_members e) \<and>
       set (readme_members e) \<union> set (extra_members e) \<subseteq> set (map fst b) \<union> set (omitted_members e) \<and>
       (e = EGetTx \<longrightarrow> ''confirmations'' \<notin> set (map fst b)) \<and>
       (\<forall>s. e \<noteq> EHealthz \<and> (''status'', GStr s) \<in> set b \<longrightarrow> s \<notin> set readme_statuses) \<and>
       (\<forall>v. (''finalized_at'', v) \<in> set b \<longrightarrow> (\<exists>t. v = GTime t)))"
proof -
  have ok: "c \<in> set (codes e)" "conforms (if c = 200 then schema e else [(''error'', TStr, True)]) b"
    using serve_ok [of e d inp r st] assms by (simp_all add: reply_ok_def)
  have state: "e \<noteq> EBroadcast \<longrightarrow> st' = st" using assms by (cases e) (simp_all add: serve_def)
  note members = conforms_members [OF ok(2)]
  show ?thesis
  proof (cases "c = 200")
    case False
    then have "set (map fst b) = {''error''}" using members(1,2) by auto
    then have "map fst b = [''error'']"
      using members(3) by (cases b) (auto simp: subset_singleton_iff)
    with False ok(1) state show ?thesis by simp
  next
    case True
    have "\<exists>t. v = GTime t" if "(''finalized_at'', v) \<in> set b" for v
    proof -
      have "goval_type v = TTime"
        using True ok(2) that by (cases e) (auto simp: conforms_def list_all_iff dest!: bspec [of _ _ "(''finalized_at'', v)"])
      then show ?thesis by (cases v) simp_all
    qed
    moreover have "s \<notin> set readme_statuses" if "e \<noteq> EHealthz" and "(''status'', GStr s) \<in> set b" for s
      using serve_status [of d e inp r st b "GStr s"] assms True that status_not_in_readme by auto
    ultimately show ?thesis
      using True ok(1) state members schema_members [of e] by auto
  qed
qed

section \<open>Broadcasting over HTTP\<close>

text \<open>The request a body stands for, when the handler gets as far as the service.\<close>

definition parsed :: "http_request \<Rightarrow> request option" where
  "parsed r =
     (let (req, ok) = decode_body broadcast_req_fields (hr_body r) broadcast_req_zero in
      if \<not> ok \<or> bq_SignedTx req = [] then None
      else map_option (\<lambda>raw. \<lparr>rq_ChainID = hr_param r ''chain'', rq_SignedTx = raw, rq_From = bq_From req,
             rq_WalletID = bq_WalletID req, rq_To = bq_To req, rq_Value = bq_Value req,
             rq_Nonce = bq_Nonce req, rq_SubmittedBy = bq_SubmittedBy req\<rparr>) (decodePayload (bq_SignedTx req)))"

lemma parsed_chain: "parsed r = Some req \<Longrightarrow> rq_ChainID req = hr_param r ''chain''"
  by (auto simp: parsed_def split: prod.splits if_splits)

lemma handleBroadcast_unparsed:
  "parsed r = None \<Longrightarrow> \<exists>msg. handleBroadcast d inp r st = (Reply 400 [(''error'', GStr msg)], st)"
  by (auto simp: parsed_def handleBroadcast_def writeError_def writeJSON_def Let_def split: prod.splits if_splits)

lemma handleBroadcast_parsed:
  assumes "parsed r = Some req"
  shows "handleBroadcast d inp r st =
    (case Broadcast (dp_Broadcast d) inp (Some req) (rs_service st) of
       (res, svc) \<Rightarrow>
         ((case res of
             None \<Rightarrow> NoReply
           | Some (Inl err) \<Rightarrow> writeBroadcastError err
           | Some (Inr resp) \<Rightarrow> Reply 200 [(''tx_hash'', GStr (rp_TxHash resp)), (''nonce'', GUint (rp_Nonce resp))]),
          st\<lparr>rs_service := svc\<rparr>))"
  using assms
  by (auto simp: parsed_def handleBroadcast_def writeJSON_def Let_def split: prod.splits if_splits option.splits sum.splits)

text \<open>A reply with code 200 comes from an accepted request and carries its answer.\<close>

lemma handleBroadcast_ok:
  assumes "handleBroadcast d inp r st = (Reply 200 b, st')"
  obtains req resp svc where "parsed r = Some req"
    and "Broadcast (dp_Broadcast d) inp (Some req) (rs_service st) = (Some (Inr resp), svc)"
    and "b = [(''tx_hash'', GStr (rp_TxHash resp)), (''nonce'', GUint (rp_Nonce resp))]"
    and "st' = st\<lparr>rs_service := svc\<rparr>"
proof (cases "parsed r")
  case None
  then show ?thesis using handleBroadcast_unparsed [OF None, of d inp st] assms by auto
next
  case (Some req)
  show ?thesis
    using assms that [OF Some]
    by (auto simp: handleBroadcast_parsed [OF Some] writeBroadcastError_def writeError_def writeJSON_def
        split: prod.splits option.splits sum.splits if_splits)
qed

definition chain_known :: "('b, 'c, 'w, 'r, 'l, 'o, 'p, 't) deps \<Rightarrow> string \<Rightarrow> bool" where
  "chain_known d c \<longleftrightarrow> map_of (sc_registry (dp_Broadcast d)) c \<noteq> None"

text \<open>
  C7. How a broadcast request is answered over any stores, on every branch: a body that is no JSON, has no transaction or
  one that cannot be decoded gets 400; so does an empty chain or an empty transaction; an unknown
  chain gets 404; nothing of this changes the state. Everything else gets 200 with a hash and a nonce,
  500 with a failed prepayment or an adapter's error, the reply the router has for the error of a store that could not insert the
  row of the submitted transaction (500, unless that error is one of the router's own), or does not return. The code 402
  that the router has for a failed prepayment is never sent for one.
\<close>

theorem rest_broadcast_codes:
  "case parsed r of
      None \<Rightarrow> \<exists>msg. handleBroadcast d inp r st = (Reply 400 [(''error'', GStr msg)], st)
    | Some req \<Rightarrow>
        if rq_ChainID req = [] \<or> rq_SignedTx req = [] then
          \<exists>e. handleBroadcast d inp r st = (Reply 400 [(''error'', GErr (ErrBadRequest e))], st)
        else if \<not> chain_known d (rq_ChainID req) then
          handleBroadcast d inp r st = (Reply 404 [(''error'', GErr (ErrUnknownChain (rq_ChainID req)))], st)
        else fst (handleBroadcast d inp r st) \<in>
          {NoReply} \<union> {Reply 200 [(''tx_hash'', GStr h), (''nonce'', GUint n)] | h n. True} \<union>
          {Reply 500 [(''error'', GErr (ErrPrepaymentFailed e))] | e. True} \<union>
          {Reply 500 [(''error'', GErr (ErrAdapter e))] | e. True} \<union>
          {writeBroadcastError e | e. insert_failed (dp_Broadcast d) inp req (rs_service st) e (rs_service (snd (handleBroadcast d inp r st)))}"
proof (cases "parsed r")
  case None
  then show ?thesis using handleBroadcast_unparsed by simp
next
  case (Some req)
  note H = handleBroadcast_parsed [OF Some]
  note W = writeBroadcastError_def writeError_def writeJSON_def is_ErrUnknownChain_def is_ErrBadRequest_def
    prepaymentErrSentinel_def
  obtain res svc where call: "Broadcast (dp_Broadcast d) inp (Some req) (rs_service st) = (res, svc)"
    by (cases "Broadcast (dp_Broadcast d) inp (Some req) (rs_service st)")
  consider (bad) "rq_ChainID req = [] \<or> rq_SignedTx req = []"
    | (unknown) "rq_ChainID req \<noteq> []" "rq_SignedTx req \<noteq> []" "\<not> chain_known d (rq_ChainID req)"
    | (fine) "rq_ChainID req \<noteq> []" "rq_SignedTx req \<noteq> []" "chain_known d (rq_ChainID req)" by blast
  then show ?thesis
  proof cases
    case bad
    then show ?thesis by (auto simp: Some H Broadcast_def W)
  next
    case unknown
    then show ?thesis by (auto simp: Some H Broadcast_def chain_known_def registry_Get_def W)
  next
    case fine
    from call have "fst (handleBroadcast d inp r st) \<in>
          {NoReply} \<union> {Reply 200 [(''tx_hash'', GStr h), (''nonce'', GUint n)] | h n. True} \<union>
          {Reply 500 [(''error'', GErr (ErrPrepaymentFailed e))] | e. True} \<union>
          {Reply 500 [(''error'', GErr (ErrAdapter e))] | e. True} \<union>
          {writeBroadcastError e | e. insert_failed (dp_Broadcast d) inp req (rs_service st) e (rs_service (snd (handleBroadcast d inp r st)))}"
    proof (cases rule: Broadcast_cases)
      case (refused err)
      then show ?thesis using fine by (auto simp: chain_known_def)
    next
      case (unfunded a err)
      then obtain e where "err = ErrPrepaymentFailed e" using prepay_step_error by blast
      then have "fst (handleBroadcast d inp r st) = Reply 500 [(''error'', GErr (ErrPrepaymentFailed e))]"
        using call unfunded(1) by (simp add: H W)
      then show ?thesis by blast
    next
      case (rejected a n st1 err w)
      then have "fst (handleBroadcast d inp r st) = Reply 500 [(''error'', GErr (ErrAdapter err))]"
        using call by (simp add: H W)
      then show ?thesis by blast
    next
      case (unsaved a n h st1 w err bs)
      have "sv_broadcasts st1 = sv_broadcasts (rs_service st)"
        using prepay_step_frame [of "dp_Broadcast d" a "bi_env inp" req "rs_service st"] unsaved(3) by simp
      then have "insert_failed (dp_Broadcast d) inp req (rs_service st) err svc"
        using unsaved by (auto simp: insert_failed_def)
      then show ?thesis using call unsaved(1) by (auto simp: H)
    qed (use call in \<open>simp_all add: H\<close>)
    with fine show ?thesis by (simp add: Some)
  qed
qed

section \<open>Retries over HTTP\<close>

type_synonym http_call = "endpoint \<times> bcast_input \<times> http_request"

fun rest_step ::
  "('b, 'c, 'w, 'r, 'l, 'o, 'p, 't) deps \<Rightarrow> ('b, 'c, 'w, 'r, 'l, 'o, 'p, 't) rest_state \<Rightarrow> http_call \<Rightarrow>
    ('b, 'c, 'w, 'r, 'l, 'o, 'p, 't) rest_state" where
  "rest_step d st (e, inp, r) = snd (serve d e inp r st)"

definition http_ok :: "http_call \<Rightarrow> bool" where
  "http_ok x \<longleftrightarrow> sep_free (hr_param (snd (snd x)) ''chain'')"

text \<open>A call leaves the service alone or is one call of \<open>Broadcast\<close>.\<close>

lemma rest_step_service:
  "rs_service (rest_step d st (e, inp, r)) =
    (case (if e = EBroadcast then parsed r else None) of
       None \<Rightarrow> rs_service st
     | Some req \<Rightarrow> snd (Broadcast (dp_Broadcast d) inp (Some req) (rs_service st)))"
proof (cases "e = EBroadcast \<and> parsed r \<noteq> None")
  case True
  then obtain req where "e = EBroadcast" "parsed r = Some req" by blast
  then show ?thesis by (simp add: serve_def handleBroadcast_parsed split: prod.split)
next
  case False
  then show ?thesis
    using handleBroadcast_unparsed [of r d inp st] by (cases e) (auto simp: serve_def)
qed

lemma rest_run_keeps:
  assumes "sc_broadcasts (dp_Broadcast d) = mem_broadcast_store" and "list_all http_ok xs" and "sep_free c"
    and "map_of (sv_broadcasts (rs_service st)) (key c h) = Some b"
  shows "map_of (sv_broadcasts (rs_service (run (rest_step d) st xs))) (key c h) = Some b"
  using assms(2,4)
proof (induction xs arbitrary: st)
  case (Cons x xs)
  obtain e inp r where x: "x = (e, inp, r)" by (cases x)
  have "map_of (sv_broadcasts (rs_service (rest_step d st x))) (key c h) = Some b"
  proof (cases "if e = EBroadcast then parsed r else None")
    case None
    then show ?thesis using Cons.prems(2) by (simp add: x rest_step_service del: rest_step.simps)
  next
    case (Some req)
    then have "parsed r = Some req" by (simp split: if_splits)
    then have "call_ok (inp, Some req)" using Cons.prems(1) by (simp add: x http_ok_def parsed_chain)
    from mem_broadcast.Broadcast_keeps(2) [OF assms(1) _ this assms(3) Cons.prems(2)] Some show ?thesis
      by (simp add: x rest_step_service del: rest_step.simps)
  qed
  then show ?case using Cons.IH [of "rest_step d st x"] Cons.prems(1) by simp
qed simp

text \<open>
  C4. On the in-memory store, and on a chain whose adapter returns the predicted hash (as the stub adapter does; the real
  adapters return the node's hash, and there a repeated request is submitted again), a client that does not
  know whether its request arrived may repeat it: after a reply with code 200, and after any other requests to any endpoint, a
  request for the same chain with the same transaction (in hexadecimal or in base64, whatever its other
  members say) gets the same reply and changes nothing.
\<close>

theorem rest_retry_same_reply:
  assumes "sc_broadcasts (dp_Broadcast d) = mem_broadcast_store" and "0 \<le> sc_retryMax (dp_Broadcast d)"
    and "registry_Get (hr_param r ''chain'') (sc_registry (dp_Broadcast d)) = Inr a"
    and "adapter_contract a hash_of winv" and "winv (sv_world (rs_service st))"
    and "handleBroadcast d inp r st = (Reply 200 b, st1)" and "list_all http_ok ((EBroadcast, inp, r) # xs)"
    and "hr_param r' ''chain'' = hr_param r ''chain''" and "hr_param r ''chain'' \<noteq> []"
    and "parsed r' = Some req'" and "map_option rq_SignedTx (parsed r) = Some (rq_SignedTx req')"
    and "hash_of (rq_SignedTx req') = predictHash (rq_SignedTx req')"
  shows "handleBroadcast d inp' r' (run (rest_step d) st1 xs) = (Reply 200 b, run (rest_step d) st1 xs)"
proof -
  obtain req resp svc where req: "parsed r = Some req"
    and call: "Broadcast (dp_Broadcast d) inp (Some req) (rs_service st) = (Some (Inr resp), svc)"
    and b: "b = [(''tx_hash'', GStr (rp_TxHash resp)), (''nonce'', GUint (rp_Nonce resp))]"
    and st1: "st1 = st\<lparr>rs_service := svc\<rparr>"
    using assms(6) by (rule handleBroadcast_ok)
  note c = parsed_chain [OF req] parsed_chain [OF assms(10)]
  have free: "sep_free (rq_ChainID req)" using assms(7) by (simp add: http_ok_def c)
  have reg: "registry_Get (rq_ChainID req) (sc_registry (dp_Broadcast d)) = Inr a" using assms(3) by (simp add: c)
  have same: "rq_SignedTx req = rq_SignedTx req'" using assms(11) req by simp
  obtain row where row: "map_of (sv_broadcasts svc) (key (rq_ChainID req) (predictHash (rq_SignedTx req))) = Some row"
    "resp = \<lparr>rp_TxHash = br_TxHash row, rp_Nonce = br_Nonce row\<rparr>" "rq_SignedTx req \<noteq> []"
    using mem_broadcast.Broadcast_answered [OF assms(1) _ free assms(2) reg assms(4,5) _ call] assms(12) same by auto
  let ?st = "run (rest_step d) st1 xs"
  have "map_of (sv_broadcasts (rs_service ?st)) (key (rq_ChainID req) (predictHash (rq_SignedTx req))) = Some row"
    using rest_run_keeps [OF assms(1) _ free, of xs st1 _ row] assms(7) row(1) by (simp add: st1)
  then have "Broadcast (dp_Broadcast d) inp' (Some req') (rs_service ?st) = (Some (Inr resp), rs_service ?st)"
    using mem_broadcast.Broadcast_known [OF assms(1), of req' a] assms(3,8,9) same row(2,3) by (simp add: c)
  then show ?thesis by (simp add: handleBroadcast_parsed [OF assms(10)] b)
qed

section \<open>Witnesses\<close>

definition sample_deps ::
  "(mem_broadcasts, mem_confirmations, stub_adapter, mem_redis, wallet_mock, mem_outbox, bus_event list, mem_tips) deps" where
  "sample_deps = \<lparr>dp_Registry = sc_registry sample_service, dp_Broadcast = sample_service, dp_Estimators = [],
     dp_Confirms = mem_confirmation_store, dp_Tips = mem_tip_store, dp_WSHandler = True\<rparr>"

definition sample_rest :: "(mem_broadcasts, mem_confirmations, stub_adapter, mem_redis, wallet_mock, mem_outbox, bus_event list, mem_tips) rest_state" where
  "sample_rest = \<lparr>rs_service = sample_start sample_stub NewConfirmationStore, rs_tips = NewTipStore\<rparr>"

definition sample_url :: "string \<Rightarrow> string" where
  "sample_url k = (if k = ''chain'' then ''ethereum'' else [])"

text \<open>The transaction of bytes 1 and 2, once in hexadecimal and once in base64.\<close>

definition sample_post :: http_request where
  "sample_post = \<lparr>hr_param = sample_url,
     hr_body = Some (JObj [(''signed_tx'', JStr ''0x0102''), (''to'', JStr ''0x2''), (''value'', JStr ''5''), (''nonce'', JNum ''3'')])\<rparr>"

definition sample_post64 :: http_request where
  "sample_post64 = \<lparr>hr_param = sample_url, hr_body = Some (JObj [(''signed_tx'', JStr ''AQI='')])\<rparr>"

lemma sample_payload: "decodePayload ''0x0102'' = Some [1, 2]" "decodePayload ''AQI='' = Some [1, 2]"
  by code_simp+

lemma sample_parsed:
  "parsed sample_post = Some sample_request"
  "parsed sample_post64 = Some \<lparr>rq_ChainID = ''ethereum'', rq_SignedTx = [1, 2], rq_From = [], rq_WalletID = [], rq_To = [],
     rq_Value = [], rq_Nonce = 0, rq_SubmittedBy = []\<rparr>"
  by (simp_all add: parsed_def sample_post_def sample_post64_def decode_body_def unmarshal_struct_def broadcast_req_fields_def
      field_for_def set_u64_def parse_uint_def digits_value_def is_digit_def digit_val_def broadcast_req_zero_def
      sample_payload sample_url_def sample_request_def)

lemma sample_reply:
  "\<exists>st. handleBroadcast sample_deps sample_input sample_post sample_rest =
    (Reply 200 [(''tx_hash'', GStr (predictHash [1, 2])), (''nonce'', GUint 3)], st)"
proof -
  obtain st where "Broadcast sample_service sample_input (Some sample_request) (sample_start sample_stub NewConfirmationStore) =
      (Some (Inr \<lparr>rp_TxHash = predictHash [1, 2], rp_Nonce = 3\<rparr>), st)"
    using sample_accepts [OF sample_stub_hash] by blast
  then show ?thesis by (simp add: handleBroadcast_parsed [OF sample_parsed(1)] sample_deps_def sample_rest_def)
qed

lemma sample_deps_simps [simp]:
  "dp_Broadcast sample_deps = sample_service" "dp_Confirms sample_deps = mem_confirmation_store"
  "rs_service sample_rest = sample_start sample_stub NewConfirmationStore"
  "hr_param sample_post = sample_url" "hr_param sample_post64 = sample_url" "sample_url ''chain'' = ''ethereum''"
  by (simp_all add: sample_deps_def sample_rest_def sample_post_def sample_post64_def sample_url_def)

theorem rest_broadcast_codes_witness:
  "\<nexists>b. fst (handleBroadcast sample_deps sample_input sample_post sample_rest) = Reply 402 b"
  using rest_broadcast_codes [of sample_deps sample_input sample_post sample_rest]
  by (auto simp: sample_parsed sample_request_def chain_known_def sample_service_def NewService_def Register_def NewRegistry_def
      stub_ops_def sample_stub_def NewStubAdapter_def)

theorem rest_replies_documented_witness:
  "\<exists>b st'. serve sample_deps EBroadcast sample_input sample_post sample_rest = (Reply 200 b, st') \<and> set (map fst b) = {''tx_hash'', ''nonce''}"
proof -
  obtain st' where st': "serve sample_deps EBroadcast sample_input sample_post sample_rest =
      (Reply 200 [(''tx_hash'', GStr (predictHash [1, 2])), (''nonce'', GUint 3)], st')"
    using sample_reply by (auto simp: serve_def)
  from rest_replies_documented [OF this] st' show ?thesis by auto
qed

theorem rest_retry_same_reply_witness:
  "\<exists>b st1. handleBroadcast sample_deps sample_input sample_post sample_rest = (Reply 200 b, st1) \<and>
    handleBroadcast sample_deps sample_input sample_post64 (run (rest_step sample_deps) st1 [(EHealthz, sample_input, sample_post)]) =
      (Reply 200 b, run (rest_step sample_deps) st1 [(EHealthz, sample_input, sample_post)])"
proof -
  obtain st1 where st1: "handleBroadcast sample_deps sample_input sample_post sample_rest =
      (Reply 200 [(''tx_hash'', GStr (predictHash [1, 2])), (''nonce'', GUint 3)], st1)"
    using sample_reply by blast
  have "stub_plain (sv_world (rs_service sample_rest))" by (simp add: sample_start_def)
  from rest_retry_same_reply [OF _ _ _ stub.adapter_contract_axioms this st1 _ _ _ sample_parsed(2),
      of sample_stub "[(EHealthz, sample_input, sample_post)]" sample_input] st1
  show ?thesis
    by (auto simp: sample_parsed sample_request_def http_ok_def sep_free_def predictHash_def bcast_stubHash_eq simp del: rest_step.simps)
qed

end
