(* ===== verification/Reorg_Detector.thy ===== *)
theory Reorg_Detector
  imports Mem_Store
begin

text \<open>
  The reorg detector of \<open>internal/reorg/detector.go\<close>: a head whose parent is not the stored tip
  marks the confirmed rows above a conservative common ancestor as reorged out, records the event
  and schedules a re-broadcast pass for the detector's next call on that chain. The detector is
  parametric in its three stores and in the re-broadcaster.
\<close>

section \<open>State\<close>

record reorg_emission =
  rm_Type :: string
  rm_ChainID :: string
  rm_TxHash :: string
  rm_Affected :: "string list"
  rm_CommonAncestor :: u64

text \<open>
  What the detector is wired to: the stores, whether an emitter is set, and the re-broadcaster if
  one is set, over a state \<open>'w\<close> of its own.
\<close>

record ('t, 'r, 'c, 'w) detector =
  dt_tips :: "'t tip_store"
  dt_reorgs :: "'r reorg_store"
  dt_confirms :: "'c confirmation_store"
  dt_emitter :: bool
  dt_reb :: "(string \<Rightarrow> string \<Rightarrow> 'w \<Rightarrow> unit result \<times> 'w) option"

text \<open>The states of the three stores and the re-broadcaster, the pending chains, the events emitted.\<close>

record ('t, 'r, 'c, 'w) detector_state =
  ds_tips :: 't
  ds_reorgs :: 'r
  ds_confirms :: 'c
  ds_world :: 'w
  ds_next :: "(string, bool) gomap"
  ds_emitted :: "reorg_emission list"

record reorg_result =
  rr_Reorged :: bool
  rr_CommonAncestor :: u64
  rr_AffectedTxHashes :: "string list"

definition no_reorg :: reorg_result where
  "no_reorg = \<lparr>rr_Reorged = False, rr_CommonAncestor = 0, rr_AffectedTxHashes = []\<rparr>"

section \<open>Operations\<close>

definition NewDetector ::
  "'t tip_store \<Rightarrow> 'r reorg_store \<Rightarrow> 'c confirmation_store \<Rightarrow> bool \<Rightarrow> ('t, 'r, 'c, 'w) detector" where
  "NewDetector tips reorgs confirms emitter =
     \<lparr>dt_tips = tips, dt_reorgs = reorgs, dt_confirms = confirms, dt_emitter = emitter, dt_reb = None\<rparr>"

definition SetRebroadcaster ::
  "(string \<Rightarrow> string \<Rightarrow> 'w \<Rightarrow> unit result \<times> 'w) \<Rightarrow> ('t, 'r, 'c, 'w) detector \<Rightarrow> ('t, 'r, 'c, 'w) detector" where
  "SetRebroadcaster reb d = d\<lparr>dt_reb := Some reb\<rparr>"

text \<open>One iteration of the re-broadcast loop.\<close>

definition rebroadcast_one ::
  "'c confirmation_store \<Rightarrow> (string \<Rightarrow> string \<Rightarrow> 'w \<Rightarrow> unit result \<times> 'w) \<Rightarrow> string \<Rightarrow> 'c \<times> 'w \<Rightarrow> confirmation \<Rightarrow> 'c \<times> 'w" where
  "rebroadcast_one ops reb chainID sw c =
     (let (s, w) = sw in
      case cs_Get ops chainID (cf_TxHash c) s of
        Inl _ \<Rightarrow> (s, w)
      | Inr cur \<Rightarrow>
          if cf_Status cur \<noteq> StatusReorgedOut then (s, w)
          else (case reb chainID (cf_TxHash c) w of
                  (Inl _, w') \<Rightarrow> (s, w')
                | (Inr _, w') \<Rightarrow>
                    (snd (cs_Transition ops chainID (cf_TxHash c) StatusReorgedOut StatusMempool id s), w')))"

definition rebroadcastReorgedOut ::
  "('t, 'r, 'c, 'w) detector \<Rightarrow> string \<Rightarrow> 'c \<times> 'w \<Rightarrow> 'c \<times> 'w" where
  "rebroadcastReorgedOut d chainID sw =
     (case dt_reb d of
        None \<Rightarrow> sw
      | Some reb \<Rightarrow>
          (case cs_ListByStatus (dt_confirms d) chainID StatusReorgedOut (fst sw) of
             Inl _ \<Rightarrow> sw
           | Inr out \<Rightarrow> foldl (rebroadcast_one (dt_confirms d) reb chainID) sw out))"

definition common_ancestor :: "u64 \<Rightarrow> u64 \<Rightarrow> u64" where
  "common_ancestor tipHeight headHeight =
     (let common = (if headHeight - 1 < tipHeight then headHeight - 1 else tipHeight)
      in if common > 0 then common - 1 else common)"

definition mark_reorged :: "'c confirmation_store \<Rightarrow> string \<Rightarrow> 'c \<Rightarrow> confirmation \<Rightarrow> 'c" where
  "mark_reorged ops chainID s c =
     snd (cs_Transition ops chainID (cf_TxHash c) (cf_Status c) StatusReorgedOut id s)"

definition detector_OnHead ::
  "('t, 'r, 'c, 'w) detector \<Rightarrow> time \<Rightarrow> time \<Rightarrow> uuid \<Rightarrow> head \<Rightarrow> ('t, 'r, 'c, 'w) detector_state \<Rightarrow>
    reorg_result result \<times> ('t, 'r, 'c, 'w) detector_state" where
  "detector_OnHead d now now' u h st0 =
     (let st = (if map_of (ds_next st0) (hd_ChainID h) = Some True
                then (let (s, w) = rebroadcastReorgedOut d (hd_ChainID h) (ds_confirms st0, ds_world st0)
                      in st0\<lparr>ds_next := AList.delete (hd_ChainID h) (ds_next st0),
                             ds_confirms := s, ds_world := w\<rparr>)
                else st0) in
      case tps_Get (dt_tips d) (hd_ChainID h) (ds_tips st) of
        Inl (ErrNotFound _ _) \<Rightarrow> (Inr no_reorg, st)
      | Inl err \<Rightarrow> (Inl err, st)
      | Inr oldTip \<Rightarrow>
          if tp_TipHash oldTip = '''' \<or> tp_TipHash oldTip = hd_ParentHash h then (Inr no_reorg, st)
          else
            (let common = common_ancestor (tp_TipHeight oldTip) (hd_Height h) in
             case cs_ListAboveHeight (dt_confirms d) (hd_ChainID h) common (ds_confirms st) of
               Inl err \<Rightarrow> (Inl err, st)
             | Inr affected \<Rightarrow>
                 (let hashes = map cf_TxHash
                        (filter (\<lambda>c. cf_Status c = StatusConfirmed \<or> cf_Status c = StatusMempool) affected);
                      st = st\<lparr>ds_confirms := foldl (mark_reorged (dt_confirms d) (hd_ChainID h)) (ds_confirms st) affected\<rparr>;
                      ev = \<lparr>re_ID = zero_uuid, re_ChainID = hd_ChainID h, re_DetectedAt = now,
                            re_OldTipHash = tp_TipHash oldTip, re_NewTipHash = hd_Hash h,
                            re_CommonAncestorHeight = common, re_AffectedTxHashes = hashes\<rparr>;
                      (res, rs) = rs_Append (dt_reorgs d) now' u ev (ds_reorgs st);
                      st = st\<lparr>ds_reorgs := rs\<rparr> in
                  case res of
                    Inl err \<Rightarrow> (Inl err, st)
                  | Inr _ \<Rightarrow>
                      (Inr \<lparr>rr_Reorged = True, rr_CommonAncestor = common, rr_AffectedTxHashes = hashes\<rparr>,
                       st\<lparr>ds_emitted := (if dt_emitter d
                            then ds_emitted st @ [\<lparr>rm_Type = ''tx.reorged'', rm_ChainID = hd_ChainID h,
                                   rm_TxHash = '''', rm_Affected = hashes, rm_CommonAncestor = common\<rparr>]
                            else ds_emitted st),
                          ds_next := AList.update (hd_ChainID h) True (ds_next st)\<rparr>))))"

section \<open>The two loops, over any store that meets the contract\<close>

text \<open>What a reorg does to a row, and what a re-broadcast pass does.\<close>

definition reorged :: "u64 \<Rightarrow> confirmation \<Rightarrow> confirmation" where
  "reorged common r =
     (if cf_Status r = StatusConfirmed \<and> common < cf_BlockHeight r
      then r\<lparr>cf_Status := StatusReorgedOut\<rparr> else r)"

definition requeued :: "(string \<Rightarrow> bool) \<Rightarrow> confirmation \<Rightarrow> confirmation" where
  "requeued ok r =
     (if cf_Status r = StatusReorgedOut \<and> ok (cf_TxHash r) then r\<lparr>cf_Status := StatusMempool\<rparr> else r)"

lemma CanTransitionTo_ReorgedOut:
  "CanTransitionTo st StatusReorgedOut \<longleftrightarrow> st = StatusConfirmed \<or> st = StatusReorgedOut"
  by (cases st) (auto simp: CanTransitionTo_def)

lemma keeps_key_id [simp]: "keeps_key id"
  by (simp add: keeps_key_def)

lemma distinct_head: "distinct (map f (x # xs)) \<Longrightarrow> y \<in> set xs \<Longrightarrow> f y \<noteq> f x"
  by (metis distinct.simps(2) image_eqI list.map(2) list.set_map)

context confirmation_contract
begin

lemma mark_reorged_row:
  assumes "inv s" and "sep_free c" and "sep_free c'" and "row s c (cf_TxHash r) = Some r"
  shows "row (mark_reorged ops c s r) c' h = (if c' = c \<and> h = cf_TxHash r
      then Some (if cf_Status r = StatusConfirmed then r\<lparr>cf_Status := StatusReorgedOut\<rparr> else r) else row s c' h)"
    and "inv (mark_reorged ops c s r)"
  using assms Transition_inv [OF assms(1,2) keeps_key_id]
  by (auto simp: mark_reorged_def Transition_self Transition_other CanTransitionTo_ReorgedOut)

lemma mark_all_row:
  assumes "inv s" and "sep_free c" and "sep_free c'" and "distinct (map cf_TxHash rs)"
    and "\<forall>r \<in> set rs. row s c (cf_TxHash r) = Some r"
  shows "inv (foldl (mark_reorged ops c) s rs) \<and> row (foldl (mark_reorged ops c) s rs) c' h =
    (if c' = c \<and> h \<in> cf_TxHash ` set rs
     then map_option (\<lambda>r. if cf_Status r = StatusConfirmed then r\<lparr>cf_Status := StatusReorgedOut\<rparr> else r) (row s c h)
     else row s c' h)"
  using assms
proof (induction rs arbitrary: s)
  case (Cons r rs)
  from Cons.prems have r: "row s c (cf_TxHash r) = Some r" by simp
  note m = mark_reorged_row(1) [OF Cons.prems(1,2) _ r] and inv1 = mark_reorged_row(2) [OF Cons.prems(1,2,3) r]
  have "\<forall>q \<in> set rs. row (mark_reorged ops c s r) c (cf_TxHash q) = Some q"
  proof
    fix q assume q: "q \<in> set rs"
    have "row s c (cf_TxHash q) = Some q" using bspec [OF Cons.prems(5), of q] q by simp
    moreover have "cf_TxHash q \<noteq> cf_TxHash r" using distinct_head [OF Cons.prems(4) q] .
    ultimately show "row (mark_reorged ops c s r) c (cf_TxHash q) = Some q"
      using m [OF Cons.prems(2), of "cf_TxHash q"] by simp
  qed
  with Cons.IH [OF inv1] Cons.prems
  have IH: "inv (foldl (mark_reorged ops c) (mark_reorged ops c s r) rs) \<and>
    row (foldl (mark_reorged ops c) (mark_reorged ops c s r) rs) c' h =
    (if c' = c \<and> h \<in> cf_TxHash ` set rs
     then map_option (\<lambda>r. if cf_Status r = StatusConfirmed then r\<lparr>cf_Status := StatusReorgedOut\<rparr> else r)
       (row (mark_reorged ops c s r) c h)
     else row (mark_reorged ops c s r) c' h)" by simp
  show ?case
  proof (cases "h = cf_TxHash r")
    case True
    then have "h \<notin> cf_TxHash ` set rs" using Cons.prems(4) by simp
    with IH True m [OF Cons.prems(3), of h] r show ?thesis by simp
  next
    case False
    with IH m [OF Cons.prems(3), of h] m [OF Cons.prems(2), of h] show ?thesis by simp
  qed
qed simp

lemma rebroadcast_one_row:
  assumes "inv s" and "sep_free c" and "sep_free c'" and "row s c (cf_TxHash r) = Some r"
    and "cf_Status r = StatusReorgedOut" and "\<forall>h w. isl (fst (reb c h w)) \<longleftrightarrow> \<not> ok h"
  shows "inv (fst (rebroadcast_one ops reb c (s, w) r)) \<and>
    row (fst (rebroadcast_one ops reb c (s, w) r)) c' h =
      (if c' = c \<and> h = cf_TxHash r then Some (requeued ok r) else row s c' h)"
proof -
  have t: "CanTransitionTo StatusReorgedOut StatusMempool" by (simp add: CanTransitionTo_def)
  have o: "fst (reb c (cf_TxHash r) w) = Inl e \<Longrightarrow> \<not> ok (cf_TxHash r)"
    "fst (reb c (cf_TxHash r) w) = Inr x \<Longrightarrow> ok (cf_TxHash r)" for e x
    using spec [OF spec [OF assms(6), of "cf_TxHash r"], of w] by auto
  show ?thesis
    using assms(1-5) t o Transition_inv [OF assms(1,2) keeps_key_id]
    by (cases "reb c (cf_TxHash r) w")
      (auto simp: rebroadcast_one_def Get requeued_def Transition_self Transition_other split: sum.splits)
qed

lemma rebroadcast_all_row:
  assumes "inv s" and "sep_free c" and "sep_free c'" and "distinct (map cf_TxHash rs)"
    and "\<forall>r \<in> set rs. row s c (cf_TxHash r) = Some r \<and> cf_Status r = StatusReorgedOut"
    and "\<forall>h w. isl (fst (reb c h w)) \<longleftrightarrow> \<not> ok h"
  shows "inv (fst (foldl (rebroadcast_one ops reb c) (s, w) rs)) \<and>
    row (fst (foldl (rebroadcast_one ops reb c) (s, w) rs)) c' h =
      (if c' = c \<and> h \<in> cf_TxHash ` set rs then map_option (requeued ok) (row s c h) else row s c' h)"
  using assms(1,4,5)
proof (induction rs arbitrary: s w)
  case (Cons r rs)
  let ?sw = "rebroadcast_one ops reb c (s, w) r"
  have r: "row s c (cf_TxHash r) = Some r" "cf_Status r = StatusReorgedOut" using Cons.prems by simp_all
  note m = rebroadcast_one_row [where reb = reb and ok = ok, OF Cons.prems(1) assms(2) _ r assms(6), of _ w]
  have "\<forall>q \<in> set rs. row (fst ?sw) c (cf_TxHash q) = Some q \<and> cf_Status q = StatusReorgedOut"
  proof
    fix q assume q: "q \<in> set rs"
    have "row s c (cf_TxHash q) = Some q \<and> cf_Status q = StatusReorgedOut"
      using bspec [OF Cons.prems(3), of q] q by simp
    moreover have "cf_TxHash q \<noteq> cf_TxHash r" using distinct_head [OF Cons.prems(2) q] .
    ultimately show "row (fst ?sw) c (cf_TxHash q) = Some q \<and> cf_Status q = StatusReorgedOut"
      using m [OF assms(2), of "cf_TxHash q"] by simp
  qed
  with Cons.IH [of "fst ?sw" "snd ?sw"] Cons.prems m [OF assms(2)]
  have IH: "inv (fst (foldl (rebroadcast_one ops reb c) ?sw rs)) \<and>
    row (fst (foldl (rebroadcast_one ops reb c) ?sw rs)) c' h =
      (if c' = c \<and> h \<in> cf_TxHash ` set rs then map_option (requeued ok) (row (fst ?sw) c h)
       else row (fst ?sw) c' h)" by simp
  show ?case
  proof (cases "h = cf_TxHash r")
    case True
    then have "h \<notin> cf_TxHash ` set rs" using Cons.prems(2) by simp
    with IH True m [OF assms(3), of h] r show ?thesis by simp
  next
    case False
    with IH m [OF assms(3), of h] m [OF assms(2), of h] show ?thesis by simp
  qed
qed simp

text \<open>Both loops run over the listing of the store itself.\<close>

lemma listed:
  assumes "inv s" and "sep_free c" and "set rs = {r. \<exists>h. row s c h = Some r \<and> P r}"
  shows "\<forall>r \<in> set rs. row s c (cf_TxHash r) = Some r \<and> P r"
    and "h \<in> cf_TxHash ` set rs \<longleftrightarrow> (\<exists>r. row s c h = Some r \<and> P r)"
  using assms row_key [OF assms(1,2)] by (auto simp: image_iff)

lemma mark_above_row:
  assumes "inv s" and "sep_free c" and "sep_free c'" and "cs_ListAboveHeight ops c n s = Inr rs"
  shows "inv (foldl (mark_reorged ops c) s rs) \<and>
    row (foldl (mark_reorged ops c) s rs) c' h =
      (if c' = c then map_option (reorged n) (row s c h) else row s c' h)"
proof -
  from ListAboveHeight [OF assms(1,2), of n] assms(4)
  have rs: "set rs = {r. \<exists>h. row s c h = Some r \<and> n < cf_BlockHeight r}" "distinct (map cf_TxHash rs)" by auto
  have "\<forall>r \<in> set rs. row s c (cf_TxHash r) = Some r" using listed(1) [OF assms(1,2) rs(1)] by blast
  from mark_all_row [OF assms(1-3) rs(2) this, of h] listed(2) [OF assms(1,2) rs(1), of h]
  show ?thesis by (cases "row s c h") (auto simp: reorged_def)
qed

lemma rebroadcast_pass_row:
  assumes "inv s" and "sep_free c" and "sep_free c'" and "cs_ListByStatus ops c StatusReorgedOut s = Inr rs"
    and "\<forall>h w. isl (fst (reb c h w)) \<longleftrightarrow> \<not> ok h"
  shows "inv (fst (foldl (rebroadcast_one ops reb c) (s, w) rs)) \<and>
    row (fst (foldl (rebroadcast_one ops reb c) (s, w) rs)) c' h =
      (if c' = c then map_option (requeued ok) (row s c h) else row s c' h)"
proof -
  from ListByStatus [OF assms(1,2), of StatusReorgedOut] assms(4)
  have rs: "set rs = {r. \<exists>h. row s c h = Some r \<and> cf_Status r = StatusReorgedOut}" "distinct (map cf_TxHash rs)"
    by auto
  from rebroadcast_all_row [where reb = reb and ok = ok, OF assms(1-3) rs(2) listed(1) [OF assms(1,2) rs(1)] assms(5), of w h]
    listed(2) [OF assms(1,2) rs(1), of h]
  show ?thesis by (cases "row s c h") (auto simp: requeued_def)
qed

end

section \<open>The detector on the in-memory stores\<close>

type_synonym 'w mem_detector_state = "(mem_tips, mem_reorgs, mem_confirmations, 'w) detector_state"

definition mem_detector ::
  "bool \<Rightarrow> (string \<Rightarrow> string \<Rightarrow> 'w \<Rightarrow> unit result \<times> 'w) option \<Rightarrow> (mem_tips, mem_reorgs, mem_confirmations, 'w) detector" where
  "mem_detector em reb =
     (let d = NewDetector mem_tip_store mem_reorg_store mem_confirmation_store em
      in case reb of None \<Rightarrow> d | Some reb \<Rightarrow> SetRebroadcaster reb d)"

lemma mem_detector_simps [simp]:
  "dt_tips (mem_detector em reb) = mem_tip_store" "dt_reorgs (mem_detector em reb) = mem_reorg_store"
  "dt_confirms (mem_detector em reb) = mem_confirmation_store" "dt_emitter (mem_detector em reb) = em"
  "dt_reb (mem_detector em reb) = reb"
  by (simp_all add: mem_detector_def NewDetector_def SetRebroadcaster_def Let_def split: option.split)

lemma mem_store_sel [simp]:
  "tps_Get mem_tip_store = tip_Get" "tps_Upsert mem_tip_store = tip_Upsert"
  "rs_Append mem_reorg_store = reorg_Append" "rs_List mem_reorg_store = reorg_List"
  "cs_Get mem_confirmation_store = conf_Get" "cs_Transition mem_confirmation_store = conf_Transition"
  "cs_ListAboveHeight mem_confirmation_store = conf_ListAboveHeight"
  "cs_ListByStatus mem_confirmation_store = conf_ListByStatus"
  "cs_Upsert mem_confirmation_store = conf_Upsert"
  by (simp_all add: mem_tip_store_def mem_reorg_store_def mem_confirmation_store_def)

text \<open>
  Whatever the detector does to the confirmations is a sequence of transitions to reorged out or to
  mempool that change nothing but the status.
\<close>

fun reorg_call :: "transition_call \<Rightarrow> bool" where
  "reorg_call (TransitionCall c h st to m) \<longleftrightarrow> (to = StatusReorgedOut \<or> to = StatusMempool) \<and> m = MutNone"

definition by_transitions :: "mem_confirmations \<Rightarrow> mem_confirmations \<Rightarrow> bool" where
  "by_transitions s s' \<longleftrightarrow> (\<exists>calls. list_all reorg_call calls \<and> s' = run transition_step s calls)"

lemma by_transitions_refl [simp]: "by_transitions s s"
  unfolding by_transitions_def by (rule exI [of _ "[]"]) simp

lemma by_transitions_trans:
  assumes "by_transitions s t" and "by_transitions t u"
  shows "by_transitions s u"
proof -
  obtain cs ds where "list_all reorg_call (cs @ ds)" "u = run transition_step s (cs @ ds)"
    using assms unfolding by_transitions_def by auto
  then show ?thesis unfolding by_transitions_def by blast
qed

lemma by_transitions_one:
  assumes "to = StatusReorgedOut \<or> to = StatusMempool"
  shows "by_transitions s (snd (conf_Transition c h st to id s))"
proof -
  have "apply_mutator MutNone = id" by (rule ext) simp
  then have "snd (conf_Transition c h st to id s) = run transition_step s [TransitionCall c h st to MutNone]"
    by simp
  moreover have "list_all reorg_call [TransitionCall c h st to MutNone]" using assms by simp
  ultimately show ?thesis unfolding by_transitions_def by blast
qed

lemma by_transitions_foldl:
  assumes "\<And>s x. by_transitions (g s) (g (f s x))"
  shows "by_transitions (g s) (g (foldl f s xs))"
  by (induction xs arbitrary: s) (auto intro: by_transitions_trans assms)

lemma rebroadcast_by_transitions:
  "by_transitions (fst sw) (fst (rebroadcastReorgedOut (mem_detector em reb) c sw))"
proof -
  have "by_transitions (fst sw) (fst (rebroadcast_one mem_confirmation_store rb c sw r))" for rb sw r
    by (auto simp: rebroadcast_one_def by_transitions_one split: prod.splits sum.splits)
  then have "by_transitions (fst sw) (fst (foldl (rebroadcast_one mem_confirmation_store rb c) sw rs))" for rb rs
    by (rule by_transitions_foldl)
  then show ?thesis by (auto simp: rebroadcastReorgedOut_def split: option.splits sum.splits)
qed

lemma mark_by_transitions: "by_transitions s (foldl (mark_reorged mem_confirmation_store c) s rs)"
  by (rule by_transitions_foldl [of "\<lambda>s. s"]) (simp add: mark_reorged_def by_transitions_one)

lemma detector_by_transitions:
  "by_transitions (ds_confirms st) (ds_confirms (snd (detector_OnHead (mem_detector em reb) now now' u h st)))"
proof -
  define s1 where "s1 = (if map_of (ds_next st) (hd_ChainID h) = Some True
    then fst (rebroadcastReorgedOut (mem_detector em reb) (hd_ChainID h) (ds_confirms st, ds_world st))
    else ds_confirms st)"
  have 1: "by_transitions (ds_confirms st) s1"
    using rebroadcast_by_transitions [of "(ds_confirms st, ds_world st)"] by (simp add: s1_def)
  have "ds_confirms (snd (detector_OnHead (mem_detector em reb) now now' u h st)) = s1 \<or>
    (\<exists>rs. ds_confirms (snd (detector_OnHead (mem_detector em reb) now now' u h st)) =
      foldl (mark_reorged mem_confirmation_store (hd_ChainID h)) s1 rs)"
    by (auto simp: detector_OnHead_def s1_def Let_def case_prod_unfold split: sum.splits error.splits)
  with 1 show ?thesis by (auto intro: by_transitions_trans [OF _ mark_by_transitions])
qed

text \<open>A run of the detector on a sequence of heads, with the clock readings and ids of each call.\<close>

definition detector_step ::
  "bool \<Rightarrow> (string \<Rightarrow> string \<Rightarrow> 'w \<Rightarrow> unit result \<times> 'w) option \<Rightarrow> 'w mem_detector_state \<Rightarrow>
    time \<times> time \<times> uuid \<times> head \<Rightarrow> 'w mem_detector_state" where
  "detector_step em reb st x =
     (case x of (now, now', u, h) \<Rightarrow> snd (detector_OnHead (mem_detector em reb) now now' u h st))"

lemma detector_run_by_transitions:
  "by_transitions (ds_confirms st) (ds_confirms (run (detector_step em reb) st xs))"
  unfolding run_def
  by (rule by_transitions_foldl) (simp add: detector_step_def detector_by_transitions case_prod_unfold)

definition sample_detector :: "status \<Rightarrow> unit mem_detector_state" where
  "sample_detector st = \<lparr>ds_tips = [(''ethereum'', \<lparr>tp_ID = 1, tp_ChainID = ''ethereum'', tp_TipHeight = 7,
     tp_TipHash = ''0xaa'', tp_FinalizedHeight = 0, tp_UpdatedAt = 1\<rparr>)], ds_reorgs = [],
     ds_confirms = sample_confs st, ds_world = (), ds_next = [], ds_emitted = []\<rparr>"

definition sample_fork :: head where
  "sample_fork = \<lparr>hd_ChainID = ''ethereum'', hd_Height = 7, hd_Hash = ''0xcc'', hd_ParentHash = ''0xdd'',
     hd_Timestamp = 2\<rparr>"

definition requeue_move ::
  "(string \<Rightarrow> string \<Rightarrow> 'w \<Rightarrow> unit result \<times> 'w) \<Rightarrow> string \<Rightarrow> string \<Rightarrow> confirmation \<Rightarrow> confirmation \<Rightarrow> bool" where
  "requeue_move reb c h r x \<longleftrightarrow>
     (x = r \<or> cf_Status r = StatusReorgedOut \<and> (\<exists>w. \<not> isl (fst (reb c h w))) \<and> x = r\<lparr>cf_Status := StatusMempool\<rparr>) \<and>
     (cf_Status r = StatusReorgedOut \<and> (\<forall>w. \<not> isl (fst (reb c h w))) \<longrightarrow> x = r\<lparr>cf_Status := StatusMempool\<rparr>)"

context confirmation_contract
begin

lemma rebroadcast_one_move:
  assumes "inv s" and "sep_free c" and "sep_free c'" and "row s c' h = Some r"
  shows "inv (fst (rebroadcast_one ops reb c (s, w) q)) \<and>
    (if c' = c \<and> h = cf_TxHash q then \<exists>x. row (fst (rebroadcast_one ops reb c (s, w) q)) c' h = Some x \<and> requeue_move reb c h r x
     else row (fst (rebroadcast_one ops reb c (s, w) q)) c' h = Some r)"
proof -
  have t: "CanTransitionTo StatusReorgedOut StatusMempool" by (simp add: CanTransitionTo_def)
  have inv': "inv (fst (rebroadcast_one ops reb c (s, w) q))"
    using assms(1) Transition_inv [OF assms(1,2) keeps_key_id]
    by (auto simp: rebroadcast_one_def split: sum.splits prod.splits)
  show ?thesis
  proof (cases "c' = c \<and> h = cf_TxHash q")
    case True
    then have r: "row s c (cf_TxHash q) = Some r" using assms(4) by simp
    have "\<exists>x. row (fst (rebroadcast_one ops reb c (s, w) q)) c (cf_TxHash q) = Some x \<and> requeue_move reb c (cf_TxHash q) r x"
    proof (cases "cf_Status r = StatusReorgedOut")
      case out: True
      obtain a w' where a: "reb c (cf_TxHash q) w = (a, w')" by fastforce
      show ?thesis
      proof (cases a)
        case (Inl e)
        then have "\<not> (\<forall>w. \<not> isl (fst (reb c (cf_TxHash q) w)))" using a by (auto intro!: exI [of _ w])
        then have "requeue_move reb c (cf_TxHash q) r r" unfolding requeue_move_def by blast
        then show ?thesis using r out a Inl by (simp add: rebroadcast_one_def Get)
      next
        case (Inr u)
        then have "\<exists>w. \<not> isl (fst (reb c (cf_TxHash q) w))" using a by (auto intro!: exI [of _ w])
        then have "requeue_move reb c (cf_TxHash q) r (r\<lparr>cf_Status := StatusMempool\<rparr>)" using out by (simp add: requeue_move_def)
        then show ?thesis
          using r out a Inr Transition_self [OF assms(1,2) r, of StatusReorgedOut StatusMempool id] t
          by (simp add: rebroadcast_one_def Get)
      qed
    next
      case False
      then show ?thesis using r by (auto simp: rebroadcast_one_def Get requeue_move_def)
    qed
    with True inv' show ?thesis by simp
  next
    case False
    have "row (fst (rebroadcast_one ops reb c (s, w) q)) c' h = row s c' h"
      using False Transition_other [OF assms(1,2,3)] by (auto simp: rebroadcast_one_def split: sum.splits prod.splits)
    with False inv' assms(4) show ?thesis by auto
  qed
qed

lemma requeue_move_trans: "requeue_move reb c h r x \<Longrightarrow> requeue_move reb c h x y \<Longrightarrow> requeue_move reb c h r y"
  by (auto simp: requeue_move_def)

lemma rebroadcast_all_move:
  assumes "inv s" and "sep_free c" and "sep_free c'" and "row s c' h = Some r"
  shows "inv (fst (foldl (rebroadcast_one ops reb c) (s, w) rs)) \<and>
    (if c' = c \<and> h \<in> cf_TxHash ` set rs
     then \<exists>x. row (fst (foldl (rebroadcast_one ops reb c) (s, w) rs)) c' h = Some x \<and> requeue_move reb c h r x
     else row (fst (foldl (rebroadcast_one ops reb c) (s, w) rs)) c' h = Some r)"
  using assms(1,4)
proof (induction rs arbitrary: s w r)
  case (Cons q rs)
  let ?sw = "rebroadcast_one ops reb c (s, w) q"
  note one = rebroadcast_one_move [OF Cons.prems(1) assms(2,3) Cons.prems(2), of reb w q]
  have IH: "inv (fst (foldl (rebroadcast_one ops reb c) ?sw rs)) \<and>
    (if c' = c \<and> h \<in> cf_TxHash ` set rs
     then \<exists>x. row (fst (foldl (rebroadcast_one ops reb c) ?sw rs)) c' h = Some x \<and> requeue_move reb c h y x
     else row (fst (foldl (rebroadcast_one ops reb c) ?sw rs)) c' h = Some y)" if "row (fst ?sw) c' h = Some y" for y
  proof -
    have "inv (fst ?sw)" using one by blast
    from Cons.IH [OF this that, of "snd ?sw"] show ?thesis unfolding prod.collapse .
  qed
  show ?case
  proof (cases "c' = c \<and> h = cf_TxHash q")
    case True
    then obtain y where y: "row (fst ?sw) c' h = Some y" "requeue_move reb c h r y" using one by auto
    then show ?thesis using IH [OF y(1)] True by (auto intro: requeue_move_trans split: if_splits)
  next
    case False
    then have "row (fst ?sw) c' h = Some r" using one by auto
    from IH [OF this] False show ?thesis by auto
  qed
qed simp

lemma rebroadcast_pass_move:
  assumes "inv s" and "sep_free c" and "sep_free c'" and "row s c' h = Some r" and "cs_ListByStatus ops c StatusReorgedOut s = Inr rs"
  shows "inv (fst (foldl (rebroadcast_one ops reb c) (s, w) rs)) \<and>
    (\<exists>x. row (fst (foldl (rebroadcast_one ops reb c) (s, w) rs)) c' h = Some x \<and>
       (if c' = c then requeue_move reb c h r x else x = r))"
proof -
  from ListByStatus [OF assms(1,2), of StatusReorgedOut] assms(5)
  have rs: "set rs = {r. \<exists>h. row s c h = Some r \<and> cf_Status r = StatusReorgedOut}" by auto
  have "requeue_move reb c h r r" if "c' = c" and "h \<notin> cf_TxHash ` set rs"
    using listed(2) [OF assms(1,2) rs, of h] that assms(4) by (auto simp: requeue_move_def)
  then show ?thesis using rebroadcast_all_move [OF assms(1-4), of reb w rs] by (auto split: if_splits)
qed

end

text \<open>
  What one head may do to a row: the re-broadcast pass first, when the chain is marked for it, then the reorg, when
  the stored tip is not the head's parent.
\<close>

definition head_move ::
  "(string \<Rightarrow> string \<Rightarrow> 'w \<Rightarrow> unit result \<times> 'w) option \<Rightarrow> 'w mem_detector_state \<Rightarrow> head \<Rightarrow> string \<Rightarrow> string \<Rightarrow> confirmation \<Rightarrow> confirmation \<Rightarrow> bool" where
  "head_move reb st hb c h r r' \<longleftrightarrow>
     (if c \<noteq> hd_ChainID hb then r' = r
      else \<exists>x. (case reb of
                  Some rb \<Rightarrow> if map_of (ds_next st) c = Some True then requeue_move rb c h r x else x = r
                | None \<Rightarrow> x = r) \<and>
               r' = (case tip_Get c (ds_tips st) of
                       Inl _ \<Rightarrow> x
                     | Inr t \<Rightarrow>
                         if tp_TipHash t = [] \<or> tp_TipHash t = hd_ParentHash hb then x
                         else reorged (common_ancestor (tp_TipHeight t) (hd_Height hb)) x))"

lemma detector_head_move:
  assumes "conf_inv (ds_confirms st)" and "sep_free (hd_ChainID hb)" and "sep_free c" and "conf_row (ds_confirms st) c h = Some r"
  shows "\<exists>r'. conf_row (ds_confirms (snd (detector_OnHead (mem_detector em reb) now now' u hb st))) c h = Some r' \<and>
    head_move reb st hb c h r r'"
proof -
  let ?c = "hd_ChainID hb" and ?st' = "snd (detector_OnHead (mem_detector em reb) now now' u hb st)"
  define s1 where "s1 = (if map_of (ds_next st) ?c = Some True
    then fst (rebroadcastReorgedOut (mem_detector em reb) ?c (ds_confirms st, ds_world st)) else ds_confirms st)"
  obtain out where out: "conf_ListByStatus ?c StatusReorgedOut (ds_confirms st) = Inr out" by (simp add: conf_ListByStatus_def)
  have "conf_inv s1 \<and> (\<exists>x. conf_row s1 c h = Some x \<and>
      (case reb of
         Some rb \<Rightarrow> if c = ?c \<and> map_of (ds_next st) c = Some True then requeue_move rb c h r x else x = r
       | None \<Rightarrow> x = r))"
  proof (cases reb)
    case None
    then show ?thesis using assms(1,4) by (simp add: s1_def rebroadcastReorgedOut_def)
  next
    case (Some rb)
    then show ?thesis
      using mem_confirmation.rebroadcast_pass_move [OF assms(1,2,3,4), of out rb "ds_world st"] out assms(1,4)
      by (auto simp: s1_def rebroadcastReorgedOut_def)
  qed
  then obtain x where s1: "conf_inv s1" and x: "conf_row s1 c h = Some x"
    "case reb of Some rb \<Rightarrow> if c = ?c \<and> map_of (ds_next st) c = Some True then requeue_move rb c h r x else x = r | None \<Rightarrow> x = r"
    by blast
  have quiet: "ds_confirms ?st' = s1"
    if "\<And>t. tip_Get ?c (ds_tips st) = Inr t \<Longrightarrow> tp_TipHash t = [] \<or> tp_TipHash t = hd_ParentHash hb"
    using that by (auto simp: detector_OnHead_def s1_def Let_def case_prod_unfold split: sum.splits error.splits)
  have marks: "conf_row (ds_confirms ?st') c h = (if c = ?c then Some (reorged (common_ancestor (tp_TipHeight t) (hd_Height hb)) x) else Some x)"
    if t: "tip_Get ?c (ds_tips st) = Inr t" "tp_TipHash t \<noteq> []" "tp_TipHash t \<noteq> hd_ParentHash hb" for t
  proof -
    let ?n = "common_ancestor (tp_TipHeight t) (hd_Height hb)"
    obtain rs where rs: "conf_ListAboveHeight ?c ?n s1 = Inr rs" using mem_confirmation.ListAboveHeight [OF s1 assms(2), of ?n] by auto
    have "ds_confirms ?st' = foldl (mark_reorged mem_confirmation_store ?c) s1 rs"
      using t rs by (auto simp: detector_OnHead_def s1_def Let_def case_prod_unfold split: sum.splits)
    then show ?thesis using mem_confirmation.mark_above_row [OF s1 assms(2,3), of ?n rs h] rs x(1) by (cases "c = ?c") auto
  qed
  show ?thesis
  proof (cases "\<exists>t. tip_Get ?c (ds_tips st) = Inr t \<and> tp_TipHash t \<noteq> [] \<and> tp_TipHash t \<noteq> hd_ParentHash hb")
    case True
    then obtain t where t: "tip_Get ?c (ds_tips st) = Inr t" "tp_TipHash t \<noteq> []" "tp_TipHash t \<noteq> hd_ParentHash hb" by blast
    show ?thesis using marks [OF t] t x(2) by (cases "c = ?c") (auto simp: head_move_def split: option.splits)
  next
    case False
    then have "ds_confirms ?st' = s1" by (intro quiet) blast
    then show ?thesis using x False by (cases "c = ?c") (auto simp: head_move_def split: option.splits sum.splits)
  qed
qed

text \<open>The moves of a run of heads, in order.\<close>

fun head_moves ::
  "bool \<Rightarrow> (string \<Rightarrow> string \<Rightarrow> 'w \<Rightarrow> unit result \<times> 'w) option \<Rightarrow> 'w mem_detector_state \<Rightarrow> (time \<times> time \<times> uuid \<times> head) list \<Rightarrow>
    string \<Rightarrow> string \<Rightarrow> confirmation \<Rightarrow> confirmation \<Rightarrow> bool" where
  "head_moves em reb st [] c h r r' \<longleftrightarrow> r' = r"
| "head_moves em reb st (x # xs) c h r r' \<longleftrightarrow>
     (\<exists>y. head_move reb st (snd (snd (snd x))) c h r y \<and> head_moves em reb (detector_step em reb st x) xs c h y r')"

lemma head_move_status:
  assumes "head_move reb st hb c h r r'"
  shows "r' = r\<lparr>cf_Status := cf_Status r'\<rparr>" and "IsTerminal (cf_Status r) \<Longrightarrow> r' = r"
  using assms by (auto simp: head_move_def requeue_move_def reorged_def split: if_splits option.splits sum.splits)

lemma head_moves_status:
  "head_moves em reb st xs c h r r' \<Longrightarrow> r' = r\<lparr>cf_Status := cf_Status r'\<rparr> \<and> (IsTerminal (cf_Status r) \<longrightarrow> r' = r)"
proof (induction em reb st xs c h r r' rule: head_moves.induct)
  case (2 em reb st x xs c h r r')
  then obtain y where y: "head_move reb st (snd (snd (snd x))) c h r y" "head_moves em reb (detector_step em reb st x) xs c h y r'" by auto
  have r': "r' = y\<lparr>cf_Status := cf_Status r'\<rparr>" "IsTerminal (cf_Status y) \<Longrightarrow> r' = y" using 2 y(2) by blast+
  have "y = r\<lparr>cf_Status := cf_Status y\<rparr>" using head_move_status(1) [OF y(1)] .
  then have "y\<lparr>cf_Status := cf_Status r'\<rparr> = r\<lparr>cf_Status := cf_Status r'\<rparr>" by (cases y; cases r) simp
  then show ?case using r' head_move_status(2) [OF y(1)] by auto
qed simp

lemma detector_run_moves:
  assumes "conf_inv (ds_confirms st)" and "sep_free c" and "conf_row (ds_confirms st) c h = Some r"
    and "\<forall>x \<in> set xs. sep_free (hd_ChainID (snd (snd (snd x))))"
  shows "\<exists>r'. conf_row (ds_confirms (run (detector_step em reb) st xs)) c h = Some r' \<and> head_moves em reb st xs c h r r'"
  using assms(1,3,4)
proof (induction xs arbitrary: st r)
  case (Cons x xs)
  obtain now now' u hb where x: "x = (now, now', u, hb)" by (cases x) auto
  have "sep_free (hd_ChainID hb)" using Cons.prems(3) x by simp
  from detector_head_move [OF Cons.prems(1) this assms(2) Cons.prems(2), of em reb now now' u]
  obtain y where y: "conf_row (ds_confirms (detector_step em reb st x)) c h = Some y" "head_move reb st hb c h r y"
    by (auto simp: detector_step_def x)
  have "conf_inv (ds_confirms (detector_step em reb st x))"
    using detector_by_transitions [of st em reb now now' u hb] transitions.run_inv [OF Cons.prems(1)]
    by (auto simp: by_transitions_def detector_step_def x)
  from Cons.IH [OF this y(1)] Cons.prems(3) y(2) show ?case by (auto simp: x)
qed simp

text \<open>
  C26. The detector never breaks the lifecycle. Over any sequence of heads, with any re-broadcaster
  and any pending passes, a row changes by the moves of the heads in order and by nothing else: a head of the row's chain
  takes it from reorged out to mempool when a re-broadcast pass is pending and the re-broadcaster accepts it, and
  from confirmed to reorged out when the head contradicts the stored tip and the row is above the
  computed ancestor. Nothing but the status changes, the statuses form a permitted history, and a finalized or otherwise
  terminal row stays as it is.
\<close>

theorem detector_follows_lifecycle:
  assumes "conf_inv (ds_confirms st)" and "sep_free c" and "conf_Get c h (ds_confirms st) = Inr r"
    and "\<forall>x \<in> set xs. sep_free (hd_ChainID (snd (snd (snd x))))"
  shows "\<exists>r' path. conf_Get c h (ds_confirms (run (detector_step em reb) st xs)) = Inr r' \<and>
    head_moves em reb st xs c h r r' \<and> r' = r\<lparr>cf_Status := cf_Status r'\<rparr> \<and>
    lifecycle (cf_Status r) path (cf_Status r') \<and> (IsTerminal (cf_Status r) \<longrightarrow> r' = r)"
proof -
  obtain calls where "ds_confirms (run (detector_step em reb) st xs) = run transition_step (ds_confirms st) calls"
    using detector_run_by_transitions [of st em reb xs] by (auto simp: by_transitions_def)
  then obtain r' path where r': "conf_Get c h (ds_confirms (run (detector_step em reb) st xs)) = Inr r'"
    "lifecycle (cf_Status r) path (cf_Status r')"
    using transition_run_lifecycle [OF assms(1,3), of calls] by auto
  have "conf_row (ds_confirms st) c h = Some r" using assms(3) by (simp add: conf_Get_def conf_row_def split: option.splits)
  from detector_run_moves [OF assms(1,2) this assms(4), of em reb] r'(1)
  have "head_moves em reb st xs c h r r'" by (auto simp: conf_Get_def conf_row_def split: option.splits)
  with r' head_moves_status [OF this] show ?thesis by blast
qed

theorem detector_follows_lifecycle_witness:
  "conf_Get ''ethereum'' ''0xab''
      (ds_confirms (run (detector_step True None) (sample_detector StatusFinalized) [(1, 1, 1, sample_fork)])) =
    Inr (sample_row StatusFinalized)"
proof -
  have "conf_inv (ds_confirms (sample_detector StatusFinalized))" by (simp add: sample_detector_def)
  moreover have "conf_Get ''ethereum'' ''0xab'' (ds_confirms (sample_detector StatusFinalized)) = Inr (sample_row StatusFinalized)"
    by (simp add: sample_detector_def conf_Get_def sample_confs_def)
  moreover have "sep_free ''ethereum''" "\<forall>x \<in> set [(1, 1, 1, sample_fork)]. sep_free (hd_ChainID (snd (snd (snd x))))"
    by (simp_all add: sep_free_def sample_fork_def)
  ultimately show ?thesis
    using detector_follows_lifecycle [of "sample_detector StatusFinalized" "''ethereum''" "''0xab''"
        "sample_row StatusFinalized" "[(1, 1, 1, sample_fork)]" True None]
    by (auto simp: sample_row_def)
qed



text \<open>
  The ancestor the detector computes, on unsigned 64-bit heights: one below the smaller of the
  stored tip's height and the head's parent height, and never below zero. A head at height zero has
  the largest parent height by wrap-around, so only the tip's height counts there.
\<close>

theorem common_ancestor_eq:
  "unat (common_ancestor t h) = (if h = 0 then unat t else min (unat t) (unat h - 1)) - 1"
proof -
  have dec: "unat (if 0 < x then x - 1 else x) = unat x - 1" for x :: u64
    by (auto simp: unat_minus_one word_gt_0)
  have "unat (if h - 1 < t then h - 1 else t) = (if h = 0 then unat t else min (unat t) (unat h - 1))"
  proof (cases "h = 0")
    case True
    have "\<not> (- 1 :: u64) < t" by (simp add: linorder_not_less)
    with True show ?thesis by simp
  next
    case False
    then have "unat (h - 1) = unat h - 1" by (rule unat_minus_one)
    with False show ?thesis by (auto simp: word_less_nat_alt)
  qed
  then show ?thesis unfolding common_ancestor_def Let_def dec by simp
qed

text \<open>
  A re-broadcast pass with a re-broadcaster that accepts exactly the hashes \<open>ok\<close>: of the rows
  of the chain that are reorged out, exactly the accepted ones go back to mempool, the others stay
  reorged out, and no other row of any chain changes.
\<close>

theorem rebroadcast_pass_requeues:
  assumes "conf_inv s" and "sep_free c" and "sep_free c'"
    and "\<forall>h w. isl (fst (reb c h w)) \<longleftrightarrow> \<not> ok h"
  shows "conf_row (fst (rebroadcastReorgedOut (mem_detector em (Some reb)) c (s, w))) c' h =
    (if c' = c then map_option (requeued ok) (conf_row s c h) else conf_row s c' h)"
proof -
  obtain rs where rs: "conf_ListByStatus c StatusReorgedOut s = Inr rs"
    by (simp add: conf_ListByStatus_def)
  then show ?thesis
    using mem_confirmation.rebroadcast_pass_row [where reb = reb and ok = ok, OF assms(1-3) _ assms(4), of rs w h]
    by (simp add: rebroadcastReorgedOut_def)
qed

theorem rebroadcast_pass_requeues_witness:
  "map_option cf_Status (conf_row (fst (rebroadcastReorgedOut
      (mem_detector True (Some (\<lambda>c h w. (Inr (), ())))) ''ethereum'' (sample_confs StatusReorgedOut, ()))) ''ethereum'' ''0xab'') =
    Some StatusMempool"
proof -
  have sf: "sep_free ''ethereum''" by (simp add: sep_free_def)
  have "\<forall>h w. isl (fst ((\<lambda>c h w. (Inr () :: unit result, ())) ''ethereum'' h w)) \<longleftrightarrow> \<not> (\<lambda>_. True) h" by simp
  from rebroadcast_pass_requeues [OF sample_confs_inv sf sf this, of True StatusReorgedOut "()" "''0xab''"]
  show ?thesis by (simp add: conf_row_def sample_confs_def sample_row_def requeued_def)
qed

end
