(* ===== verification/Tip_Follower.thy ===== *)
theory Tip_Follower
  imports Reorg_Detector Confirmation_Pool
begin

text \<open>
  The tip follower of \<open>internal/tip/follower.go\<close>: the handler that persists a head, calls the
  reorg detector on a parent mismatch and fans the head out; the hub of buffered head channels; and
  the loop that takes heads from the subscription and heights from the fallback poll.
\<close>

section \<open>The hub of head channels\<close>

record head_chan =
  ch_cap :: nat
  ch_buf :: "head list"

record subscriber =
  sb_nextID :: int
  sb_subs :: "(int, head_chan) gomap"

definition NewSubscriber :: subscriber where
  "NewSubscriber = \<lparr>sb_nextID = 0, sb_subs = []\<rparr>"

text \<open>\<open>Subscribe\<close> returns the channel's id; the cancel function it returns in Go is \<open>sub_cancel\<close> on that id.\<close>

definition Subscribe :: "int \<Rightarrow> subscriber \<Rightarrow> int \<times> subscriber" where
  "Subscribe buf s =
     (let buf = (if buf \<le> 0 then 16 else buf);
          sid = sb_nextID s + 1
      in (sid, s\<lparr>sb_nextID := sid, sb_subs := AList.update sid \<lparr>ch_cap = nat buf, ch_buf = []\<rparr> (sb_subs s)\<rparr>))"

definition sub_cancel :: "int \<Rightarrow> subscriber \<Rightarrow> subscriber" where
  "sub_cancel sid s =
     (case map_of (sb_subs s) sid of
        None \<Rightarrow> s
      | Some _ \<Rightarrow> s\<lparr>sb_subs := AList.delete sid (sb_subs s)\<rparr>)"

text \<open>A send that would block gives \<open>None\<close>; then the oldest head is taken out and the send tried again.\<close>

definition chan_send :: "head_chan \<Rightarrow> head \<Rightarrow> head_chan option" where
  "chan_send ch h = (if length (ch_buf ch) < ch_cap ch then Some (ch\<lparr>ch_buf := ch_buf ch @ [h]\<rparr>) else None)"

definition chan_push :: "head_chan \<Rightarrow> head \<Rightarrow> head_chan" where
  "chan_push ch h =
     (case chan_send ch h of
        Some ch' \<Rightarrow> ch'
      | None \<Rightarrow>
          (let ch1 = ch\<lparr>ch_buf := tl (ch_buf ch)\<rparr> in
           case chan_send ch1 h of Some ch' \<Rightarrow> ch' | None \<Rightarrow> ch1))"

definition publish_head :: "head \<Rightarrow> subscriber \<Rightarrow> subscriber" where
  "publish_head h s = s\<lparr>sb_subs := map (\<lambda>(sid, ch). (sid, chan_push ch h)) (sb_subs s)\<rparr>"

section \<open>The follower\<close>

record ('t, 'r, 'c, 'w) follower =
  fo_chainID :: string
  fo_poll :: duration
  fo_tips :: "'t tip_store"
  fo_detector :: "('t, 'r, 'c, 'w) detector option"
  fo_confirm :: bool

text \<open>
  The state the handler works on: the detector's, which holds the shared tip store, the hub and the
  confirmation pool.
\<close>

record ('t, 'r, 'c, 'w) follower_state =
  fl_det :: "('t, 'r, 'c, 'w) detector_state"
  fl_subs :: subscriber
  fl_pool :: worker_pool

definition NewFollower :: "'a chain_adapter \<Rightarrow> 't tip_store \<Rightarrow> duration \<Rightarrow> ('t, 'r, 'c, 'w) follower" where
  "NewFollower adapter tips poll =
     \<lparr>fo_chainID = ad_ChainID adapter, fo_poll = (if poll \<le> 0 then 2 * second else poll), fo_tips = tips,
      fo_detector = None, fo_confirm = False\<rparr>"

definition SetDetector :: "('t, 'r, 'c, 'w) detector \<Rightarrow> ('t, 'r, 'c, 'w) follower \<Rightarrow> ('t, 'r, 'c, 'w) follower" where
  "SetDetector d f = f\<lparr>fo_detector := Some d\<rparr>"

definition SetConfirmer :: "('t, 'r, 'c, 'w) follower \<Rightarrow> ('t, 'r, 'c, 'w) follower" where
  "SetConfirmer f = f\<lparr>fo_confirm := True\<rparr>"

text \<open>
  \<open>clk\<close> gives the clock readings (0 and 1 the detector's, 2 the tip's, 3 the store's), \<open>u\<close> and \<open>u'\<close>
  the ids the reorg store and the tip store would draw.
\<close>

definition handleHead ::
  "('t, 'r, 'c, 'w) follower \<Rightarrow> (nat \<Rightarrow> time) \<Rightarrow> uuid \<Rightarrow> uuid \<Rightarrow> head \<Rightarrow> ('t, 'r, 'c, 'w) follower_state \<Rightarrow>
    ('t, 'r, 'c, 'w) follower_state" where
  "handleHead f clk u u' h st =
     (let det = (case tps_Get (fo_tips f) (hd_ChainID h) (ds_tips (fl_det st)) of
                   Inl _ \<Rightarrow> fl_det st
                 | Inr prev \<Rightarrow>
                     if tp_TipHash prev \<noteq> [] \<and> hd_ParentHash h \<noteq> [] \<and> tp_TipHash prev \<noteq> hd_ParentHash h
                     then (case fo_detector f of
                             None \<Rightarrow> fl_det st
                           | Some d \<Rightarrow> snd (detector_OnHead d (clk 0) (clk 1) u h (fl_det st)))
                     else fl_det st);
          det = det\<lparr>ds_tips := snd (tps_Upsert (fo_tips f) (clk 3) u'
                      \<lparr>tp_ID = zero_uuid, tp_ChainID = hd_ChainID h, tp_TipHeight = hd_Height h,
                       tp_TipHash = hd_Hash h, tp_FinalizedHeight = 0, tp_UpdatedAt = clk 2\<rparr> (ds_tips det))\<rparr>
      in \<lparr>fl_det = det, fl_subs = publish_head h (fl_subs st),
          fl_pool = (if fo_confirm f then pool_OnHead (hd_ChainID h) (hd_Height h) (fl_pool st) else fl_pool st)\<rparr>)"

text \<open>
  The loop's inputs: a head on the subscription, the subscription's channel closed, a tick of the
  poll with the node's answer, the context done. The loop falls back to polling alone when there is
  no subscription or when its channel closes. The flag of the result tells that the loop returned.
\<close>

datatype follow_event =
    FHead "nat \<Rightarrow> time" uuid uuid head
  | FClosed
  | FTick "nat \<Rightarrow> time" uuid uuid "u64 result"
  | FDone

definition handleTick ::
  "('t, 'r, 'c, 'w) follower \<Rightarrow> (nat \<Rightarrow> time) \<Rightarrow> uuid \<Rightarrow> uuid \<Rightarrow> u64 result \<Rightarrow> ('t, 'r, 'c, 'w) follower_state \<Rightarrow>
    ('t, 'r, 'c, 'w) follower_state" where
  "handleTick f clk u u' ans st =
     (case ans of
        Inl _ \<Rightarrow> st
      | Inr n \<Rightarrow>
          if n = 0 then st
          else handleHead f clk u u' \<lparr>hd_ChainID = fo_chainID f, hd_Height = n, hd_Hash = [], hd_ParentHash = [],
                 hd_Timestamp = clk 4\<rparr> st)"

fun runPoll ::
  "('t, 'r, 'c, 'w) follower \<Rightarrow> follow_event list \<Rightarrow> ('t, 'r, 'c, 'w) follower_state \<Rightarrow>
    bool \<times> ('t, 'r, 'c, 'w) follower_state" where
  "runPoll f [] st = (False, st)"
| "runPoll f (FTick clk u u' ans # es) st = runPoll f es (handleTick f clk u u' ans st)"
| "runPoll f (FDone # es) st = (True, st)"
| "runPoll f (FHead clk u u' h # es) st = runPoll f es st"
| "runPoll f (FClosed # es) st = runPoll f es st"

fun follow_heads ::
  "('t, 'r, 'c, 'w) follower \<Rightarrow> follow_event list \<Rightarrow> ('t, 'r, 'c, 'w) follower_state \<Rightarrow>
    bool \<times> ('t, 'r, 'c, 'w) follower_state" where
  "follow_heads f [] st = (False, st)"
| "follow_heads f (FHead clk u u' h # es) st = follow_heads f es (handleHead f clk u u' h st)"
| "follow_heads f (FClosed # es) st = runPoll f es st"
| "follow_heads f (FTick clk u u' ans # es) st = follow_heads f es (handleTick f clk u u' ans st)"
| "follow_heads f (FDone # es) st = (True, st)"

definition follower_Run ::
  "('t, 'r, 'c, 'w) follower \<Rightarrow> bool \<Rightarrow> follow_event list \<Rightarrow> ('t, 'r, 'c, 'w) follower_state \<Rightarrow>
    bool \<times> ('t, 'r, 'c, 'w) follower_state" where
  "follower_Run f subscribed es st = (if subscribed then follow_heads f es st else runPoll f es st)"

section \<open>The hub\<close>

interpretation head_chan: bounded_log chan_push ch_buf ch_cap
proof
  fix s :: head_chan and x
  assume "length (ch_buf s) \<le> ch_cap s"
  then show "ch_buf (chan_push s x) = lastn (ch_cap s) (ch_buf s @ [x])"
    by (cases "ch_buf s") (auto simp: chan_push_def chan_send_def lastn_def Let_def)
next
  fix s :: head_chan and x
  show "ch_cap (chan_push s x) = ch_cap s"
    by (auto simp: chan_push_def chan_send_def Let_def)
qed

datatype hub_op = HubSubscribe int | HubCancel int | HubPublish head

fun hub_step :: "subscriber \<Rightarrow> hub_op \<Rightarrow> subscriber" where
  "hub_step s (HubSubscribe buf) = snd (Subscribe buf s)"
| "hub_step s (HubCancel sid) = sub_cancel sid s"
| "hub_step s (HubPublish h) = publish_head h s"

definition hub_inv :: "subscriber \<Rightarrow> bool" where
  "hub_inv s \<longleftrightarrow> (\<forall>sid ch. map_of (sb_subs s) sid = Some ch \<longrightarrow> sid \<le> sb_nextID s)"

lemma map_of_publish [simp]:
  "map_of (sb_subs (publish_head h s)) sid = map_option (\<lambda>ch. chan_push ch h) (map_of (sb_subs s) sid)"
  by (simp add: publish_head_def map_of_map)

interpretation hub: machine hub_step hub_inv
proof
  fix s e
  assume "hub_inv s"
  then show "hub_inv (hub_step s e)"
    by (cases e) (force simp: hub_inv_def Subscribe_def sub_cancel_def Let_def publish_head_def map_of_map
        split: option.splits if_splits)+
qed

fun published :: "hub_op list \<Rightarrow> head list" where
  "published [] = []"
| "published (HubPublish h # ps) = h # published ps"
| "published (_ # ps) = published ps"

lemma hub_run_chan:
  assumes "hub_inv s" and "map_of (sb_subs s) sid = Some ch" and "HubCancel sid \<notin> set ps"
  shows "map_of (sb_subs (run hub_step s ps)) sid = Some (run chan_push ch (published ps))"
  using assms
proof (induction ps arbitrary: s ch)
  case (Cons p ps)
  have inv: "hub_inv (hub_step s p)" using Cons.prems(1) by (rule hub.step_inv)
  have sid: "sid \<le> sb_nextID s" using Cons.prems(1,2) by (auto simp: hub_inv_def)
  show ?case
  proof (cases p)
    case (HubSubscribe buf)
    then have "map_of (sb_subs (hub_step s p)) sid = Some ch"
      using sid Cons.prems(2) by (auto simp: Subscribe_def Let_def)
    with Cons.IH [OF inv this] Cons.prems(3) HubSubscribe show ?thesis by simp
  next
    case (HubCancel i)
    then have "map_of (sb_subs (hub_step s p)) sid = Some ch"
      using Cons.prems(2,3) by (auto simp: sub_cancel_def split: option.split)
    with Cons.IH [OF inv this] Cons.prems(3) HubCancel show ?thesis by simp
  next
    case (HubPublish h)
    then have "map_of (sb_subs (hub_step s p)) sid = Some (chan_push ch h)" using Cons.prems(2) by simp
    with Cons.IH [OF inv this] Cons.prems(3) HubPublish show ?thesis by simp
  qed
qed simp

text \<open>
  A subscription that nobody reads: whatever subscriptions, cancellations of others and
  publications follow, its channel holds exactly the newest published heads, in order, as many as its
  buffer takes (16 when the requested size is not positive). A slow reader loses the oldest heads
  only and never blocks the follower.
\<close>

theorem subscriber_keeps_newest:
  assumes "Subscribe buf (run hub_step NewSubscriber qs) = (sid, s)" and "HubCancel sid \<notin> set ps"
  shows "map_option ch_buf (map_of (sb_subs (run hub_step s ps)) sid) =
    Some (lastn (if buf \<le> 0 then 16 else nat buf) (published ps))"
proof -
  let ?ch = "\<lparr>ch_cap = nat (if buf \<le> 0 then 16 else buf), ch_buf = []\<rparr>"
  have "hub_inv NewSubscriber" by (simp add: hub_inv_def NewSubscriber_def)
  then have "hub_inv (hub_step (run hub_step NewSubscriber qs) (HubSubscribe buf))"
    by (intro hub.step_inv hub.run_inv)
  then have "hub_inv s" and "map_of (sb_subs s) sid = Some ?ch"
    using assms(1) by (auto simp: Subscribe_def Let_def)
  from hub_run_chan [OF this assms(2)] show ?thesis
    using head_chan.items_run [of ?ch "published ps"] by simp
qed

theorem subscriber_keeps_newest_witness:
  "map_option ch_buf (map_of (sb_subs (run hub_step (snd (Subscribe 1 NewSubscriber))
      [HubPublish sample_fork, HubSubscribe 4, HubPublish (sample_fork\<lparr>hd_Height := 8\<rparr>)])) 1) =
   Some [sample_fork\<lparr>hd_Height := 8\<rparr>]"
proof -
  have "Subscribe 1 (run hub_step NewSubscriber []) = (1, snd (Subscribe 1 NewSubscriber))"
    by (simp add: Subscribe_def NewSubscriber_def)
  from subscriber_keeps_newest [OF this,
      of "[HubPublish sample_fork, HubSubscribe 4, HubPublish (sample_fork\<lparr>hd_Height := 8\<rparr>)]"]
  show ?thesis by (simp add: lastn_def)
qed

section \<open>Following heads\<close>

text \<open>A head that does not contradict the stored tip leaves everything but the tip to the fan-out.\<close>

definition contradicts :: "mem_tips \<Rightarrow> head \<Rightarrow> bool" where
  "contradicts tips h \<longleftrightarrow>
     (\<exists>t. tip_Get (hd_ChainID h) tips = Inr t \<and> tp_TipHash t \<noteq> [] \<and> hd_ParentHash h \<noteq> [] \<and>
        tp_TipHash t \<noteq> hd_ParentHash h)"

definition same_but_tips :: "('t, 'r, 'c, 'w) detector_state \<Rightarrow> ('t, 'r, 'c, 'w) detector_state \<Rightarrow> bool" where
  "same_but_tips a b \<longleftrightarrow> ds_confirms a = ds_confirms b \<and> ds_reorgs a = ds_reorgs b \<and>
     ds_world a = ds_world b \<and> ds_next a = ds_next b \<and> ds_emitted a = ds_emitted b"

lemma same_but_tips_refl [simp]: "same_but_tips a a"
  by (simp add: same_but_tips_def)

lemma same_but_tips_trans: "same_but_tips a b \<Longrightarrow> same_but_tips b c \<Longrightarrow> same_but_tips a c"
  by (simp add: same_but_tips_def)

lemma handleHead_quiet:
  assumes "fo_tips f = mem_tip_store" and "\<not> contradicts (ds_tips (fl_det st)) h"
  shows "same_but_tips (fl_det (handleHead f clk u u' h st)) (fl_det st)"
  using assms by (auto simp: handleHead_def contradicts_def same_but_tips_def Let_def split: sum.splits)

lemma detector_keeps_tips: "ds_tips (snd (detector_OnHead d now now' u h st)) = ds_tips st"
  by (auto simp: detector_OnHead_def Let_def case_prod_unfold split: sum.splits error.splits)

lemma handleHead_tip:
  assumes "fo_tips f = mem_tip_store"
  shows "map_of (ds_tips (fl_det (handleHead f clk u u' h st))) c =
    (if c = hd_ChainID h
     then Some (fill_tip (clk 3) u' \<lparr>tp_ID = zero_uuid, tp_ChainID = hd_ChainID h, tp_TipHeight = hd_Height h,
            tp_TipHash = hd_Hash h, tp_FinalizedHeight = 0, tp_UpdatedAt = clk 2\<rparr>)
     else map_of (ds_tips (fl_det st)) c)"
  using assms by (simp add: handleHead_def tip_Upsert_def detector_keeps_tips Let_def split: sum.splits option.splits)

type_synonym head_input = "(nat \<Rightarrow> time) \<times> uuid \<times> uuid \<times> head"

definition head_step ::
  "('t, 'r, 'c, 'w) follower \<Rightarrow> ('t, 'r, 'c, 'w) follower_state \<Rightarrow> head_input \<Rightarrow> ('t, 'r, 'c, 'w) follower_state" where
  "head_step f st x = (case x of (clk, u, u', h) \<Rightarrow> handleHead f clk u u' h st)"

definition in_head :: "head_input \<Rightarrow> head" where
  "in_head x = snd (snd (snd x))"

lemma head_step_eq: "head_step f st x = handleHead f (fst x) (fst (snd x)) (fst (snd (snd x))) (in_head x) st"
  by (simp add: head_step_def in_head_def case_prod_unfold)

fun linked_from :: "string \<Rightarrow> string \<Rightarrow> head list \<Rightarrow> bool" where
  "linked_from c p [] \<longleftrightarrow> True"
| "linked_from c p (h # hs) \<longleftrightarrow> hd_ChainID h = c \<and> hd_ParentHash h = p \<and> linked_from c (hd_Hash h) hs"

lemma linked_run_quiet:
  assumes "fo_tips f = mem_tip_store" and "tip_Get c (ds_tips (fl_det st)) = Inr t"
    and "linked_from c (tp_TipHash t) (map in_head xs)"
  shows "same_but_tips (fl_det (run (head_step f) st xs)) (fl_det st)"
  using assms(2,3)
proof (induction xs arbitrary: st t)
  case (Cons x xs)
  let ?st = "head_step f st x"
  have h: "hd_ChainID (in_head x) = c" "hd_ParentHash (in_head x) = tp_TipHash t" using Cons.prems(2) by simp_all
  then have q: "same_but_tips (fl_det ?st) (fl_det st)"
    using Cons.prems(1) handleHead_quiet [OF assms(1)] by (auto simp: head_step_eq contradicts_def)
  obtain t' where "tip_Get c (ds_tips (fl_det ?st)) = Inr t'" and "tp_TipHash t' = hd_Hash (in_head x)"
    using h(1) by (simp add: tip_Get_def head_step_eq handleHead_tip [OF assms(1)] fill_tip_def)
  with Cons.IH [of ?st t'] Cons.prems(2) q show ?case by (auto intro: same_but_tips_trans)
qed simp

text \<open>
  Heads that extend the stored tip, each the parent of the next, never reach the detector: the
  confirmations, the pending re-broadcast marks and the re-broadcaster are exactly as before, however
  many heads arrive. So after a reorg no transaction is re-broadcast while the new chain just grows;
  the pass runs at the next contradicting head only.
\<close>

theorem linked_heads_never_rebroadcast:
  assumes "fo_tips f = mem_tip_store" and "tip_Get c (ds_tips (fl_det st)) = Inr t"
    and "linked_from c (tp_TipHash t) (map in_head xs)"
  shows "ds_confirms (fl_det (run (head_step f) st xs)) = ds_confirms (fl_det st) \<and>
    ds_world (fl_det (run (head_step f) st xs)) = ds_world (fl_det st) \<and>
    ds_next (fl_det (run (head_step f) st xs)) = ds_next (fl_det st)"
  using linked_run_quiet [OF assms] by (simp add: same_but_tips_def)

definition sample_follower :: "(mem_tips, mem_reorgs, mem_confirmations, unit) follower" where
  "sample_follower = SetConfirmer (SetDetector (mem_detector True None)
     (NewFollower (stub_ops sample_stub) mem_tip_store 0))"

definition sample_following :: "status \<Rightarrow> (mem_tips, mem_reorgs, mem_confirmations, unit) follower_state" where
  "sample_following st = \<lparr>fl_det = sample_detector st, fl_subs = NewSubscriber,
     fl_pool = NewWorkerPool 4 (stub_ops sample_stub)\<rparr>"

lemma sample_follower_simps [simp]:
  "fo_tips sample_follower = mem_tip_store" "fo_chainID sample_follower = ''ethereum''"
  by (simp_all add: sample_follower_def SetConfirmer_def SetDetector_def NewFollower_def stub_ops_def
      sample_stub_def NewStubAdapter_def)

theorem linked_heads_never_rebroadcast_witness:
  "ds_confirms (fl_det (run (head_step sample_follower) (sample_following StatusReorgedOut)
      [(\<lambda>_. 1, 1, 1, sample_fork\<lparr>hd_ParentHash := ''0xaa''\<rparr>)])) = sample_confs StatusReorgedOut"
proof -
  let ?xs = "[(\<lambda>_. 1, 1, 1, sample_fork\<lparr>hd_ParentHash := ''0xaa''\<rparr>)] :: head_input list"
  obtain t where "tip_Get ''ethereum'' (ds_tips (fl_det (sample_following StatusReorgedOut))) = Inr t"
    and t: "tp_TipHash t = ''0xaa''"
    by (simp add: sample_following_def sample_detector_def tip_Get_def)
  moreover have "linked_from ''ethereum'' (tp_TipHash t) (map in_head ?xs)"
    by (simp add: t in_head_def sample_fork_def)
  ultimately show ?thesis
    using linked_heads_never_rebroadcast [of sample_follower "''ethereum''" "sample_following StatusReorgedOut" t ?xs]
    by (simp add: sample_following_def sample_detector_def)
qed

text \<open>
  The fallback poll blinds reorg detection: a tick of the poll with a non-zero height stores a tip
  without a hash, so the next head of the subscription, whatever its parent, is not compared with
  anything. No confirmation, reorg record or event comes from either.
\<close>

theorem poll_blinds_detector:
  assumes "fo_tips f = mem_tip_store" and "hd_ChainID h = fo_chainID f" and "n \<noteq> 0"
  shows "\<exists>st'. follower_Run f True [FTick clk u u' (Inr n), FHead clk' v v' h] st = (False, st') \<and>
    ds_confirms (fl_det st') = ds_confirms (fl_det st) \<and> ds_reorgs (fl_det st') = ds_reorgs (fl_det st) \<and>
    ds_emitted (fl_det st') = ds_emitted (fl_det st)"
proof -
  let ?p = "\<lparr>hd_ChainID = fo_chainID f, hd_Height = n, hd_Hash = [], hd_ParentHash = [], hd_Timestamp = clk 4\<rparr>"
  let ?st1 = "handleHead f clk u u' ?p st"
  have "\<not> contradicts (ds_tips (fl_det st)) ?p" by (simp add: contradicts_def)
  then have "same_but_tips (fl_det ?st1) (fl_det st)" by (rule handleHead_quiet [OF assms(1)])
  moreover have "\<not> contradicts (ds_tips (fl_det ?st1)) h"
    using assms(2) by (simp add: contradicts_def tip_Get_def handleHead_tip [OF assms(1)] fill_tip_def)
  then have "same_but_tips (fl_det (handleHead f clk' v v' h ?st1)) (fl_det ?st1)"
    by (rule handleHead_quiet [OF assms(1)])
  ultimately show ?thesis
    using assms(3) by (simp add: follower_Run_def handleTick_def same_but_tips_def)
qed

theorem poll_blinds_detector_witness:
  "\<exists>st'. follower_Run sample_follower True [FTick (\<lambda>_. 1) 1 1 (Inr 8), FHead (\<lambda>_. 1) 1 1 sample_fork]
      (sample_following StatusConfirmed) = (False, st') \<and>
    ds_confirms (fl_det st') = sample_confs StatusConfirmed"
  using poll_blinds_detector [of sample_follower sample_fork 8 "\<lambda>_. 1" 1 1 "\<lambda>_. 1" 1 1 "sample_following StatusConfirmed"]
  by (auto simp: sample_fork_def sample_following_def sample_detector_def)

end
