(* ===== verification/Heads_Stream.thy ===== *)
theory Heads_Stream
  imports Tip_Follower "HOL-Library.Sublist"
begin

text \<open>
  The WebSocket endpoint of \<open>internal/api/ws/handler.go\<close>, which streams the heads of a chain to a
  client. The handler finds the chain's follower, subscribes to its hub with a buffer of 32 and writes
  every head it reads from its channel, until a write fails. The upgrade to the protocol and the
  writes are the library's and the network's: whether they succeed is part of the input.
\<close>

section \<open>Messages\<close>

record head_message =
  hm_Height :: u64
  hm_Hash :: string
  hm_ParentHash :: string
  hm_Timestamp :: int

text \<open>\<open>Time.Unix\<close>: a time counts nanoseconds from the year 1, and the zero time is far before 1970.\<close>

definition time_Unix :: "time \<Rightarrow> int" where
  "time_Unix t = t div 1000000000 - 62135596800"

definition headToWS :: "time \<Rightarrow> head \<Rightarrow> head_message" where
  "headToWS now h =
     (let ts = time_Unix (hd_Timestamp h);
          ts = (if ts = 0 then time_Unix now else ts)
      in \<lparr>hm_Height = hd_Height h, hm_Hash = hd_Hash h, hm_ParentHash = hd_ParentHash h, hm_Timestamp = ts\<rparr>)"

section \<open>The handler\<close>

text \<open>The hubs of the followers, by chain.\<close>

record ws_handler =
  wh_followers :: "(string, subscriber) gomap"

definition NewHandler :: "(string, subscriber) gomap \<Rightarrow> ws_handler" where
  "NewHandler followers = \<lparr>wh_followers = followers\<rparr>"

text \<open>
  The inputs of a connection's loop: its turn to read the channel, with the clock and the result of the
  write (a turn with an empty channel waits); a tick of the pinger, whose result is ignored; and what
  others do to the hub in between.
\<close>

datatype ws_event = WsHead time "unit result" | WsTick | WsHub hub_op

definition take_head :: "int \<Rightarrow> subscriber \<Rightarrow> (head \<times> subscriber) option" where
  "take_head sid s =
     (case map_of (sb_subs s) sid of
        Some ch \<Rightarrow>
          (case ch_buf ch of
             [] \<Rightarrow> None
           | h # hs \<Rightarrow> Some (h, s\<lparr>sb_subs := AList.update sid (ch\<lparr>ch_buf := hs\<rparr>) (sb_subs s)\<rparr>))
      | None \<Rightarrow> None)"

text \<open>The messages written and the hub; the flag tells that the loop returned.\<close>

fun ws_loop :: "int \<Rightarrow> ws_event list \<Rightarrow> head_message list \<Rightarrow> subscriber \<Rightarrow> bool \<times> head_message list \<times> subscriber" where
  "ws_loop sid [] out s = (False, out, s)"
| "ws_loop sid (WsHead now written # es) out s =
     (case take_head sid s of
        None \<Rightarrow> if map_of (sb_subs s) sid = None then (True, out, s) else ws_loop sid es out s
      | Some (h, s') \<Rightarrow>
          (case written of
             Inl _ \<Rightarrow> (True, out, sub_cancel sid s')
           | Inr _ \<Rightarrow> ws_loop sid es (out @ [headToWS now h]) s'))"
| "ws_loop sid (WsTick # es) out s = ws_loop sid es out s"
| "ws_loop sid (WsHub p # es) out s = ws_loop sid es out (hub_step s p)"

datatype ws_reply = WsNotFound | WsNoUpgrade | WsStream bool "head_message list"

definition ServeHTTP :: "string \<Rightarrow> unit result \<Rightarrow> ws_event list \<Rightarrow> ws_handler \<Rightarrow> ws_reply \<times> ws_handler" where
  "ServeHTTP chainID upgraded es w =
     (case map_of (wh_followers w) chainID of
        None \<Rightarrow> (WsNotFound, w)
      | Some hub \<Rightarrow>
          (case upgraded of
             Inl _ \<Rightarrow> (WsNoUpgrade, w)
           | Inr _ \<Rightarrow>
               (let (sid, hub) = Subscribe 32 hub;
                    (ended, out, hub) = ws_loop sid es [] hub
                in (WsStream ended out, w\<lparr>wh_followers := AList.update chainID hub (wh_followers w)\<rparr>))))"

section \<open>What a client receives\<close>

text \<open>
  The heads of the messages and of the channel, as the loop goes on: a reference that keeps the whole
  stream and the position of the reader instead of a channel.
\<close>

fun hub_heads :: "ws_event list \<Rightarrow> head list" where
  "hub_heads [] = []"
| "hub_heads (WsHub (HubPublish h) # es) = h # hub_heads es"
| "hub_heads (_ # es) = hub_heads es"

definition head_of :: "head_message \<Rightarrow> u64 \<times> string \<times> string" where
  "head_of m = (hm_Height m, hm_Hash m, hm_ParentHash m)"

definition id_of :: "head \<Rightarrow> u64 \<times> string \<times> string" where
  "id_of h = (hd_Height h, hd_Hash h, hd_ParentHash h)"

lemma head_of_headToWS [simp]: "head_of (headToWS now h) = id_of h"
  by (simp add: head_of_def headToWS_def id_of_def Let_def)

text \<open>A reader that is never more than 32 heads behind; \<open>n\<close> heads wait.\<close>

fun keeps_up :: "nat \<Rightarrow> ws_event list \<Rightarrow> bool" where
  "keeps_up n [] \<longleftrightarrow> True"
| "keeps_up n (WsHub (HubPublish h) # es) \<longleftrightarrow> n < 32 \<and> keeps_up (n + 1) es"
| "keeps_up n (WsHead now w # es) \<longleftrightarrow> keeps_up (n - 1) es"
| "keeps_up n (_ # es) \<longleftrightarrow> keeps_up n es"

definition channel :: "int \<Rightarrow> subscriber \<Rightarrow> head_chan \<Rightarrow> bool" where
  "channel sid s ch \<longleftrightarrow> hub_inv s \<and> map_of (sb_subs s) sid = Some ch \<and> ch_cap ch = 32 \<and> length (ch_buf ch) \<le> 32"

text \<open>
  What the loop makes of the heads that wait and those still to come: the messages \<open>ms\<close>, and what
  waits at the end.
\<close>

definition streamed :: "int \<Rightarrow> head list \<Rightarrow> bool \<Rightarrow> (u64 \<times> string \<times> string) list \<Rightarrow> bool \<Rightarrow> subscriber \<Rightarrow> bool" where
  "streamed sid hs kept ms ended s \<longleftrightarrow>
     (if ended then subseq ms (map id_of hs) \<and> map_of (sb_subs s) sid = None
      else \<exists>ch. channel sid s ch \<and> subseq (ms @ map id_of (ch_buf ch)) (map id_of hs) \<and>
        (kept \<longrightarrow> ms @ map id_of (ch_buf ch) = map id_of hs))"

lemma streamed_mono:
  assumes "streamed sid hs kept ms ended s" and "subseq hs hs'" and "kept' \<Longrightarrow> kept \<and> hs' = hs"
  shows "streamed sid hs' kept' ms ended s"
  using assms subseq_order.trans [OF _ subseq_map [OF assms(2)]] by (fastforce simp: streamed_def split: if_splits)

lemma streamed_Cons:
  assumes "streamed sid hs kept ms ended s"
  shows "streamed sid (h # hs) kept (id_of h # ms) ended s"
  using assms by (auto simp: streamed_def split: if_splits)

lemma lastn_subseq: "subseq (lastn n xs @ ys) (xs @ ys)"
proof -
  have "suffix (lastn n xs) xs" by (simp add: lastn_def suffix_drop)
  then show ?thesis by (intro list_emb_append_mono suffix_imp_subseq) simp_all
qed

lemma channel_step:
  assumes "channel sid s ch" and "p \<noteq> HubCancel sid"
  shows "channel sid (hub_step s p) (run chan_push ch (published [p]))"
proof -
  have "hub_inv (hub_step s p)" using assms(1) hub.step_inv by (simp add: channel_def)
  moreover have "map_of (sb_subs (hub_step s p)) sid = Some (run chan_push ch (published [p]))"
    using hub_run_chan [of s sid ch "[p]"] assms by (simp add: channel_def)
  ultimately show ?thesis
    using assms(1) head_chan.run_bounded [of ch "published [p]"] by (simp add: channel_def head_chan.cap_run)
qed

lemma take_head_some:
  assumes "channel sid s ch" and "ch_buf ch = h # hs"
  shows "\<exists>s'. take_head sid s = Some (h, s') \<and> channel sid s' (ch\<lparr>ch_buf := hs\<rparr>)"
  using assms by (auto simp: take_head_def channel_def hub_inv_def)

lemma ws_loop_streams:
  assumes "channel sid s ch" and "\<forall>p. WsHub p \<in> set es \<longrightarrow> p \<noteq> HubCancel sid" and "ws_loop sid es out s = (ended, out', s')"
  shows "\<exists>ms. map head_of out' = map head_of out @ ms \<and>
    streamed sid (ch_buf ch @ hub_heads es) (keeps_up (length (ch_buf ch)) es) ms ended s'"
  using assms
proof (induction es arbitrary: s ch out)
  case Nil
  then show ?case by (auto simp: streamed_def)
next
  case (Cons e es)
  show ?case
  proof (cases e)
    case (WsHead now w)
    show ?thesis
    proof (cases "ch_buf ch")
      case Nil
      then have "take_head sid s = None" "map_of (sb_subs s) sid = Some ch"
        using Cons.prems(1) by (simp_all add: take_head_def channel_def)
      then show ?thesis using Cons.IH [OF Cons.prems(1), of out] Cons.prems(2,3) by (simp add: WsHead Nil)
    next
      case buf: (Cons h hs)
      obtain s1 where s1: "take_head sid s = Some (h, s1)" "channel sid s1 (ch\<lparr>ch_buf := hs\<rparr>)"
        using take_head_some [OF Cons.prems(1) buf] by blast
      show ?thesis
      proof (cases w)
        case (Inl err)
        then have "ended" "out' = out" "s' = sub_cancel sid s1" using Cons.prems(3) by (simp_all add: WsHead s1)
        then show ?thesis using s1(2) by (simp add: streamed_def sub_cancel_def channel_def)
      next
        case (Inr x)
        obtain ms where ms: "map head_of out' = map head_of (out @ [headToWS now h]) @ ms"
          "streamed sid (hs @ hub_heads es) (keeps_up (length hs) es) ms ended s'"
          using Cons.IH [OF s1(2), of "out @ [headToWS now h]"] Cons.prems(2,3) by (auto simp: WsHead s1 Inr)
        then show ?thesis
          using streamed_Cons [OF ms(2), of h] by (intro exI [of _ "id_of h # ms"]) (simp add: WsHead buf)
      qed
    qed
  next
    case WsTick
    then show ?thesis using Cons.IH [OF Cons.prems(1), of out] Cons.prems(2,3) by simp
  next
    case (WsHub p)
    let ?ch = "run chan_push ch (published [p])"
    have ch: "channel sid (hub_step s p) ?ch" using channel_step Cons.prems(1,2) WsHub by simp
    obtain ms where ms: "map head_of out' = map head_of out @ ms"
      "streamed sid (ch_buf ?ch @ hub_heads es) (keeps_up (length (ch_buf ?ch)) es) ms ended s'"
      using Cons.IH [OF ch, of out] Cons.prems(2,3) by (auto simp: WsHub)
    have buf: "ch_buf ?ch = lastn 32 (ch_buf ch @ published [p])"
      using head_chan.items_run [of ch "published [p]"] Cons.prems(1) by (simp add: channel_def)
    have hh: "published [p] @ hub_heads es = hub_heads (e # es)" by (cases p) (simp_all add: WsHub)
    have "streamed sid (ch_buf ch @ hub_heads (e # es)) (keeps_up (length (ch_buf ch)) (e # es)) ms ended s'"
    proof (rule streamed_mono [OF ms(2)])
      show "subseq (ch_buf ?ch @ hub_heads es) (ch_buf ch @ hub_heads (e # es))"
        using lastn_subseq [of 32 "ch_buf ch @ published [p]" "hub_heads es"] by (simp add: buf flip: hh)
      assume up: "keeps_up (length (ch_buf ch)) (e # es)"
      then have "ch_buf ?ch = ch_buf ch @ published [p]"
        unfolding buf using Cons.prems(1) by (cases p) (auto simp: WsHub lastn_def channel_def)
      then show "keeps_up (length (ch_buf ?ch)) es \<and> ch_buf ch @ hub_heads (e # es) = ch_buf ?ch @ hub_heads es"
        using up by (cases p) (simp_all add: WsHub flip: hh)
    qed
    with ms(1) show ?thesis by blast
  qed
qed

section \<open>Properties\<close>

text \<open>
  C11. A client of the WebSocket endpoint: whatever others do to the hub and however slowly the client
  reads, the messages it gets are heads the follower published after it had connected, in the order of
  their publication, none twice; when a write fails the subscription is gone from the hub; and a client
  that never falls more than 32 heads behind has received every head but those still waiting for it.
\<close>

theorem ws_stream_in_order:
  assumes "map_of followers c = Some (run hub_step NewSubscriber qs)"
    and "sid = fst (Subscribe 32 (run hub_step NewSubscriber qs))" and "\<forall>p. WsHub p \<in> set es \<longrightarrow> p \<noteq> HubCancel sid"
    and "ServeHTTP c (Inr ()) es (NewHandler followers) = (WsStream ended out, w)"
  shows "subseq (map head_of out) (map id_of (hub_heads es)) \<and>
    (ended \<longrightarrow> (\<exists>hub. map_of (wh_followers w) c = Some hub \<and> map_of (sb_subs hub) sid = None)) \<and>
    (\<not> ended \<and> keeps_up 0 es \<longrightarrow>
      (\<exists>waiting. length waiting \<le> 32 \<and> map head_of out @ waiting = map id_of (hub_heads es)))"
proof -
  let ?hub = "run hub_step NewSubscriber qs"
  let ?s = "snd (Subscribe 32 ?hub)"
  have "hub_inv NewSubscriber" by (simp add: hub_inv_def NewSubscriber_def)
  then have "hub_inv (hub_step ?hub (HubSubscribe 32))" by (intro hub.step_inv hub.run_inv)
  then have ch: "channel sid ?s \<lparr>ch_cap = 32, ch_buf = []\<rparr>"
    by (simp add: channel_def assms(2) Subscribe_def Let_def)
  obtain hub' where loop: "ws_loop sid es [] ?s = (ended, out, hub')" and w: "map_of (wh_followers w) c = Some hub'"
    using assms(4)
    by (cases "ws_loop sid es [] ?s") (auto simp: ServeHTTP_def NewHandler_def assms(1,2) case_prod_unfold Let_def)
  from ws_loop_streams [OF ch assms(3) loop]
  have "streamed sid (hub_heads es) (keeps_up 0 es) (map head_of out) ended hub'" by simp
  then show ?thesis
  proof (cases ended)
    case True
    with \<open>streamed _ _ _ _ _ _\<close> w show ?thesis by (simp add: streamed_def)
  next
    case False
    with \<open>streamed _ _ _ _ _ _\<close> obtain ch :: head_chan where ch: "length (ch_buf ch) \<le> 32"
      "subseq (map head_of out @ map id_of (ch_buf ch)) (map id_of (hub_heads es))"
      "keeps_up 0 es \<longrightarrow> map head_of out @ map id_of (ch_buf ch) = map id_of (hub_heads es)"
      by (auto simp: streamed_def channel_def)
    have "subseq (map head_of out) (map head_of out @ map id_of (ch_buf ch))" by (intro prefix_imp_subseq prefixI) simp
    then have "subseq (map head_of out) (map id_of (hub_heads es))" using ch(2) by (rule subseq_order.trans)
    moreover have "length (map id_of (ch_buf ch)) \<le> 32" using ch(1) by simp
    ultimately show ?thesis using False ch(3) by blast
  qed
qed

definition sample_heads :: "ws_event list" where
  "sample_heads = [WsHub (HubPublish sample_fork), WsHub (HubSubscribe 1), WsHead 1 (Inr ()),
     WsHub (HubPublish (sample_fork\<lparr>hd_Height := 8\<rparr>)), WsTick, WsHead 2 (Inr ())]"

theorem ws_stream_in_order_witness:
  "\<exists>out w. ServeHTTP ''ethereum'' (Inr ()) sample_heads (NewHandler [(''ethereum'', NewSubscriber)]) = (WsStream False out, w) \<and>
    length out = 2 \<and> subseq (map head_of out) (map id_of (hub_heads sample_heads))"
proof -
  obtain out w where call: "ServeHTTP ''ethereum'' (Inr ()) sample_heads (NewHandler [(''ethereum'', NewSubscriber)]) =
      (WsStream False out, w)" and "length out = 2"
    by (simp add: ServeHTTP_def NewHandler_def sample_heads_def NewSubscriber_def Subscribe_def publish_head_def chan_push_def
        chan_send_def take_head_def)
  moreover have "subseq (map head_of out) (map id_of (hub_heads sample_heads))"
    using ws_stream_in_order [OF _ refl _ call, of "[]"] by (simp add: sample_heads_def)
  ultimately show ?thesis by blast
qed

text \<open>
  The fallback for a missing timestamp is dead: it tests for 1970, and the zero time of a head that has
  no timestamp is sent as it is, as the year 1.
\<close>

theorem zero_timestamp_sent: "hd_Timestamp h = zero_time \<Longrightarrow> hm_Timestamp (headToWS now h) = - 62135596800"
  by (simp add: headToWS_def time_Unix_def)

end
