(* ===== verification/Wallet_Http.thy ===== *)
theory Wallet_Http
  imports Prepayment Rpc_Adapters
begin

text \<open>
  The HTTP exchange of the wallet-management client (\<open>internal/walletclient/client.go\<close>): \<open>doJSON\<close>
  with its status codes and its decoder, and the client made of it. The service is outside the
  gateway: an exchange answers with an HTTP reply, as for the chain adapters.
\<close>

record http_client =
  hc_baseURL :: string
  hc_timeout :: duration

definition NewHTTPClient :: "string \<Rightarrow> duration \<Rightarrow> http_client" where
  "NewHTTPClient baseURL timeout =
     \<lparr>hc_baseURL = baseURL, hc_timeout = (if timeout \<le> 0 then 5 * 1000000000 else timeout)\<rparr>"

definition doJSON :: "'w exchange \<Rightarrow> 'a fields \<Rightarrow> 'a \<Rightarrow> http_client \<Rightarrow> string \<Rightarrow> json \<Rightarrow> 'w \<Rightarrow> 'a result \<times> 'w" where
  "doJSON x fs zero c url body w =
     (let (reply, w') = x (hc_timeout c) url body w in
      (case reply of
         HttpFail err \<Rightarrow> Inl err
       | HttpReply code txt j \<Rightarrow>
           if code \<ge> 400 then Inl (ErrMessage (''wallet-mgmt http '' @ big_String code @ '': '' @ txt))
           else (case j of
                   None \<Rightarrow> Inl json_error
                 | Some v \<Rightarrow> (let (a, ok) = unmarshal_struct fs v zero in if ok then Inr a else Inl json_error)),
       w'))"

definition funding_request_json :: "funding_request_body \<Rightarrow> json" where
  "funding_request_json b = JObj [(''asset'', JStr (fb_Asset b)), (''amount'', JStr (fb_Amount b)), (''reason'', JStr (fb_Reason b))]"

definition funding_response_fields :: "funding_response_body fields" where
  "funding_response_fields = [(''status'', set_string fn_Status_update), (''error'', set_string fn_Error_update)]"

definition nonce_request_json :: "string \<Rightarrow> json" where
  "nonce_request_json chainID = JObj [(''chain'', JStr chainID)]"

record allocate_nonce_response =
  an_Nonce :: u64

definition allocate_nonce_fields :: "allocate_nonce_response fields" where
  "allocate_nonce_fields = [(''nonce'', set_u64 an_Nonce_update)]"

text \<open>The client; \<open>message\<close> is the error's \<open>Error()\<close> text.\<close>

definition http_wallet :: "'w exchange \<Rightarrow> (error \<Rightarrow> string) \<Rightarrow> http_client \<Rightarrow> 'w wallet_client" where
  "http_wallet x message c =
     \<lparr>wc_FundSender = http_FundSender (hc_baseURL c)
        (\<lambda>url b. doJSON x funding_response_fields \<lparr>fn_Status = [], fn_Error = []\<rparr> c url (funding_request_json b)) message,
      wc_AllocateNonce = http_AllocateNonce (hc_baseURL c)
        (\<lambda>url chainID w. let (r, w') = doJSON x allocate_nonce_fields \<lparr>an_Nonce = 0\<rparr> c url (nonce_request_json chainID) w
                        in (map_sum (\<lambda>e. e) an_Nonce r, w'))\<rparr>"

section \<open>Facts\<close>

lemma doJSON_Inr_iff:
  "fst (doJSON x fs zero c url body w) = Inr a \<longleftrightarrow>
    (\<exists>code txt v. fst (x (hc_timeout c) url body w) = HttpReply code txt (Some v) \<and> code < 400 \<and>
       unmarshal_struct fs v zero = (a, True))"
  by (auto simp: doJSON_def Let_def split: prod.splits http_reply.splits option.splits if_splits)

text \<open>
  The wallet service as the manager sees it. A funding request counts as accepted exactly when the
  service answered below 400 with a JSON value that names no error and whose status is \<open>requested\<close>,
  \<open>approved\<close> or missing; a nonce is taken from any such answer, and one that has no member \<open>nonce\<close>
  means the nonce zero.
\<close>

theorem wallet_answers:
  assumes "fq_WalletID req \<noteq> []" and "wid \<noteq> []"
  shows "(\<exists>resp w'. wc_FundSender (http_wallet x msg c) req w = ((Some resp, None), w') \<and> fp_Ok resp) \<longleftrightarrow>
      (\<exists>code txt v st. fst (x (hc_timeout c) (hc_baseURL c @ ''/v1/wallets/'' @ fq_WalletID req @ ''/funding-request'')
           (JObj [(''asset'', JStr (nativeAsset (fq_ChainID req))), (''amount'', JStr (fq_Amount req)),
                  (''reason'', JStr ''blockchain-gateway gas prepayment'')]) w) = HttpReply code txt (Some v) \<and> code < 400 \<and>
         unmarshal_struct funding_response_fields v \<lparr>fn_Status = [], fn_Error = []\<rparr> = (\<lparr>fn_Status = st, fn_Error = []\<rparr>, True) \<and>
         st \<in> {''requested'', ''approved'', []})"
    and "fst (x (hc_timeout c) (hc_baseURL c @ ''/v1/wallets/'' @ wid @ ''/nonce/allocate'') (JObj [(''chain'', JStr cid)]) w) =
        HttpReply code txt (Some (JObj [])) \<Longrightarrow> code < 400 \<Longrightarrow>
      fst (wc_AllocateNonce (http_wallet x msg c) wid cid w) = Inr 0"
proof -
  let ?url = "hc_baseURL c @ ''/v1/wallets/'' @ fq_WalletID req @ ''/funding-request''"
  let ?body = "JObj [(''asset'', JStr (nativeAsset (fq_ChainID req))), (''amount'', JStr (fq_Amount req)),
    (''reason'', JStr ''blockchain-gateway gas prepayment'')]"
  let ?call = "doJSON x funding_response_fields \<lparr>fn_Status = [], fn_Error = []\<rparr> c ?url ?body w"
  have "(\<exists>resp w'. wc_FundSender (http_wallet x msg c) req w = ((Some resp, None), w') \<and> fp_Ok resp) \<longleftrightarrow>
    (\<exists>st. fst ?call = Inr \<lparr>fn_Status = st, fn_Error = []\<rparr> \<and> st \<in> {''requested'', ''approved'', []})"
    using assms(1)
    by (auto simp: http_wallet_def http_FundSender_def funding_request_json_def split: prod.splits sum.splits)
      (metis funding_response_body.surjective old.unit.exhaust)+
  then show "(\<exists>resp w'. wc_FundSender (http_wallet x msg c) req w = ((Some resp, None), w') \<and> fp_Ok resp) \<longleftrightarrow>
      (\<exists>code txt v st. fst (x (hc_timeout c) ?url ?body w) = HttpReply code txt (Some v) \<and> code < 400 \<and>
         unmarshal_struct funding_response_fields v \<lparr>fn_Status = [], fn_Error = []\<rparr> = (\<lparr>fn_Status = st, fn_Error = []\<rparr>, True) \<and>
         st \<in> {''requested'', ''approved'', []})"
    unfolding doJSON_Inr_iff by blast
  assume "fst (x (hc_timeout c) (hc_baseURL c @ ''/v1/wallets/'' @ wid @ ''/nonce/allocate'') (JObj [(''chain'', JStr cid)]) w) =
        HttpReply code txt (Some (JObj []))" and "code < 400"
  then show "fst (wc_AllocateNonce (http_wallet x msg c) wid cid w) = Inr 0"
    using assms(2)
    by (auto simp: http_wallet_def http_AllocateNonce_def nonce_request_json_def doJSON_def unmarshal_struct_def Let_def
        split: prod.splits)
qed

end
