(* ===== verification/Go_Time.thy ===== *)
theory Go_Time
  imports Go_Lib Go_Float
begin

text \<open>
  \<open>time.ParseDuration\<close> and \<open>fmt.Sscanf\<close> with a signed \<open>%d\<close>, as the configuration reads its
  environment with them. A duration is a number of nanoseconds that fits in 64 bits; its fraction is
  computed in \<open>float64\<close>.
\<close>

section \<open>Durations\<close>

text \<open>The units; the two spellings of the micro sign are their UTF-8 bytes.\<close>

definition unitMap :: "(string \<times> nat) list" where
  "unitMap = [(''ns'', 1), (''us'', 1000), ([CHR 0xC2, CHR 0xB5, CHR ''s''], 1000), ([CHR 0xCE, CHR 0xBC, CHR ''s''], 1000),
     (''ms'', 1000000), (''s'', 1000000000), (''m'', 60000000000), (''h'', 3600000000000)]"

text \<open>\<open>leadingInt\<close>: the leading digits, an error when their value exceeds \<open>2 ^ 63\<close>.\<close>

definition leadingInt :: "string \<Rightarrow> (nat \<times> string) option" where
  "leadingInt s =
     (let v = digits_value 10 (takeWhile is_digit s) in
      if v > 2 ^ 63 then None else Some (v, dropWhile is_digit s))"

text \<open>
  \<open>leadingFraction\<close>: digits that no longer fit are skipped. The scale is a power of ten, exact up to
  \<open>10 ^ 22\<close>, and at most 19 digits fit.
\<close>

fun leadingFraction :: "string \<Rightarrow> nat \<Rightarrow> nat \<Rightarrow> bool \<Rightarrow> nat \<times> nat \<times> string" where
  "leadingFraction [] x scale overflow = (x, scale, [])"
| "leadingFraction (c # s) x scale overflow =
     (if \<not> is_digit c then (x, scale, c # s)
      else if overflow then leadingFraction s x scale True
      else if x > (2 ^ 63 - 1) div 10 then leadingFraction s x scale True
      else (let y = x * 10 + digit_val c in
            if y > 2 ^ 63 then leadingFraction s x scale True
            else leadingFraction s y (scale * 10) False))"

definition is_numeric :: "char \<Rightarrow> bool" where
  "is_numeric c \<longleftrightarrow> c = CHR ''.'' \<or> is_digit c"

text \<open>One number with its unit: the nanoseconds and the rest.\<close>

definition duration_part :: "string \<Rightarrow> (nat \<times> string) option" where
  "duration_part s =
     (if \<not> is_numeric (hd s) then None
      else (case leadingInt s of
        None \<Rightarrow> None
      | Some (v, s1) \<Rightarrow>
          (let pre = (length s \<noteq> length s1);
               (f, scale, s2, post) =
                 (if s1 \<noteq> [] \<and> hd s1 = CHR ''.'' then
                    (let (f, scale, s2) = leadingFraction (tl s1) 0 1 False in (f, scale, s2, length (tl s1) \<noteq> length s2))
                  else (0, 1, s1, False)) in
           if \<not> pre \<and> \<not> post then None
           else
             (let u = takeWhile (\<lambda>c. \<not> is_numeric c) s2; s3 = dropWhile (\<lambda>c. \<not> is_numeric c) s2 in
              if u = [] then None
              else (case map_of unitMap u of
                      None \<Rightarrow> None
                    | Some unit \<Rightarrow>
                        if v > 2 ^ 63 div unit then None
                        else
                          (let v = v * unit + (if f > 0 then nat \<lfloor>fl (fl (of_nat f) * fl (of_nat unit / of_nat scale))\<rfloor> else 0) in
                           if f > 0 \<and> v > 2 ^ 63 then None else Some (v, s3)))))))"

lemma leadingFraction_length: "length (snd (snd (leadingFraction s x scale ov))) \<le> length s"
  by (induction s arbitrary: x scale ov) (auto simp: Let_def intro: le_SucI)

lemma dropWhile_shorter: "takeWhile P s \<noteq> [] \<Longrightarrow> length (dropWhile P s) < length s"
  by (cases s) (auto simp: le_imp_less_Suc length_dropWhile_le split: if_splits)

lemma duration_part_shorter: "duration_part s = Some (v, s') \<Longrightarrow> length s' < length s"
proof -
  assume part: "duration_part s = Some (v, s')"
  then obtain v0 s1 where s1: "leadingInt s = Some (v0, s1)"
    by (auto simp: duration_part_def split: option.splits if_splits)
  define s2 where "s2 = (if s1 \<noteq> [] \<and> hd s1 = CHR ''.'' then snd (snd (leadingFraction (tl s1) 0 1 False)) else s1)"
  have "length s2 \<le> length s1"
    using leadingFraction_length [of "tl s1" 0 1 False] by (auto simp: s2_def)
  moreover have "length s1 \<le> length s"
    using s1 by (auto simp: leadingInt_def length_dropWhile_le Let_def split: if_splits)
  moreover have "takeWhile (\<lambda>c. \<not> is_numeric c) s2 \<noteq> [] \<and> s' = dropWhile (\<lambda>c. \<not> is_numeric c) s2"
    using part s1
    by (auto simp: duration_part_def s2_def Let_def case_prod_unfold split: option.splits if_splits)
  ultimately show ?thesis using dropWhile_shorter [of "\<lambda>c. \<not> is_numeric c" s2] by simp
qed

text \<open>The loop adds the parts up.\<close>

function duration_loop :: "string \<Rightarrow> nat \<Rightarrow> nat option" where
  "duration_loop s d =
     (if s = [] then Some d
      else (case duration_part s of
              None \<Rightarrow> None
            | Some (v, s') \<Rightarrow> if d + v > 2 ^ 63 then None else duration_loop s' (d + v)))"
  by auto
termination
  by (relation "measure (\<lambda>(s, d). length s)") (auto dest: duration_part_shorter)

declare duration_loop.simps [simp del]

definition ParseDuration :: "string \<Rightarrow> int option" where
  "ParseDuration s =
     (let (neg, s) = (case s of
          [] \<Rightarrow> (False, [])
        | c # cs \<Rightarrow> if c = CHR ''-'' then (True, cs) else if c = CHR ''+'' then (False, cs) else (False, s)) in
      if s = ''0'' then Some 0
      else if s = [] then None
      else (case duration_loop s 0 of
              None \<Rightarrow> None
            | Some d \<Rightarrow> if neg then Some (- int d) else if d > 2 ^ 63 - 1 then None else Some (int d)))"

section \<open>Signed integers\<close>

definition sscanf_int :: "string \<Rightarrow> int option" where
  "sscanf_int s =
     (let s = dropWhile go_blank s;
          (neg, s) = (case s of
            [] \<Rightarrow> (False, [])
          | c # cs \<Rightarrow> if c = CHR ''-'' then (True, cs) else if c = CHR ''+'' then (False, cs) else (False, s));
          ds = takeWhile is_digit s; v = int (digits_value 10 ds); n = (if neg then - v else v) in
      if ds = [] then None else if - (2 ^ 63) \<le> n \<and> n < 2 ^ 63 then Some n else None)"

section \<open>Bounds\<close>

lemma duration_loop_bound: "d \<le> 2 ^ 63 \<Longrightarrow> duration_loop s d = Some n \<Longrightarrow> n \<le> 2 ^ 63"
proof (induction s d rule: duration_loop.induct)
  case (1 s d)
  then show ?case by (subst (asm) (2) duration_loop.simps) (auto split: if_splits option.splits)
qed

lemma ParseDuration_bounds: "ParseDuration s = Some d \<Longrightarrow> - (2 ^ 63) \<le> d \<and> d < 2 ^ 63"
  using duration_loop_bound [of 0]
  by (fastforce simp: ParseDuration_def Let_def split: if_splits option.splits list.splits prod.splits)

lemma sscanf_int_bounds: "sscanf_int s = Some n \<Longrightarrow> - (2 ^ 63) \<le> n \<and> n < 2 ^ 63"
  by (auto simp: sscanf_int_def Let_def split: if_splits prod.splits)

text \<open>A whole number of a unit is read back exactly.\<close>

lemma unitMap_names: "map_of unitMap u = Some unit \<Longrightarrow> u \<noteq> [] \<and> (\<forall>c \<in> set u. \<not> is_numeric c) \<and> 0 < unit"
  by (auto simp: unitMap_def is_numeric_def is_digit_def split: if_splits)

lemma duration_part_decimal:
  assumes "map_of unitMap u = Some unit" and "n * unit < 2 ^ 63"
  shows "duration_part (decimal n @ u) = Some (n * unit, [])"
proof -
  have u: "u \<noteq> []" "\<forall>c \<in> set u. \<not> is_numeric c" "0 < unit" using unitMap_names [OF assms(1)] by auto
  have d: "\<forall>c \<in> set (decimal n). is_digit c" using decimal_digits by blast
  have hu: "\<not> is_digit (hd u)" "hd u \<noteq> CHR ''.''" using u(1,2) by (auto simp: is_numeric_def)
  have "is_numeric (hd (decimal n @ u))" using d by (simp add: is_numeric_def)
  moreover have t: "takeWhile is_digit (decimal n @ u) = decimal n" "dropWhile is_digit (decimal n @ u) = u"
    using d u(1) hu(1) by simp_all (cases u; simp)+
  have "n \<le> 2 ^ 63 div unit" using assms(2) u(3) by (simp add: less_eq_div_iff_mult_less_eq)
  moreover have "n \<le> 2 ^ 63" using assms(2) u(3) by (metis less_imp_le_nat le_trans mult.right_neutral mult_le_mono2 Suc_leI One_nat_def)
  moreover have name: "takeWhile (\<lambda>c. \<not> is_numeric c) u = u" "dropWhile (\<lambda>c. \<not> is_numeric c) u = []"
    using u(2) by simp_all
  ultimately show ?thesis
    using t u(1) hu(2) assms(1) unfolding duration_part_def by (simp add: name leadingInt_def Let_def)
qed

lemma ParseDuration_decimal:
  assumes "map_of unitMap u = Some unit" and "n * unit < 2 ^ 63"
  shows "ParseDuration (decimal n @ u) = Some (int (n * unit))"
proof -
  obtain c cs where c: "decimal n = c # cs" by (cases "decimal n") auto
  then have "is_digit c" using decimal_digits [of c n] by simp
  then have "c \<noteq> CHR ''-''" "c \<noteq> CHR ''+''" by (auto simp: is_digit_def)
  moreover have "u \<noteq> []" using unitMap_names [OF assms(1)] by simp
  moreover have "duration_loop (decimal n @ u) 0 = Some (n * unit)"
    using duration_part_decimal [OF assms] assms(2) c
    by (subst duration_loop.simps) (simp add: duration_loop.simps [of "[]"])
  ultimately show ?thesis using assms(2) c by (simp add: ParseDuration_def)
qed

end
