(* ===== verification/Chain_Config.thy ===== *)
theory Chain_Config
  imports Chain_Adapter
begin

text \<open>
  The configuration loader of \<open>internal/chain/registry.go\<close>. The environment is a function from
  names to values, the empty string for an unset variable, as \<open>os.Getenv\<close> has it.
\<close>

definition plain_config :: "string \<Rightarrow> u64 \<Rightarrow> string \<Rightarrow> chain_config" where
  "plain_config cid finality strategy =
     \<lparr>cc_ChainID = cid, cc_RPCURLs = [], cc_WSURLs = [], cc_FinalityBlocks = finality, cc_GasStrategy = strategy\<rparr>"

definition defaultChainConfigs :: "(string, chain_config) gomap" where
  "defaultChainConfigs =
     [(''ethereum'', plain_config ''ethereum'' 64 ''eip1559_dynamic''),
      (''polygon'', plain_config ''polygon'' 256 ''eip1559_legacy_fallback''),
      (''solana'', plain_config ''solana'' 1 ''solana_priority_fee''),
      (''bitcoin'', plain_config ''bitcoin'' 6 ''bitcoin_rbf'')]"

definition config_splitCSV :: "string \<Rightarrow> string list" where
  "config_splitCSV s = (if s = [] then [] else csv_parts s)"

text \<open>The configuration of one chain; the error is that of \<open>Sscanf\<close>, under the variable's name.\<close>

definition load_chain :: "(string \<Rightarrow> string) \<Rightarrow> string \<Rightarrow> string \<Rightarrow> chain_config result" where
  "load_chain env defaultStrategy cid =
     (let base = (case map_of defaultChainConfigs cid of Some b \<Rightarrow> b | None \<Rightarrow> plain_config cid 0 []);
          cfg = base\<lparr>cc_ChainID := cid, cc_RPCURLs := config_splitCSV (env (''RPC_URLS_'' @ to_upper cid)),
                     cc_WSURLs := config_splitCSV (env (''WS_URLS_'' @ to_upper cid))\<rparr>;
          v = env (''FINALITY_BLOCKS_'' @ to_upper cid) in
      case (if v \<noteq> [] then (case sscanf_d v of
                              None \<Rightarrow> Inl (ErrWrapped (''FINALITY_BLOCKS_'' @ to_upper cid) (ErrMessage ''expected integer''))
                            | Some f \<Rightarrow> Inr (cfg\<lparr>cc_FinalityBlocks := f\<rparr>))
            else Inr cfg) of
        Inl err \<Rightarrow> Inl err
      | Inr cfg \<Rightarrow>
          (let v = env (''GAS_STRATEGY_'' @ to_upper cid) in
           Inr (if v \<noteq> [] then cfg\<lparr>cc_GasStrategy := v\<rparr>
                else if cc_GasStrategy cfg = [] then cfg\<lparr>cc_GasStrategy := defaultStrategy\<rparr>
                else cfg)))"

fun load_loop :: "(string \<Rightarrow> string) \<Rightarrow> string \<Rightarrow> string list \<Rightarrow> chain_config list \<Rightarrow> chain_config list result" where
  "load_loop env defaultStrategy [] cfgs = Inr cfgs"
| "load_loop env defaultStrategy (part # parts) cfgs =
     (let cid = to_lower (trim_space part) in
      if cid = [] then load_loop env defaultStrategy parts cfgs
      else (case load_chain env defaultStrategy cid of
              Inl err \<Rightarrow> Inl err
            | Inr cfg \<Rightarrow> load_loop env defaultStrategy parts (cfgs @ [cfg])))"

definition Load :: "(string \<Rightarrow> string) \<Rightarrow> chain_config list result" where
  "Load env =
     (let supported = env ''CHAINS_SUPPORTED'' in
      if supported = [] then Inl (ErrMessage ''CHAINS_SUPPORTED not set'')
      else
        (let defaultStrategy = (if env ''GAS_STRATEGY'' = [] then ''eip1559_dynamic'' else env ''GAS_STRATEGY'')
         in load_loop env defaultStrategy (config_splitCSV supported) []))"

section \<open>Lists of names\<close>

definition clean_word :: "string \<Rightarrow> bool" where
  "clean_word w \<longleftrightarrow> w \<noteq> [] \<and> CHR '','' \<notin> set w \<and> (\<forall>c \<in> set w. \<not> ascii_space c)"

lemma config_splitCSV_join: "list_all clean_word ws \<Longrightarrow> config_splitCSV (go_join CHR '','' ws) = ws"
proof (cases ws)
  case (Cons w ws')
  moreover assume "list_all clean_word ws"
  ultimately have "csv_parts (go_join CHR '','' ws) = ws"
    by (intro csv_parts_join) (auto simp: clean_word_def list_all_iff)
  moreover have "go_join CHR '','' ws \<noteq> []"
    using Cons \<open>list_all clean_word ws\<close> by (auto simp: go_join_def clean_word_def)
  ultimately show ?thesis by (simp add: config_splitCSV_def)
qed (simp add: config_splitCSV_def go_join_def)

text \<open>An environment that spells out a configuration in full.\<close>

definition describes :: "(string \<Rightarrow> string) \<Rightarrow> chain_config \<Rightarrow> bool" where
  "describes env cfg \<longleftrightarrow>
     clean_word (cc_ChainID cfg) \<and> to_lower (cc_ChainID cfg) = cc_ChainID cfg \<and>
     list_all clean_word (cc_RPCURLs cfg) \<and> list_all clean_word (cc_WSURLs cfg) \<and> cc_GasStrategy cfg \<noteq> [] \<and>
     env (''RPC_URLS_'' @ to_upper (cc_ChainID cfg)) = go_join CHR '','' (cc_RPCURLs cfg) \<and>
     env (''WS_URLS_'' @ to_upper (cc_ChainID cfg)) = go_join CHR '','' (cc_WSURLs cfg) \<and>
     env (''FINALITY_BLOCKS_'' @ to_upper (cc_ChainID cfg)) = decimal (unat (cc_FinalityBlocks cfg)) \<and>
     env (''GAS_STRATEGY_'' @ to_upper (cc_ChainID cfg)) = cc_GasStrategy cfg"

lemma load_chain_described: "describes env cfg \<Longrightarrow> load_chain env d (cc_ChainID cfg) = Inr cfg"
  by (cases cfg)
    (simp add: describes_def load_chain_def config_splitCSV_join Let_def plain_config_def split: option.splits)

lemma load_loop_described:
  "list_all (describes env) cfgs \<Longrightarrow> load_loop env d (map cc_ChainID cfgs) acc = Inr (acc @ cfgs)"
proof (induction cfgs arbitrary: acc)
  case (Cons cfg cfgs)
  then have "trim_space (cc_ChainID cfg) = cc_ChainID cfg" "to_lower (cc_ChainID cfg) = cc_ChainID cfg" "cc_ChainID cfg \<noteq> []"
    by (auto simp: describes_def clean_word_def intro: trim_space_id)
  then show ?case using Cons by (simp add: load_chain_described)
qed simp

section \<open>Properties\<close>

text \<open>
  Loading a configuration that the environment spells out gives it back: the chains in their
  order, with their URLs, finality depth and gas strategy.
\<close>

theorem config_roundtrip:
  assumes "cfgs \<noteq> []" and "list_all (describes env) cfgs"
    and "env ''CHAINS_SUPPORTED'' = go_join CHR '','' (map cc_ChainID cfgs)"
  shows "Load env = Inr cfgs"
proof -
  have clean: "list_all clean_word (map cc_ChainID cfgs)" using assms(2) by (auto simp: list_all_iff describes_def)
  moreover have "go_join CHR '','' (map cc_ChainID cfgs) \<noteq> []"
    using assms(1) clean by (cases cfgs) (auto simp: go_join_def clean_word_def)
  ultimately show ?thesis
    using load_loop_described [OF assms(2), of _ "[]"] assms(3) by (simp add: Load_def config_splitCSV_join Let_def)
qed

definition sample_config_env :: "string \<Rightarrow> string" where
  "sample_config_env k =
     (if k = ''CHAINS_SUPPORTED'' then ''base'' else if k = ''RPC_URLS_BASE'' then ''http://a,http://b''
      else if k = ''FINALITY_BLOCKS_BASE'' then ''12'' else if k = ''GAS_STRATEGY_BASE'' then ''g'' else [])"

theorem config_roundtrip_witness:
  "Load sample_config_env = Inr [\<lparr>cc_ChainID = ''base'', cc_RPCURLs = [''http://a'', ''http://b''], cc_WSURLs = [],
     cc_FinalityBlocks = 12, cc_GasStrategy = ''g''\<rparr>]"
proof (rule config_roundtrip)
  have "decimal (unat (12 :: u64)) = ''12''" "to_upper ''base'' = ''BASE''" "to_lower ''base'' = ''base''" by code_simp+
  then show "list_all (describes sample_config_env) [\<lparr>cc_ChainID = ''base'', cc_RPCURLs = [''http://a'', ''http://b''],
     cc_WSURLs = [], cc_FinalityBlocks = 12, cc_GasStrategy = ''g''\<rparr>]"
    by (simp add: describes_def clean_word_def sample_config_env_def go_join_def ascii_space_def)
qed (simp_all add: sample_config_env_def go_join_def)

text \<open>
  A chain the loader has no default for and whose finality depth is not configured gets the depth
  zero.
\<close>

lemma unlisted_chain_zero_depth:
  assumes "env (''FINALITY_BLOCKS_'' @ to_upper cid) = []" and "map_of defaultChainConfigs cid = None"
    and "load_chain env d cid = Inr cfg"
  shows "cc_FinalityBlocks cfg = 0"
  using assms by (auto simp: load_chain_def plain_config_def Let_def)

end
