(* ===== verification/Bus_Emitter.thy ===== *)
theory Bus_Emitter
  imports Event_Bus Confirmation_Pool Reorg_Detector Mempool_Watcher
begin

text \<open>
  The emitter that \<open>internal/app/app.go\<close> puts between the components and the bus: it turns the
  events of the confirmation workers, the mempool watcher and the reorg detector into events of the
  bus, and publishes each of them to the audit topic as well. The Kafka producer behind the audit
  topic, SHA-256 and \<open>json.Marshal\<close> are parameters.
\<close>

section \<open>The audit topic\<close>

record audit_envelope =
  av_schema_version :: string
  av_id :: string
  av_ts :: time
  av_source_service :: string
  av_actor_id :: string
  av_action :: string
  av_target_type :: string
  av_target_id :: string
  av_payload_hash :: string
  av_payload :: bytes

record 'k audit_sink =
  as_marshal :: "bus_event \<Rightarrow> bytes result"
  as_sha256 :: "bytes \<Rightarrow> bytes"
  as_marshalEnvelope :: "audit_envelope \<Rightarrow> bytes result"
  as_write :: "string \<Rightarrow> bytes \<Rightarrow> 'k \<Rightarrow> unit result \<times> 'k"

definition newKafkaAuditSink :: "(string list \<Rightarrow> 'k audit_sink) \<Rightarrow> string list \<Rightarrow> 'k audit_sink result" where
  "newKafkaAuditSink connect brokers =
     (if length brokers = 0 then Inl (ErrMessage ''audit kafka: no brokers provided'') else Inr (connect brokers))"

text \<open>\<open>nanos\<close> is the printed \<open>UnixNano\<close> of the clock, read only for an event without a hash.\<close>

definition audit_publish :: "'k audit_sink \<Rightarrow> string \<Rightarrow> bus_event \<Rightarrow> 'k \<Rightarrow> unit result \<times> 'k" where
  "audit_publish s nanos evt k =
     (case as_marshal s evt of
        Inl err \<Rightarrow> (Inl err, k)
      | Inr payload \<Rightarrow>
          (let payloadHash = ''sha256:'' @ hex_encode (as_sha256 s payload);
               id = (if be_TxHash evt = [] then ''bgw-'' @ nanos else be_TxHash evt);
               envelope = \<lparr>av_schema_version = ''1'', av_id = id, av_ts = be_EmittedAt evt,
                 av_source_service = ''blockchain-gateway'', av_actor_id = ''blockchain-gateway'',
                 av_action = be_Type evt, av_target_type = ''transaction'', av_target_id = be_TxHash evt,
                 av_payload_hash = payloadHash, av_payload = payload\<rparr> in
           case as_marshalEnvelope s envelope of
             Inl err \<Rightarrow> (Inl err, k)
           | Inr body \<Rightarrow> as_write s id body k))"

text \<open>
  The sink of the configuration: no brokers is an error outside of development mode, and there it
  means no sink; so does a sink that cannot be made.
\<close>

definition newAuditSinkFromEnv ::
  "(string list \<Rightarrow> 'k audit_sink) \<Rightarrow> bool \<Rightarrow> string \<Rightarrow> 'k audit_sink option result" where
  "newAuditSinkFromEnv connect devMode brokers =
     (if brokers = [] then
        (if devMode then Inr None
         else Inl (ErrMessage ''KAFKA_BROKERS unset and DEV_MODE not set; cannot start audit producer''))
      else (case newKafkaAuditSink connect (csv_parts brokers) of
              Inl err \<Rightarrow> if devMode then Inr None else Inl err
            | Inr sink \<Rightarrow> Inr (Some sink)))"

section \<open>The emitter\<close>

text \<open>What one emission reads: three clocks, the id of the outbox row, the printed clock.\<close>

record emit_env =
  ee_now :: time
  ee_stamp :: time
  ee_append :: time
  ee_uuid :: uuid
  ee_nanos :: string

definition bus_event_of :: "time \<Rightarrow> string \<Rightarrow> string \<Rightarrow> string \<Rightarrow> status \<Rightarrow> u64 \<Rightarrow> u64 \<Rightarrow> time \<Rightarrow> bus_event" where
  "bus_event_of now typ chainID txHash st blockHeight confirmations finalizedAt =
     \<lparr>be_Type = typ, be_ChainID = chainID, be_TxHash = txHash, be_From = [], be_To = [], be_Value = [],
      be_Fee = [], be_Status = st, be_BlockHeight = blockHeight, be_BlockHash = [],
      be_Confirmations = confirmations, be_FinalizedAt = finalizedAt, be_EmittedAt = now\<rparr>"

definition emitCommon ::
  "('o, 'p) bus \<Rightarrow> 'k audit_sink option \<Rightarrow> emit_env \<Rightarrow> string \<Rightarrow> string \<Rightarrow> string \<Rightarrow> status \<Rightarrow> u64 \<Rightarrow> u64 \<Rightarrow> time \<Rightarrow>
    ('o, 'p) bus_state \<times> 'k \<Rightarrow> unit result \<times> ('o, 'p) bus_state \<times> 'k" where
  "emitCommon b sink env typ chainID txHash st blockHeight confirmations finalizedAt sk =
     (let (bst, k) = sk;
          evt = bus_event_of (ee_now env) typ chainID txHash st blockHeight confirmations finalizedAt in
      case Emit b (ee_stamp env) (ee_append env) (ee_uuid env) evt bst of
        (Inl err, bst) \<Rightarrow> (Inl err, bst, k)
      | (Inr _, bst) \<Rightarrow>
          (case sink of
             None \<Rightarrow> (Inr (), bst, k)
           | Some s \<Rightarrow> (Inr (), bst, snd (audit_publish s (ee_nanos env) evt k))))"

definition emitter_Emit ::
  "('o, 'p) bus \<Rightarrow> 'k audit_sink option \<Rightarrow> emit_env \<Rightarrow> conf_event \<Rightarrow>
    ('o, 'p) bus_state \<times> 'k \<Rightarrow> unit result \<times> ('o, 'p) bus_state \<times> 'k" where
  "emitter_Emit b sink env ev sk =
     emitCommon b sink env (ev_Type ev) (ev_ChainID ev) (ev_TxHash ev) (ev_Status ev) (ev_BlockHeight ev)
       (ev_Confirmations ev) (ev_FinalizedAt ev) sk"

definition emitter_EmitMempool ::
  "('o, 'p) bus \<Rightarrow> 'k audit_sink option \<Rightarrow> emit_env \<Rightarrow> mempool_emission \<Rightarrow>
    ('o, 'p) bus_state \<times> 'k \<Rightarrow> unit result \<times> ('o, 'p) bus_state \<times> 'k" where
  "emitter_EmitMempool b sink env ev sk =
     emitCommon b sink env (mv_Type ev) (mv_ChainID ev) (mv_TxHash ev) (mv_Status ev) 0 0 zero_time sk"

text \<open>One event per affected transaction; the first error ends the loop.\<close>

fun reorg_loop ::
  "('o, 'p) bus \<Rightarrow> 'k audit_sink option \<Rightarrow> (nat \<Rightarrow> emit_env) \<Rightarrow> reorg_emission \<Rightarrow> string list \<Rightarrow>
    ('o, 'p) bus_state \<times> 'k \<Rightarrow> unit result \<times> ('o, 'p) bus_state \<times> 'k" where
  "reorg_loop b sink envs ev [] sk = (Inr (), sk)"
| "reorg_loop b sink envs ev (h # hs) sk =
     (case emitCommon b sink (envs 0) (rm_Type ev) (rm_ChainID ev) h StatusReorgedOut (rm_CommonAncestor ev) 0 zero_time sk of
        (Inl err, sk) \<Rightarrow> (Inl err, sk)
      | (Inr _, sk) \<Rightarrow> reorg_loop b sink (envs \<circ> Suc) ev hs sk)"

definition emitter_EmitReorg ::
  "('o, 'p) bus \<Rightarrow> 'k audit_sink option \<Rightarrow> (nat \<Rightarrow> emit_env) \<Rightarrow> reorg_emission \<Rightarrow>
    ('o, 'p) bus_state \<times> 'k \<Rightarrow> unit result \<times> ('o, 'p) bus_state \<times> 'k" where
  "emitter_EmitReorg b sink envs ev sk = reorg_loop b sink envs ev (rm_Affected ev) sk"

section \<open>Streams of emissions\<close>

definition conf_bus_event :: "emit_env \<Rightarrow> conf_event \<Rightarrow> bus_event" where
  "conf_bus_event env ev =
     bus_event_of (ee_now env) (ev_Type ev) (ev_ChainID ev) (ev_TxHash ev) (ev_Status ev) (ev_BlockHeight ev)
       (ev_Confirmations ev) (ev_FinalizedAt ev)"

definition reorg_bus_event :: "reorg_emission \<Rightarrow> emit_env \<Rightarrow> string \<Rightarrow> bus_event" where
  "reorg_bus_event ev env h =
     bus_event_of (ee_now env) (rm_Type ev) (rm_ChainID ev) h StatusReorgedOut (rm_CommonAncestor ev) 0 zero_time"

text \<open>The bus and the audit topic after one event has been handed to both.\<close>

definition emit_both ::
  "('o, 'p) bus \<Rightarrow> 'k audit_sink option \<Rightarrow> ('o, 'p) bus_state \<times> 'k \<Rightarrow> emit_env \<times> bus_event \<Rightarrow> ('o, 'p) bus_state \<times> 'k" where
  "emit_both b sink sk x =
     (snd (Emit b (ee_stamp (fst x)) (ee_append (fst x)) (ee_uuid (fst x)) (snd x) (fst sk)),
      (case sink of None \<Rightarrow> snd sk | Some s \<Rightarrow> snd (audit_publish s (ee_nanos (fst x)) (snd x) (snd sk))))"

definition as_input :: "emit_env \<times> bus_event \<Rightarrow> emit_input" where
  "as_input x = (ee_stamp (fst x), ee_append (fst x), ee_uuid (fst x), snd x)"

definition audit_all :: "'k audit_sink option \<Rightarrow> (emit_env \<times> bus_event) list \<Rightarrow> 'k \<Rightarrow> 'k" where
  "audit_all sink xs k =
     foldl (\<lambda>k x. case sink of None \<Rightarrow> k | Some s \<Rightarrow> snd (audit_publish s (ee_nanos (fst x)) (snd x) k)) k xs"

lemma emit_both_run:
  "run (emit_both b sink) sk xs = (run (emit_step b) (fst sk) (map as_input xs), audit_all sink xs (snd sk))"
  by (induction xs arbitrary: sk) (auto simp: emit_both_def as_input_def audit_all_def)

text \<open>A stamped event is not stamped again, so the clock reading of \<open>Emit\<close> does not matter.\<close>

definition dated :: "emit_env \<times> bus_event \<Rightarrow> bool" where
  "dated x \<longleftrightarrow> be_EmittedAt (snd x) \<noteq> zero_time"

lemma in_event_dated: "dated x \<Longrightarrow> in_event (as_input x) = snd x"
  by (simp add: dated_def as_input_def stamped_def)

context outbox_contract
begin

lemma emitCommon_plain:
  assumes "bu_outbox b = ops" and "inv (bus_outbox bst)" and "ee_now env \<noteq> zero_time"
    and "plain_event b (bus_event_of (ee_now env) typ c h st n m f)"
  shows "emitCommon b sink env typ c h st n m f (bst, k) =
      (Inr (), emit_both b sink (bst, k) (env, bus_event_of (ee_now env) typ c h st n m f))"
    and "inv (bus_outbox (fst (emit_both b sink (bst, k) (env, bus_event_of (ee_now env) typ c h st n m f))))"
proof -
  let ?e = "bus_event_of (ee_now env) typ c h st n m f"
  have "stamped (ee_stamp env) ?e = ?e" using assms(3) by (simp add: stamped_def bus_event_of_def)
  then have "plain_event b (stamped (ee_stamp env) ?e)" using assms(4) by simp
  from Emit_ok [OF assms(1,2) this, of "ee_append env" "ee_uuid env"]
  obtain bst' where "Emit b (ee_stamp env) (ee_append env) (ee_uuid env) ?e bst = (Inr (), bst')" "inv (bus_outbox bst')"
    by blast
  then show "emitCommon b sink env typ c h st n m f (bst, k) = (Inr (), emit_both b sink (bst, k) (env, ?e))"
    and "inv (bus_outbox (fst (emit_both b sink (bst, k) (env, ?e))))"
    by (auto simp: emitCommon_def emit_both_def Let_def split: option.splits)
qed

lemma reorg_loop_plain:
  assumes "bu_outbox b = ops" and "inv (bus_outbox bst)" and "\<forall>i. ee_now (envs i) \<noteq> zero_time"
    and "\<forall>h \<in> set hs. \<forall>i. plain_event b (reorg_bus_event ev (envs i) h)"
  shows "reorg_loop b sink envs ev hs (bst, k) =
    (Inr (), run (emit_both b sink) (bst, k) (map (\<lambda>(i, h). (envs i, reorg_bus_event ev (envs i) h)) (enumerate 0 hs)))"
  using assms(2-4)
proof (induction hs arbitrary: envs bst k)
  case (Cons h hs)
  let ?e = "reorg_bus_event ev (envs 0) h"
  have plain: "plain_event b ?e" using Cons.prems(3) by simp
  note step = emitCommon_plain [OF assms(1) Cons.prems(1), where env = "envs 0" and sink = sink and k = k,
      OF spec [OF Cons.prems(2)] plain [unfolded reorg_bus_event_def], folded reorg_bus_event_def]
  obtain bst' k' where eb: "emit_both b sink (bst, k) (envs 0, ?e) = (bst', k')"
    by (cases "emit_both b sink (bst, k) (envs 0, ?e)")
  have "reorg_loop b sink (envs \<circ> Suc) ev hs (bst', k') = (Inr (), run (emit_both b sink) (bst', k')
      (map (\<lambda>(i, h). ((envs \<circ> Suc) i, reorg_bus_event ev ((envs \<circ> Suc) i) h)) (enumerate 0 hs)))"
    using step(2) eb Cons.prems(2,3) by (intro Cons.IH) auto
  moreover have "map (\<lambda>(i, h). ((envs \<circ> Suc) i, reorg_bus_event ev ((envs \<circ> Suc) i) h)) (enumerate 0 hs) =
      map (\<lambda>(i, h). (envs i, reorg_bus_event ev (envs i) h)) (enumerate (Suc 0) hs)"
    by (simp add: enumerate_eq_zip map_Suc_upt [symmetric] zip_map1 comp_def case_prod_beta del: upt_Suc)
  ultimately show ?case using step(1) eb by (simp add: reorg_bus_event_def)
qed simp

end

fun emitter_step ::
  "('o, 'p) bus \<Rightarrow> 'k audit_sink option \<Rightarrow> ('o, 'p) bus_state \<times> 'k \<Rightarrow> emit_env \<times> conf_event \<Rightarrow> ('o, 'p) bus_state \<times> 'k" where
  "emitter_step b sink sk (env, ev) = emit (Some (emitter_Emit b sink env)) sk ev"

definition to_bus :: "emit_env \<times> conf_event \<Rightarrow> emit_env \<times> bus_event" where
  "to_bus x = (fst x, conf_bus_event (fst x) (snd x))"

definition emission_ok :: "('o, 'p) bus \<Rightarrow> emit_env \<times> conf_event \<Rightarrow> bool" where
  "emission_ok b x \<longleftrightarrow> ee_now (fst x) \<noteq> zero_time \<and> plain_event b (conf_bus_event (fst x) (snd x))"

lemma to_bus_in_event: "emission_ok b x \<Longrightarrow> in_event (as_input (to_bus x)) = conf_bus_event (fst x) (snd x)"
  using in_event_dated [of "to_bus x"]
  by (simp add: emission_ok_def dated_def to_bus_def conf_bus_event_def bus_event_of_def)

context outbox_contract
begin

lemma emitter_run:
  assumes "bu_outbox b = ops" and "inv (bus_outbox (fst sk))" and "\<forall>x \<in> set xs. emission_ok b x"
  shows "run (emitter_step b sink) sk xs = run (emit_both b sink) sk (map to_bus xs)"
  using assms(2,3)
proof (induction xs arbitrary: sk)
  case (Cons x xs)
  obtain env ev where x: "x = (env, ev)" by (cases x)
  obtain bst k where sk: "sk = (bst, k)" by (cases sk)
  have ok: "ee_now env \<noteq> zero_time" "plain_event b (conf_bus_event env ev)" "inv (bus_outbox bst)"
    using Cons.prems by (simp_all add: x sk emission_ok_def)
  note step = emitCommon_plain [OF assms(1) ok(3,1) ok(2) [unfolded conf_bus_event_def], of sink k, folded conf_bus_event_def]
  have eq: "emitter_step b sink sk x = emit_both b sink sk (to_bus x)"
    using step(1) by (simp add: x sk emit_def emitter_Emit_def to_bus_def conf_bus_event_def)
  then show ?case using Cons.IH [of "emit_both b sink sk (to_bus x)"] step(2) Cons.prems by (simp add: x sk to_bus_def)
qed simp

end

section \<open>Properties\<close>

lemma mem_outbox_emitter_stream:
  assumes "bu_outbox b = mem_outbox_store uuid_str" and "outbox_inv (bus_outbox bst)"
    and "\<forall>x \<in> set xs. emission_ok b x"
  shows "bus_world (fst (run (emitter_step b sink) (bst, k) xs)) =
      publish_all b (firsts (outbox_id ` set (ob_entries (bus_outbox bst)))
        (map (\<lambda>x. conf_bus_event (fst x) (snd x)) xs)) (bus_world bst)
    \<and> snd (run (emitter_step b sink) (bst, k) xs) = audit_all sink (map to_bus xs) k"
proof -
  have run: "run (emitter_step b sink) (bst, k) xs = run (emit_both b sink) (bst, k) (map to_bus xs)"
    by (rule mem_outbox.emitter_run [OF assms(1) _ assms(3)]) (simp add: assms(2))
  have ins: "map in_event (map as_input (map to_bus xs)) = map (\<lambda>x. conf_bus_event (fst x) (snd x)) xs"
    using assms(3) to_bus_in_event by (auto simp: comp_def)
  have "\<forall>x \<in> set (map as_input (map to_bus xs)). plain_event b (in_event x)"
    using assms(3) to_bus_in_event [of b] by (auto simp: emission_ok_def)
  then show ?thesis
    using mem_outbox.Emit_run [OF assms(1,2), of "map as_input (map to_bus xs)"] unfolding run emit_both_run ins
    by (simp add: mem_outbox.ids_def)
qed

text \<open>
  The events of the confirmation workers, through the emitter: the publisher of the bus gets the
  first event of each identity, in order, and the audit topic gets every emission, repeated ones
  too: a repetition is no error of the bus, and the sink is behind it without a check of its own.
\<close>

theorem emitter_stream:
  assumes "bu_outbox b = mem_outbox_store uuid_str" and "outbox_inv (bus_outbox bst)"
    and "\<forall>x \<in> set xs. emission_ok b x"
  shows "bus_world (fst (run (emitter_step b sink) (bst, k) xs)) =
      publish_all b (firsts (outbox_id ` set (ob_entries (bus_outbox bst)))
        (map (\<lambda>x. conf_bus_event (fst x) (snd x)) xs)) (bus_world bst)
    \<and> snd (run (emitter_step b sink) (bst, k) xs) = audit_all sink (map to_bus xs) k"
  by (rule mem_outbox_emitter_stream [OF assms])

definition sample_emit_env :: emit_env where
  "sample_emit_env = \<lparr>ee_now = 5, ee_stamp = 6, ee_append = 7, ee_uuid = 8, ee_nanos = ''9''\<rparr>"

definition sample_conf_event :: conf_event where
  "sample_conf_event = \<lparr>ev_Type = ''tx.confirmed'', ev_ChainID = ''ethereum'', ev_TxHash = ''0xab'',
     ev_Status = StatusConfirmed, ev_PrevStatus = StatusMempool, ev_BlockHeight = 100, ev_Confirmations = 1,
     ev_FinalizedAt = 0\<rparr>"

definition sample_sink :: "string list audit_sink" where
  "sample_sink = \<lparr>as_marshal = (\<lambda>e. Inr []), as_sha256 = id, as_marshalEnvelope = (\<lambda>e. Inr []),
     as_write = (\<lambda>key body k. (Inr (), k @ [key]))\<rparr>"

lemma sample_emission_ok [simp]: "emission_ok sample_bus (sample_emit_env, sample_conf_event)"
  by (simp add: emission_ok_def plain_event_def sample_bus_def conf_bus_event_def bus_event_of_def sep_free_def
      sample_emit_env_def sample_conf_event_def)

theorem emitter_stream_witness:
  "length (bus_world (fst (run (emitter_step sample_bus (Some sample_sink)) (NewBus NewOutboxStore [], [])
      [(sample_emit_env, sample_conf_event), (sample_emit_env, sample_conf_event)]))) = 1 \<and>
   snd (run (emitter_step sample_bus (Some sample_sink)) (NewBus NewOutboxStore [], [])
      [(sample_emit_env, sample_conf_event), (sample_emit_env, sample_conf_event)]) = [''0xab'', ''0xab'']"
proof -
  let ?xs = "[(sample_emit_env, sample_conf_event), (sample_emit_env, sample_conf_event)]"
  have bus: "bu_outbox sample_bus = mem_outbox_store (\<lambda>_. [])" "outbox_inv (bus_outbox (NewBus NewOutboxStore []))"
    by (simp_all add: sample_bus_def NewBus_def)
  have "\<forall>x \<in> set ?xs. emission_ok sample_bus x" by simp
  note stream = emitter_stream [OF bus(1,2) this, of "Some sample_sink" "[]"]
  show ?thesis
    unfolding stream [THEN conjunct1] stream [THEN conjunct2]
    by (simp add: NewBus_def NewOutboxStore_def bus_publish_def sample_bus_def audit_all_def audit_publish_def
        sample_sink_def to_bus_def conf_bus_event_def bus_event_of_def sample_conf_event_def)
qed

text \<open>
  A reorg event of the detector becomes one event of the bus per affected transaction: when none
  of them was reported for this common ancestor before, the publisher gets exactly one
  \<open>REORGED_OUT\<close> event for each affected hash, in the detector's order, and the call succeeds.
\<close>

theorem reorg_emits_each_affected:
  assumes "bu_outbox b = mem_outbox_store uuid_str" and "outbox_inv (bus_outbox bst)"
    and "\<forall>i. ee_now (envs i) \<noteq> zero_time" and "distinct (rm_Affected ev)"
    and "\<forall>h \<in> set (rm_Affected ev). \<forall>i. plain_event b (reorg_bus_event ev (envs i) h)"
    and "\<forall>h \<in> set (rm_Affected ev).
      (rm_ChainID ev, h, StatusReorgedOut, rm_CommonAncestor ev) \<notin> outbox_id ` set (ob_entries (bus_outbox bst))"
  shows "\<exists>bst' k' es. emitter_EmitReorg b sink envs ev (bst, k) = (Inr (), bst', k') \<and>
    bus_world bst' = publish_all b es (bus_world bst) \<and> map be_TxHash es = rm_Affected ev \<and>
    (\<forall>e \<in> set es. be_ChainID e = rm_ChainID ev \<and> be_Status e = StatusReorgedOut)"
proof -
  let ?xs = "map (\<lambda>(i, h). (envs i, reorg_bus_event ev (envs i) h)) (enumerate 0 (rm_Affected ev))"
  let ?es = "map snd ?xs"
  let ?seen = "outbox_id ` set (ob_entries (bus_outbox bst))"
  have dated: "\<forall>x \<in> set ?xs. dated x"
    using assms(3) by (auto simp: dated_def reorg_bus_event_def bus_event_of_def)
  then have ins: "map in_event (map as_input ?xs) = ?es" using in_event_dated by auto
  have "plain_event b e" if e: "e \<in> set ?es" for e
  proof -
    obtain i h where "(i, h) \<in> set (enumerate 0 (rm_Affected ev))" "e = reorg_bus_event ev (envs i) h"
      using e by auto
    then show ?thesis using assms(5) by (auto simp: in_set_enumerate_eq)
  qed
  then have plain: "\<forall>x \<in> set (map as_input ?xs). plain_event b (in_event x)"
    unfolding ins [symmetric] by simp
  have ids: "map event_id ?es = map (\<lambda>h. (rm_ChainID ev, h, StatusReorgedOut, rm_CommonAncestor ev)) (rm_Affected ev)"
    by (rule nth_equalityI) (simp_all add: event_id_def reorg_bus_event_def bus_event_of_def case_prod_beta nth_enumerate_eq)
  have "distinct (map event_id ?es)" unfolding ids using assms(4) by (simp add: distinct_map inj_on_def)
  moreover have "event_id ` set ?es \<inter> ?seen = {}"
    unfolding set_map [symmetric] ids using assms(6) by auto
  then have "\<forall>e \<in> set ?es. event_id e \<notin> ?seen" by blast
  ultimately have "firsts ?seen ?es = ?es" by (rule firsts_new)
  moreover have "emitter_EmitReorg b sink envs ev (bst, k) = (Inr (), run (emit_both b sink) (bst, k) ?xs)"
    unfolding emitter_EmitReorg_def by (rule mem_outbox.reorg_loop_plain [OF assms(1-3,5)])
  moreover have "map be_TxHash ?es = rm_Affected ev"
    by (rule nth_equalityI) (simp_all add: reorg_bus_event_def bus_event_of_def case_prod_beta nth_enumerate_eq)
  moreover have "\<forall>e \<in> set ?es. be_ChainID e = rm_ChainID ev \<and> be_Status e = StatusReorgedOut"
    by (auto simp: reorg_bus_event_def bus_event_of_def)
  ultimately show ?thesis
    using mem_outbox.Emit_run [OF assms(1,2) plain] unfolding emit_both_run ins
    by (intro exI conjI) (auto simp: mem_outbox.ids_def)
qed

definition sample_reorg :: reorg_emission where
  "sample_reorg = \<lparr>rm_Type = ''tx.reorged'', rm_ChainID = ''ethereum'', rm_TxHash = [], rm_Affected = [''0xab'', ''0xcd''],
     rm_CommonAncestor = 5\<rparr>"

theorem reorg_emits_each_affected_witness:
  "\<exists>bst' k' es. emitter_EmitReorg sample_bus (Some sample_sink) (\<lambda>_. sample_emit_env) sample_reorg
      (NewBus NewOutboxStore [], []) = (Inr (), bst', k') \<and> map be_TxHash es = [''0xab'', ''0xcd''] \<and>
    bus_world bst' = publish_all sample_bus es []"
proof -
  have bus: "bu_outbox sample_bus = mem_outbox_store (\<lambda>_. [])" "outbox_inv (bus_outbox (NewBus NewOutboxStore []))"
    by (simp_all add: sample_bus_def NewBus_def)
  have "\<forall>h \<in> set (rm_Affected sample_reorg). \<forall>i. plain_event sample_bus (reorg_bus_event sample_reorg sample_emit_env h)"
    by (simp add: plain_event_def sample_bus_def reorg_bus_event_def bus_event_of_def sample_reorg_def sep_free_def)
  moreover have "\<forall>i :: nat. ee_now sample_emit_env \<noteq> zero_time" by (simp add: sample_emit_env_def)
  moreover have "distinct (rm_Affected sample_reorg)" by (simp add: sample_reorg_def)
  moreover have "\<forall>h \<in> set (rm_Affected sample_reorg). (rm_ChainID sample_reorg, h, StatusReorgedOut,
      rm_CommonAncestor sample_reorg) \<notin> outbox_id ` set (ob_entries (bus_outbox (NewBus NewOutboxStore [])))"
    by (simp add: NewBus_def NewOutboxStore_def)
  ultimately obtain bst' k' es where
    "emitter_EmitReorg sample_bus (Some sample_sink) (\<lambda>_. sample_emit_env) sample_reorg (NewBus NewOutboxStore [], []) = (Inr (), bst', k')"
    "bus_world bst' = publish_all sample_bus es (bus_world (NewBus NewOutboxStore []))" "map be_TxHash es = rm_Affected sample_reorg"
    using reorg_emits_each_affected [OF bus, of "\<lambda>_. sample_emit_env" sample_reorg "Some sample_sink" "[]"] by blast
  then show ?thesis by (intro exI [of _ bst'] exI [of _ k'] exI [of _ es]) (simp add: NewBus_def sample_reorg_def)
qed

end
