(* ===== verification/Gateway_App.thy ===== *)
theory Gateway_App
  imports Rest_Api Heads_Stream Wallet_Http Go_Time Chain_Config Postgres_Store Bus_Emitter
begin

text \<open>
  The composition root of \<open>internal/app/app.go\<close>: the configuration from the environment, the choice
  of an adapter for a chain, and \<open>Build\<close>, which decides what the server is made of and refuses to
  start without it. The environment is a function from names to values, the empty string for an unset
  variable. What lies outside is an argument: whether the database opens, how the Kafka producer
  of the audit topic is made, and the order in which Go lists a map.
\<close>

section \<open>Configuration\<close>

record app_config =
  ac_Port :: string
  ac_WalletMgmtURL :: string
  ac_EventBusURL :: string
  ac_BroadcastTimeout :: duration
  ac_BroadcastRetryMax :: int
  ac_ConfirmationPoll :: duration
  ac_FeeRefresh :: duration

definition envOr :: "(string \<Rightarrow> string) \<Rightarrow> string \<Rightarrow> string \<Rightarrow> string" where
  "envOr env k def = (if env k \<noteq> [] then env k else def)"

definition envDur :: "(string \<Rightarrow> string) \<Rightarrow> string \<Rightarrow> duration \<Rightarrow> duration" where
  "envDur env k def =
     (if env k \<noteq> [] then (case ParseDuration (env k) of Some d \<Rightarrow> d | None \<Rightarrow> def) else def)"

definition envInt :: "(string \<Rightarrow> string) \<Rightarrow> string \<Rightarrow> int \<Rightarrow> int" where
  "envInt env k def =
     (if env k \<noteq> [] then (case sscanf_int (env k) of Some n \<Rightarrow> n | None \<Rightarrow> def) else def)"

definition LoadConfig :: "(string \<Rightarrow> string) \<Rightarrow> app_config" where
  "LoadConfig env =
     \<lparr>ac_Port = envOr env ''PORT'' ''8080'',
      ac_WalletMgmtURL = env ''WALLET_MGMT_URL'',
      ac_EventBusURL = env ''EVENT_BUS_URL'',
      ac_BroadcastTimeout = envDur env ''BROADCAST_TIMEOUT'' (10 * second),
      ac_BroadcastRetryMax = envInt env ''BROADCAST_RETRY_MAX'' 3,
      ac_ConfirmationPoll = envDur env ''CONFIRMATION_POLL_INTERVAL'' (2 * second),
      ac_FeeRefresh = envDur env ''FEE_ESTIMATE_REFRESH'' (15 * second)\<rparr>"

section \<open>Adapters\<close>

definition isEVM :: "string \<Rightarrow> bool" where
  "isEVM cid \<longleftrightarrow> cid = ''ethereum'' \<or> cid = ''polygon'' \<or> cid = ''arbitrum'' \<or> cid = ''optimism'' \<or> cid = ''base''"

datatype built = BuiltEVM evm_adapter | BuiltSolana solana_adapter | BuiltBitcoin bitcoin_adapter | BuiltStub stub_adapter

definition plain_stub :: "string \<Rightarrow> u64 \<Rightarrow> stub_adapter" where
  "plain_stub cid finality = NewStubAdapter \<lparr>so_ChainID = cid, so_FinalityBlocks = finality, so_Height = 0, so_Balance = None,
     so_FeeEstimate = None, so_BroadcastFn = None, so_BroadcastErr = None\<rparr>"

definition buildAdapter :: "chain_config \<Rightarrow> built" where
  "buildAdapter c =
     (if isEVM (cc_ChainID c) then BuiltEVM (NewEVMAdapter c)
      else if cc_ChainID c = ''solana'' then BuiltSolana (NewSolanaAdapter c)
      else if cc_ChainID c = ''bitcoin'' then BuiltBitcoin (NewBitcoinAdapter c)
      else BuiltStub (plain_stub (cc_ChainID c) (cc_FinalityBlocks c)))"

text \<open>
  The adapters of one registry act on one world: the nodes, and the states of the stubs by chain. A
  stub that has not been used yet is as it was made.
\<close>

type_synonym 'w world = "'w \<times> (string, stub_adapter) gomap"

definition on_nodes :: "'w chain_adapter \<Rightarrow> 'w world chain_adapter" where
  "on_nodes a =
     \<lparr>ad_ChainID = ad_ChainID a, ad_Broadcast = (\<lambda>b w. let (r, n) = ad_Broadcast a b (fst w) in (r, n, snd w)),
      ad_GetTx = (\<lambda>h w. ad_GetTx a h (fst w)), ad_GetTxStatus = (\<lambda>h w. ad_GetTxStatus a h (fst w)),
      ad_EstimateFee = (\<lambda>r w. ad_EstimateFee a r (fst w)), ad_Height = (\<lambda>w. ad_Height a (fst w)),
      ad_Balance = (\<lambda>addr w. ad_Balance a addr (fst w)), ad_FinalityBlocks = ad_FinalityBlocks a\<rparr>"

definition stub_now :: "stub_adapter \<Rightarrow> 'w world \<Rightarrow> stub_adapter" where
  "stub_now s0 w = (case map_of (snd w) (sa_chainID s0) of None \<Rightarrow> s0 | Some s \<Rightarrow> s)"

definition on_stub :: "stub_adapter \<Rightarrow> 'w world chain_adapter" where
  "on_stub s0 =
     \<lparr>ad_ChainID = sa_chainID s0,
      ad_Broadcast = (\<lambda>b w. let (r, s) = stub_Broadcast b (stub_now s0 w) in (r, fst w, AList.update (sa_chainID s0) s (snd w))),
      ad_GetTx = (\<lambda>h w. stub_GetTx h (stub_now s0 w)), ad_GetTxStatus = (\<lambda>h w. stub_GetTxStatus h (stub_now s0 w)),
      ad_EstimateFee = (\<lambda>r w. stub_EstimateFee r (stub_now s0 w)), ad_Height = (\<lambda>w. stub_Height (stub_now s0 w)),
      ad_Balance = (\<lambda>addr w. stub_Balance addr (stub_now s0 w)), ad_FinalityBlocks = sa_finality s0\<rparr>"

definition adapter_ops :: "'w exchange \<Rightarrow> 'd decimal_ops \<Rightarrow> built \<Rightarrow> 'w world chain_adapter" where
  "adapter_ops x D b =
     (case b of
        BuiltEVM e \<Rightarrow> on_nodes (evm_ops x e)
      | BuiltSolana s \<Rightarrow> on_nodes (sol_ops x s)
      | BuiltBitcoin c \<Rightarrow> on_nodes (btc_ops x D c)
      | BuiltStub s \<Rightarrow> on_stub s)"

text \<open>\<open>order\<close> is the order in which the ids of the registry come out of its map.\<close>

definition lookupAdapter :: "(string list \<Rightarrow> string list) \<Rightarrow> 'v registry \<Rightarrow> 'v chain_adapter option" where
  "lookupAdapter order reg =
     (case order (Chains reg) of
        [] \<Rightarrow> None
      | c # _ \<Rightarrow> (case registry_Get c reg of Inr a \<Rightarrow> Some a | Inl _ \<Rightarrow> None))"

section \<open>Build\<close>

datatype stores = PgStores pg_db | MemStores mem_all

datatype wallet = HTTPWallet http_client | MockWallet wallet_mock

record app_follower =
  af_chain :: string
  af_poll :: duration
  af_detector :: bool

record http_server =
  hv_Addr :: string
  hv_ReadHeaderTimeout :: duration

record ('w, 'k) server =
  sr_cfg :: app_config
  sr_registry :: "'w world registry"
  sr_stores :: stores
  sr_publisher :: publisher_choice
  sr_auditLog :: audit_log
  sr_auditSink :: "'k audit_sink option"
  sr_wallet :: wallet
  sr_prepay :: prepay_manager
  sr_pool :: worker_pool
  sr_finality :: u64
  sr_watcher :: watcher
  sr_options :: options
  sr_estimators :: "(string, estimator) gomap"
  sr_followers :: "app_follower list"
  sr_http :: http_server

text \<open>
  The server. The confirmation pool keeps its adapter's finality. \<open>None\<close> as the result of \<open>Build\<close> is
  the panic of \<open>NewWorkerPool\<close> on a \<open>nil\<close> adapter.
\<close>

text \<open>What opening the database meets: the errors of connecting, of the ping and of the migration.\<close>

record db_faults =
  df_open :: "error option"
  df_ping :: "error option"
  df_migrate :: "error option"

definition build_stores :: "(string \<Rightarrow> string) \<Rightarrow> db_faults \<Rightarrow> pg_db \<Rightarrow> bool \<Rightarrow> stores result" where
  "build_stores env df db devMode =
     (if env ''DB_URL'' \<noteq> [] then
        (case pg_Open (df_open df) (df_ping df) (df_migrate df) db of
           Inl err \<Rightarrow> Inl (ErrWrapped ''open postgres'' err)
         | Inr pg \<Rightarrow> Inr (PgStores pg))
      else if \<not> devMode then Inl (ErrMessage ''DB_URL not set and DEV_MODE!=1; refusing to start in production mode'')
      else Inr (MemStores NewAll))"

definition build_publisher :: "app_config \<Rightarrow> publisher_choice" where
  "build_publisher cfg =
     (if ac_EventBusURL cfg \<noteq> [] then
        (case NewPublisherFromURL (ac_EventBusURL cfg) of Inr pub \<Rightarrow> pub | Inl _ \<Rightarrow> NopPublisher)
      else NopPublisher)"

definition build_wallet :: "app_config \<Rightarrow> bool \<Rightarrow> wallet result" where
  "build_wallet cfg devMode =
     (if ac_WalletMgmtURL cfg \<noteq> [] then Inr (HTTPWallet (NewHTTPClient (ac_WalletMgmtURL cfg) (5 * second)))
      else if \<not> devMode then Inl (ErrMessage ''WALLET_MGMT_URL not set and DEV_MODE!=1; refusing to start in production mode'')
      else Inr (MockWallet (NewMock ''0xfunding'' 0)))"

definition build_chains :: "(string \<Rightarrow> string) \<Rightarrow> bool \<Rightarrow> chain_config list result" where
  "build_chains env devMode =
     (case Load env of
        Inr cfgs \<Rightarrow> Inr cfgs
      | Inl err \<Rightarrow>
          if \<not> devMode then Inl (ErrWrapped ''CHAINS_SUPPORTED config load failed and DEV_MODE!=1'' err) else Inr [])"

definition build_registry ::
  "'w exchange \<Rightarrow> 'd decimal_ops \<Rightarrow> chain_config list \<Rightarrow> bool \<Rightarrow> 'w world registry result" where
  "build_registry x D cfgs devMode =
     (let reg = foldl (\<lambda>reg c. Register (adapter_ops x D (buildAdapter c)) reg) NewRegistry cfgs in
      if length (Chains reg) = 0 then
        (if \<not> devMode then Inl (ErrMessage ''no chain adapters registered and DEV_MODE!=1; refusing to start with stub-only registry in production mode'')
         else Inr (Register (on_stub (plain_stub ''stub'' 3)) reg))
      else Inr reg)"

text \<open>
  The followers: one per configured chain, with a detector, and one without for a registered stub. A
  later configuration of the same chain replaces the earlier one. In Go they are a map; the order of the
  list says nothing.
\<close>

definition build_followers :: "'v registry \<Rightarrow> app_config \<Rightarrow> chain_config list \<Rightarrow> app_follower list" where
  "build_followers reg cfg cfgs =
     (let poll = (if ac_ConfirmationPoll cfg \<le> 0 then 2 * second else ac_ConfirmationPoll cfg);
          ids = filter (\<lambda>c. map_of reg c \<noteq> None) (remdups (map cc_ChainID cfgs));
          fs = map (\<lambda>c. \<lparr>af_chain = c, af_poll = poll, af_detector = True\<rparr>) ids in
      if ''stub'' \<notin> set ids \<and> map_of reg ''stub'' \<noteq> None
      then fs @ [\<lparr>af_chain = ''stub'', af_poll = poll, af_detector = False\<rparr>] else fs)"

definition Build ::
  "'w exchange \<Rightarrow> 'd decimal_ops \<Rightarrow> (string list \<Rightarrow> string list) \<Rightarrow> (string list \<Rightarrow> 'k audit_sink) \<Rightarrow> db_faults \<Rightarrow> pg_db \<Rightarrow>
    (string \<Rightarrow> string) \<Rightarrow> app_config \<Rightarrow> ('w, 'k) server result option" where
  "Build x D order connect df db env cfg =
     (let devMode = (env ''DEV_MODE'' = ''1'') in
      case build_chains env devMode of
        Inl err \<Rightarrow> Some (Inl err)
      | Inr cfgs \<Rightarrow>
      (case build_registry x D cfgs devMode of
        Inl err \<Rightarrow> Some (Inl err)
      | Inr reg \<Rightarrow>
      (case build_stores env df db devMode of
        Inl err \<Rightarrow> Some (Inl err)
      | Inr sts \<Rightarrow>
      (case newAuditSinkFromEnv connect devMode (env ''KAFKA_BROKERS'') of
        Inl err \<Rightarrow> Some (Inl err)
      | Inr sink \<Rightarrow>
      (case build_wallet cfg devMode of
        Inl err \<Rightarrow> Some (Inl err)
      | Inr wallet \<Rightarrow>
      (case lookupAdapter order reg of
        None \<Rightarrow> None
      | Some adapter \<Rightarrow> Some (Inr
          \<lparr>sr_cfg = cfg, sr_registry = reg, sr_stores = sts, sr_publisher = build_publisher cfg,
           sr_auditLog = audit_New 1024, sr_auditSink = sink, sr_wallet = wallet,
           sr_prepay = NewManager (NewCoordinator (10 * second) (5 * second)) (30 * second),
           sr_pool = NewWorkerPool 4 adapter, sr_finality = ad_FinalityBlocks adapter,
           sr_watcher = NewWatcher True (5 * 60 * second),
           sr_options = \<lparr>op_Timeout = ac_BroadcastTimeout cfg, op_RetryMax = ac_BroadcastRetryMax cfg\<rparr>,
           sr_estimators = foldl (\<lambda>m c. AList.update (cc_ChainID c)
             (NewEstimator (cc_ChainID c) (cc_GasStrategy c) (cc_FinalityBlocks c)) m) [] cfgs,
           sr_followers = build_followers reg cfg cfgs,
           sr_http = \<lparr>hv_Addr = '':'' @ ac_Port cfg, hv_ReadHeaderTimeout = 5 * second\<rparr>\<rparr>)))))))"

text \<open>
  What the REST API is given: the server's registry and estimators, and the broadcast service over the
  same registry. The operations of the stores, the lock client, the wallet client and the bus are the ones of the
  stores, the wallet and the publisher the server was built with.
\<close>

definition build_deps ::
  "('w, 'k) server \<Rightarrow> 'b broadcast_store \<Rightarrow> 'c confirmation_store \<Rightarrow> 't tip_store \<Rightarrow> 'r redis_client \<Rightarrow> 'l wallet_client \<Rightarrow>
    ('o, 'p) bus \<Rightarrow> ('b, 'c, 'w world, 'r, 'l, 'o, 'p, 't) deps" where
  "build_deps srv broadcasts confirms tips redis wallet bus =
     \<lparr>dp_Registry = sr_registry srv,
      dp_Broadcast = NewService (sr_registry srv) broadcasts (Some confirms) (Some (sr_prepay srv, redis, wallet)) True (Some bus) True
        (sr_options srv),
      dp_Estimators = sr_estimators srv, dp_Confirms = confirms, dp_Tips = tips, dp_WSHandler = True\<rparr>"

section \<open>The registry that Build makes\<close>

lemma load_chain_id: "load_chain env ds cid = Inr cfg \<Longrightarrow> cc_ChainID cfg = cid"
  by (auto simp: load_chain_def Let_def split: if_splits option.splits)

lemma load_loop_ids:
  "load_loop env ds parts cfgs = Inr out \<Longrightarrow> list_all (\<lambda>c. cc_ChainID c \<noteq> []) cfgs \<Longrightarrow> list_all (\<lambda>c. cc_ChainID c \<noteq> []) out"
  by (induction env ds parts cfgs rule: load_loop.induct)
    (auto simp: Let_def load_chain_id split: if_splits sum.splits)

lemma Load_ids: "Load env = Inr cfgs \<Longrightarrow> c \<in> set cfgs \<Longrightarrow> cc_ChainID c \<noteq> []"
  using load_loop_ids [of env _ _ "[]" cfgs] by (auto simp: Load_def Let_def list_all_iff split: if_splits)

lemma adapter_ops_id: "cc_ChainID c \<noteq> [] \<Longrightarrow> ad_ChainID (adapter_ops x D (buildAdapter c)) = cc_ChainID c"
  by (auto simp: buildAdapter_def adapter_ops_def on_nodes_def on_stub_def plain_stub_def evm_ops_def NewEVMAdapter_def
      sol_ops_def NewSolanaAdapter_def btc_ops_def NewBitcoinAdapter_def NewStubAdapter_def)

lemma registered_all:
  "fst ` set (foldl (\<lambda>reg c. Register (f c) reg) reg cfgs) = fst ` set reg \<union> (\<lambda>c. ad_ChainID (f c)) ` set cfgs"
  by (induction cfgs arbitrary: reg) (auto simp: Register_def dom_update)

lemma registered_one:
  assumes "\<forall>c' \<in> set cfgs. ad_ChainID (f c') = cc_ChainID c'" and "map_of reg cid = Some (f c0) \<and> cc_ChainID c0 = cid \<or> (\<exists>c \<in> set cfgs. cc_ChainID c = cid)"
  shows "\<exists>c. cc_ChainID c = cid \<and> map_of (foldl (\<lambda>reg c. Register (f c) reg) reg cfgs) cid = Some (f c)"
  using assms
proof (induction cfgs arbitrary: reg c0)
  case (Cons c cfgs)
  have "map_of (Register (f c) reg) cid = Some (f (if cc_ChainID c = cid then c else c0)) \<and> cc_ChainID (if cc_ChainID c = cid then c else c0) = cid \<or>
      (\<exists>c \<in> set cfgs. cc_ChainID c = cid)"
    using Cons.prems by (auto simp: Register_def update_conv)
  from Cons.IH [OF _ this] Cons.prems(1) show ?case by simp
qed auto

text \<open>In production the registry holds exactly the configured chains.\<close>

lemma build_registry_production:
  assumes "Load env = Inr cfgs" and "build_registry x D cfgs False = Inr reg"
  shows "fst ` set reg = cc_ChainID ` set cfgs \<and> cfgs \<noteq> [] \<and>
    (\<forall>cid \<in> cc_ChainID ` set cfgs. \<exists>c. cc_ChainID c = cid \<and> map_of reg cid = Some (adapter_ops x D (buildAdapter c)))"
proof -
  let ?f = "\<lambda>c. adapter_ops x D (buildAdapter c)"
  have ids: "\<forall>c \<in> set cfgs. ad_ChainID (?f c) = cc_ChainID c" using Load_ids [OF assms(1)] adapter_ops_id by blast
  have reg: "reg = foldl (\<lambda>reg c. Register (?f c) reg) NewRegistry cfgs" "length (Chains reg) \<noteq> 0"
    using assms(2) by (auto simp: build_registry_def Let_def split: if_splits)
  have "fst ` set reg = cc_ChainID ` set cfgs"
    unfolding reg(1) registered_all using ids by (auto simp: NewRegistry_def)
  moreover have "cfgs \<noteq> []" using reg by (auto simp: NewRegistry_def Chains_def)
  moreover have "\<exists>c. cc_ChainID c = cid \<and> map_of reg cid = Some (?f c)" if "cid \<in> cc_ChainID ` set cfgs" for cid
    unfolding reg(1) using registered_one [of cfgs ?f NewRegistry cid] ids that by (auto simp: image_iff)
  ultimately show ?thesis by blast
qed

lemma build_registry_fails:
  "Load env = Inr cfgs \<Longrightarrow> (\<exists>reg. build_registry x D cfgs False = Inr reg) \<longleftrightarrow> cfgs \<noteq> []"
  using registered_all [of "\<lambda>c. adapter_ops x D (buildAdapter c)" NewRegistry cfgs]
  by (auto simp: build_registry_def Chains_def NewRegistry_def Let_def)

lemma lookupAdapter_some:
  assumes "\<And>xs. set (order xs) = set xs" and "reg \<noteq> []"
  shows "\<exists>a. lookupAdapter order reg = Some a"
proof -
  obtain c cs where cs: "order (Chains reg) = c # cs"
    using assms(1) [of "Chains reg"] assms(2) by (cases "order (Chains reg)") (auto simp: Chains_def)
  then have "c \<in> fst ` set reg" using assms(1) [of "Chains reg"] by (auto simp: Chains_def)
  then obtain a where "map_of reg c = Some a" by (metis map_of_eq_None_iff not_None_eq)
  with cs show ?thesis by (simp add: lookupAdapter_def registry_Get_def)
qed

lemma build_registry_nonempty: "build_registry x D cfgs dev = Inr reg \<Longrightarrow> reg \<noteq> []"
  by (auto simp: build_registry_def Chains_def Register_def Let_def split: if_splits)

lemma csv_parts_Nil: "csv_parts [] = []"
  by (simp add: csv_parts_def trim_space_def)

lemma audit_sink_production:
  "(\<exists>s. newAuditSinkFromEnv connect False brokers = Inr s) \<longleftrightarrow> csv_parts brokers \<noteq> []"
  "newAuditSinkFromEnv connect False brokers = Inr s \<Longrightarrow> s = Some (connect (csv_parts brokers))"
  by (auto simp: newAuditSinkFromEnv_def newKafkaAuditSink_def csv_parts_Nil split: sum.splits if_splits)

definition db_opens :: "db_faults \<Rightarrow> bool" where
  "db_opens df \<longleftrightarrow> df_open df = None \<and> df_ping df = None \<and> df_migrate df = None"

lemma build_stores_production:
  "build_stores env df db False = Inr st \<longleftrightarrow> env ''DB_URL'' \<noteq> [] \<and> db_opens df \<and> st = PgStores db"
  by (auto simp: build_stores_def pg_Open_def db_opens_def split: option.splits)

lemma build_wallet_production:
  "build_wallet cfg False = Inr wl \<longleftrightarrow> ac_WalletMgmtURL cfg \<noteq> [] \<and> wl = HTTPWallet (NewHTTPClient (ac_WalletMgmtURL cfg) (5 * second))"
  by (auto simp: build_wallet_def)

lemma build_chains_production: "build_chains env False = Inr cfgs \<longleftrightarrow> Load env = Inr cfgs"
  by (auto simp: build_chains_def split: sum.splits)

text \<open>The steps of a build that succeeds.\<close>

lemma Build_steps:
  assumes "env ''DEV_MODE'' \<noteq> ''1''" and "\<And>xs. set (order xs) = set xs"
  shows "Build x D order connect df db env cfg = Some (Inr srv) \<Longrightarrow>
      \<exists>cfgs. Load env = Inr cfgs \<and> build_registry x D cfgs False = Inr (sr_registry srv) \<and>
        build_stores env df db False = Inr (sr_stores srv) \<and>
        newAuditSinkFromEnv connect False (env ''KAFKA_BROKERS'') = Inr (sr_auditSink srv) \<and>
        build_wallet cfg False = Inr (sr_wallet srv)"
    and "Load env = Inr cfgs \<Longrightarrow> build_registry x D cfgs False = Inr reg \<Longrightarrow> build_stores env df db False = Inr sts \<Longrightarrow>
      newAuditSinkFromEnv connect False (env ''KAFKA_BROKERS'') = Inr sink \<Longrightarrow> build_wallet cfg False = Inr wl \<Longrightarrow>
      \<exists>srv. Build x D order connect df db env cfg = Some (Inr srv)"
    and "Build x D order connect df db env cfg \<noteq> None"
proof -
  show "Build x D order connect df db env cfg = Some (Inr srv) \<Longrightarrow>
      \<exists>cfgs. Load env = Inr cfgs \<and> build_registry x D cfgs False = Inr (sr_registry srv) \<and>
        build_stores env df db False = Inr (sr_stores srv) \<and>
        newAuditSinkFromEnv connect False (env ''KAFKA_BROKERS'') = Inr (sr_auditSink srv) \<and>
        build_wallet cfg False = Inr (sr_wallet srv)"
    using assms(1) by (auto simp: Build_def build_chains_production split: sum.splits option.splits)
  have some: "\<exists>a. lookupAdapter order reg = Some a" if "build_registry x D cfgs dev = Inr reg" for cfgs dev reg
    using lookupAdapter_some assms(2) build_registry_nonempty [OF that] by blast
  show "Build x D order connect df db env cfg \<noteq> None"
    using some by (fastforce simp: Build_def Let_def split: sum.splits option.splits)
  assume "Load env = Inr cfgs" "build_registry x D cfgs False = Inr reg" "build_stores env df db False = Inr sts"
    "newAuditSinkFromEnv connect False (env ''KAFKA_BROKERS'') = Inr sink" "build_wallet cfg False = Inr wl"
  moreover obtain a where "lookupAdapter order reg = Some a" using some calculation(2) by blast
  ultimately show "\<exists>srv. Build x D order connect df db env cfg = Some (Inr srv)"
    using assms(1) by (simp add: Build_def build_chains_def)
qed

text \<open>What a server that starts in production has, and what it needed.\<close>

lemma production_server:
  assumes "env ''DEV_MODE'' \<noteq> ''1''" and "\<And>xs. set (order xs) = set xs"
    and "Build x D order connect df db env cfg = Some (Inr srv)"
  obtains cfgs where "Load env = Inr cfgs" "cfgs \<noteq> []" "build_registry x D cfgs False = Inr (sr_registry srv)"
    "set (Chains (sr_registry srv)) = cc_ChainID ` set cfgs" "sr_stores srv = PgStores db"
    "\<exists>c. sr_wallet srv = HTTPWallet c" "sr_auditSink srv \<noteq> None" "env ''DB_URL'' \<noteq> []" "db_opens df"
    "csv_parts (env ''KAFKA_BROKERS'') \<noteq> []" "ac_WalletMgmtURL cfg \<noteq> []"
proof -
  obtain cfgs where cfgs: "Load env = Inr cfgs" "build_registry x D cfgs False = Inr (sr_registry srv)"
    "build_stores env df db False = Inr (sr_stores srv)"
    "newAuditSinkFromEnv connect False (env ''KAFKA_BROKERS'') = Inr (sr_auditSink srv)"
    "build_wallet cfg False = Inr (sr_wallet srv)"
    using Build_steps(1) [OF assms] by blast
  note reg = build_registry_production [OF cfgs(1,2)]
  have sink: "sr_auditSink srv \<noteq> None" "csv_parts (env ''KAFKA_BROKERS'') \<noteq> []"
    using audit_sink_production(2) [OF cfgs(4)] audit_sink_production(1) [of connect "env ''KAFKA_BROKERS''"] cfgs(4) by auto
  show ?thesis
    using that [OF cfgs(1) _ cfgs(2)] reg sink cfgs(3,5)
    by (simp add: Chains_def build_stores_production build_wallet_production)
qed

lemma production_builds:
  assumes "env ''DEV_MODE'' \<noteq> ''1''" and "\<And>xs. set (order xs) = set xs"
    and l: "Load env = Inr (c # cs)" and "env ''DB_URL'' \<noteq> []" and "db_opens df"
    and "csv_parts (env ''KAFKA_BROKERS'') \<noteq> []" and "ac_WalletMgmtURL cfg \<noteq> []"
  shows "\<exists>srv. Build x D order connect df db env cfg = Some (Inr srv)"
proof -
  obtain reg where reg: "build_registry x D (c # cs) False = Inr reg" using build_registry_fails [OF l] by blast
  obtain s where s: "newAuditSinkFromEnv connect False (env ''KAFKA_BROKERS'') = Inr s"
    using assms(6) audit_sink_production(1) by blast
  show ?thesis
    by (rule Build_steps(2) [OF assms(1,2) l reg _ s]) (use assms in \<open>simp_all add: build_stores_production build_wallet_production\<close>)
qed

text \<open>
  C8. Outside of development mode the server starts if and only if at least one chain is configured, the
  database is named and opens, the audit topic has a broker and the wallet service has a URL; it never
  panics while it is built. A server that starts uses PostgreSQL, the wallet service over HTTP and the
  audit topic, and its registry has exactly the configured chains.
\<close>

theorem production_builds_iff:
  assumes "env ''DEV_MODE'' \<noteq> ''1''" and "\<And>xs. set (order xs) = set xs"
  shows "Build x D order connect df db env cfg \<noteq> None \<and>
    ((\<exists>srv. Build x D order connect df db env cfg = Some (Inr srv)) \<longleftrightarrow>
      (\<exists>c cs. Load env = Inr (c # cs)) \<and> env ''DB_URL'' \<noteq> [] \<and> db_opens df \<and>
      csv_parts (env ''KAFKA_BROKERS'') \<noteq> [] \<and> ac_WalletMgmtURL cfg \<noteq> []) \<and>
    (\<forall>srv. Build x D order connect df db env cfg = Some (Inr srv) \<longrightarrow>
      sr_stores srv = PgStores db \<and> (\<exists>c. sr_wallet srv = HTTPWallet c) \<and> sr_auditSink srv \<noteq> None \<and>
      (\<exists>cfgs. Load env = Inr cfgs \<and> set (Chains (sr_registry srv)) = cc_ChainID ` set cfgs))"
proof (intro conjI allI impI iffI)
  show "Build x D order connect df db env cfg \<noteq> None" using assms by (rule Build_steps(3))
  assume "\<exists>srv. Build x D order connect df db env cfg = Some (Inr srv)"
  then obtain srv where "Build x D order connect df db env cfg = Some (Inr srv)" by blast
  with assms show "\<exists>c cs. Load env = Inr (c # cs)" "env ''DB_URL'' \<noteq> []" "db_opens df"
    "csv_parts (env ''KAFKA_BROKERS'') \<noteq> []" "ac_WalletMgmtURL cfg \<noteq> []"
    by (rule production_server; simp add: neq_Nil_conv)+
next
  assume "(\<exists>c cs. Load env = Inr (c # cs)) \<and> env ''DB_URL'' \<noteq> [] \<and> db_opens df \<and>
      csv_parts (env ''KAFKA_BROKERS'') \<noteq> [] \<and> ac_WalletMgmtURL cfg \<noteq> []"
  then show "\<exists>srv. Build x D order connect df db env cfg = Some (Inr srv)"
    by (elim exE conjE) (rule production_builds; (rule assms | assumption))
next
  fix srv assume "Build x D order connect df db env cfg = Some (Inr srv)"
  with assms show "sr_stores srv = PgStores db" "\<exists>c. sr_wallet srv = HTTPWallet c" "sr_auditSink srv \<noteq> None"
    "\<exists>cfgs. Load env = Inr cfgs \<and> set (Chains (sr_registry srv)) = cc_ChainID ` set cfgs"
    by (rule production_server; simp)+
qed

section \<open>Chains without an adapter of their own\<close>

lemma on_stub_plain:
  fixes w :: "'w world"
  assumes "\<And>s. map_of (snd w) (sa_chainID s0) = Some s \<Longrightarrow> stub_plain s \<and> sa_broadcastErr s = None"
    and "stub_plain s0" and "sa_broadcastErr s0 = None"
  shows "\<exists>s. ad_Broadcast (on_stub s0) b w = (Inr (stubHash b), fst w, AList.update (sa_chainID s0) s (snd w)) \<and>
    stub_plain s \<and> sa_broadcastErr s = None"
proof -
  have "stub_plain (stub_now s0 w) \<and> sa_broadcastErr (stub_now s0 w) = None"
    using assms by (simp add: stub_now_def split: option.split)
  then show ?thesis
    by (intro exI [of _ "(stub_now s0 w)\<lparr>sa_broadcasts := sa_broadcasts (stub_now s0 w) + 1, sa_lastBroadcast := b\<rparr>"])
      (simp add: on_stub_def stub_Broadcast_def stub_plain_def Let_def)
qed

lemma on_stub_run:
  assumes "stub_plain s0" and "sa_broadcastErr s0 = None"
  shows "\<exists>ss. run (\<lambda>w b. snd (ad_Broadcast (on_stub s0) b w)) (n, []) bs = (n, ss) \<and>
    (\<forall>s. map_of ss (sa_chainID s0) = Some s \<longrightarrow> stub_plain s \<and> sa_broadcastErr s = None)"
proof (induction bs rule: rev_induct)
  case (snoc b bs)
  then obtain ss where ss: "run (\<lambda>w b. snd (ad_Broadcast (on_stub s0) b w)) (n, []) bs = (n, ss)"
    "\<forall>s. map_of ss (sa_chainID s0) = Some s \<longrightarrow> stub_plain s \<and> sa_broadcastErr s = None" by blast
  obtain s where "ad_Broadcast (on_stub s0) b (n, ss) = (Inr (stubHash b), n, AList.update (sa_chainID s0) s ss)"
    "stub_plain s \<and> sa_broadcastErr s = None"
    using on_stub_plain [of "(n, ss)" s0 b] ss(2) assms by auto
  then show ?case using ss(1) by simp
qed simp

lemma on_stub_silent:
  assumes "stub_plain s0" and "sa_broadcastErr s0 = None"
  shows "\<exists>stubs. ad_Broadcast (on_stub s0) b (run (\<lambda>w b. snd (ad_Broadcast (on_stub s0) b w)) (n, []) bs) = (Inr (stubHash b), n, stubs)"
proof -
  let ?w = "run (\<lambda>w b. snd (ad_Broadcast (on_stub s0) b w)) (n, []) bs"
  obtain ss where w: "?w = (n, ss)" and "\<forall>s. map_of ss (sa_chainID s0) = Some s \<longrightarrow> stub_plain s \<and> sa_broadcastErr s = None"
    using on_stub_run [OF assms, of n bs] by (elim exE conjE)
  then obtain s where "ad_Broadcast (on_stub s0) b (n, ss) = (Inr (stubHash b), fst (n, ss), AList.update (sa_chainID s0) s (snd (n, ss)))"
    using on_stub_plain [of "(n, ss)" s0 b, OF _ assms] by auto
  then show ?thesis unfolding w by simp
qed

lemma on_stub_height_step:
  assumes "\<And>s. map_of (snd w) (sa_chainID s0) = Some s \<Longrightarrow> sa_height s = sa_height s0"
    and "map_of (snd (snd (ad_Broadcast (on_stub s0) b w))) (sa_chainID s0) = Some s"
  shows "sa_height s = sa_height s0"
proof -
  have "sa_height (snd (stub_Broadcast b t)) = sa_height t" for t
    by (simp add: stub_Broadcast_def Let_def split: option.split)
  moreover have "sa_height (stub_now s0 w) = sa_height s0" using assms(1) by (simp add: stub_now_def split: option.split)
  ultimately show ?thesis using assms(2) by (auto simp: on_stub_def Let_def case_prod_unfold)
qed

lemma on_stub_height:
  "ad_Height (on_stub s0) (run (\<lambda>w b. snd (ad_Broadcast (on_stub s0) b w)) (n, []) bs) = Inr (sa_height s0)"
proof -
  have "map_of (snd (run (\<lambda>w b. snd (ad_Broadcast (on_stub s0) b w)) (n, []) bs)) (sa_chainID s0) = Some s \<Longrightarrow> sa_height s = sa_height s0" for s
  proof (induction bs arbitrary: s rule: rev_induct)
    case (snoc b bs)
    then show ?case using on_stub_height_step [of "run (\<lambda>w b. snd (ad_Broadcast (on_stub s0) b w)) (n, []) bs" s0 b s] by simp
  qed simp
  then show ?thesis by (auto simp: on_stub_def stub_Height_def stub_now_def split: option.split)
qed

lemma unknown_chain_adapter:
  assumes "env ''DEV_MODE'' \<noteq> ''1''" and "\<And>xs. set (order xs) = set xs"
    and "Build x D order connect df db env cfg = Some (Inr srv)" and "Load env = Inr cfgs" and "c \<in> set cfgs"
    and "\<not> isEVM (cc_ChainID c)" and "cc_ChainID c \<noteq> ''solana''" and "cc_ChainID c \<noteq> ''bitcoin''"
  shows "\<exists>finality. registry_Get (cc_ChainID c) (sr_registry srv) = Inr (on_stub (plain_stub (cc_ChainID c) finality))"
proof -
  have "build_registry x D cfgs False = Inr (sr_registry srv)"
    using production_server [OF assms(1-3)] assms(4) by (metis Inr_inject)
  from build_registry_production [OF assms(4) this] assms(5)
  obtain c' where c': "cc_ChainID c' = cc_ChainID c"
    "map_of (sr_registry srv) (cc_ChainID c) = Some (adapter_ops x D (buildAdapter c'))" by blast
  then show ?thesis
    using assms(6-8) by (intro exI [of _ "cc_FinalityBlocks c'"]) (simp add: registry_Get_def buildAdapter_def adapter_ops_def)
qed

lemma plain_stub_simps [simp]:
  "stub_plain (plain_stub cid finality)" "sa_broadcastErr (plain_stub cid finality) = None" "sa_height (plain_stub cid finality) = 0"
  by (simp_all add: plain_stub_def NewStubAdapter_def stub_plain_def)

section \<open>Settings\<close>

lemma envDur_bounds:
  assumes "- (2 ^ 63) \<le> d" and "d < 2 ^ 63"
  shows "- (2 ^ 63) \<le> envDur env k d \<and> envDur env k d < 2 ^ 63"
  using assms ParseDuration_bounds [of "env k"] by (auto simp: envDur_def split: option.split)

lemma envInt_bounds:
  assumes "- (2 ^ 63) \<le> d" and "d < 2 ^ 63"
  shows "- (2 ^ 63) \<le> envInt env k d \<and> envInt env k d < 2 ^ 63"
  using assms sscanf_int_bounds [of "env k"] by (auto simp: envInt_def split: option.split)

text \<open>
  Whatever the environment says, the timeout of a submission, the number of retries and the poll interval
  of a follower that the server works with are positive and fit in 64 bits; and a setting written as a whole number
  of a unit is the one that is used.
\<close>

theorem settings_sound:
  "0 < sc_timeout (NewService reg b c prepay watcher bus tracker
       \<lparr>op_Timeout = ac_BroadcastTimeout (LoadConfig env), op_RetryMax = ac_BroadcastRetryMax (LoadConfig env)\<rparr>) \<and>
   sc_timeout (NewService reg b c prepay watcher bus tracker
       \<lparr>op_Timeout = ac_BroadcastTimeout (LoadConfig env), op_RetryMax = ac_BroadcastRetryMax (LoadConfig env)\<rparr>) < 2 ^ 63 \<and>
   sc_retryMax (NewService reg b c prepay watcher bus tracker
       \<lparr>op_Timeout = ac_BroadcastTimeout (LoadConfig env), op_RetryMax = ac_BroadcastRetryMax (LoadConfig env)\<rparr>) \<in> {1..<2 ^ 63} \<and>
   fo_poll (NewFollower a tips (ac_ConfirmationPoll (LoadConfig env))) \<in> {1..<2 ^ 63} \<and>
   (env ''BROADCAST_TIMEOUT'' = decimal n @ u \<and> map_of unitMap u = Some unit \<and> n * unit < 2 ^ 63 \<longrightarrow>
      ac_BroadcastTimeout (LoadConfig env) = int (n * unit))"
proof -
  have t: "ac_BroadcastTimeout (LoadConfig env) < 2 ^ 63"
    using envDur_bounds [of "10 * second"] by (simp add: LoadConfig_def second_def)
  have r: "ac_BroadcastRetryMax (LoadConfig env) < 2 ^ 63"
    using envInt_bounds [of 3] by (simp add: LoadConfig_def)
  have p: "ac_ConfirmationPoll (LoadConfig env) < 2 ^ 63"
    using envDur_bounds [of "2 * second"] by (simp add: LoadConfig_def second_def)
  have "env ''BROADCAST_TIMEOUT'' = decimal n @ u \<and> map_of unitMap u = Some unit \<and> n * unit < 2 ^ 63 \<longrightarrow>
      ac_BroadcastTimeout (LoadConfig env) = int (n * unit)"
    by (auto simp: LoadConfig_def envDur_def ParseDuration_decimal)
  with t r p show ?thesis by (auto simp: NewService_def NewFollower_def second_def)
qed

section \<open>Witnesses\<close>

definition sample_settings :: "string \<Rightarrow> string \<Rightarrow> string" where
  "sample_settings ids k =
     (if k = ''CHAINS_SUPPORTED'' then ids else if k = ''DB_URL'' then ''postgres://db''
      else if k = ''KAFKA_BROKERS'' then ''k1:9092'' else if k = ''WALLET_MGMT_URL'' then ''http://wallet''
      else if k = ''BROADCAST_TIMEOUT'' then ''15s'' else [])"

definition sample_audit :: "string list \<Rightarrow> unit audit_sink" where
  "sample_audit brokers = \<lparr>as_marshal = (\<lambda>_. Inr []), as_sha256 = (\<lambda>_. []), as_marshalEnvelope = (\<lambda>_. Inr []),
     as_write = (\<lambda>_ _ k. (Inr (), k))\<rparr>"

definition sample_db :: pg_db where
  "sample_db = \<lparr>db_broadcasts = [], db_confirmations = [], db_tips = [], db_fees = [], db_reorgs = [], db_outbox = []\<rparr>"

abbreviation sample_build :: "string \<Rightarrow> (unit, unit) server result option" where
  "sample_build ids \<equiv> Build (\<lambda>_ _ _ w. (HttpFail ErrContextDone, w)) sample_decimals (\<lambda>xs. xs) sample_audit
     \<lparr>df_open = None, df_ping = None, df_migrate = None\<rparr> sample_db (sample_settings ids) (LoadConfig (sample_settings ids))"

lemma sample_settings_load:
  "Load (sample_settings ''dogecoin'') = Inr [\<lparr>cc_ChainID = ''dogecoin'', cc_RPCURLs = [], cc_WSURLs = [], cc_FinalityBlocks = 0,
     cc_GasStrategy = ''eip1559_dynamic''\<rparr>]"
  by code_simp

lemma sample_settings_simps:
  "sample_settings ids ''DEV_MODE'' \<noteq> ''1''" "sample_settings ids ''DB_URL'' \<noteq> []"
  "csv_parts (sample_settings ids ''KAFKA_BROKERS'') = [''k1:9092'']"
  "ac_WalletMgmtURL (LoadConfig (sample_settings ids)) \<noteq> []"
  by (simp_all add: sample_settings_def LoadConfig_def csv_parts_def trim_space_def ascii_space_def)

theorem production_builds_iff_witness:
  "\<exists>srv. sample_build ''dogecoin'' = Some (Inr srv) \<and> sr_stores srv = PgStores sample_db"
  using production_builds_iff [where env = "sample_settings ''dogecoin''" and order = "\<lambda>xs. xs"
      and x = "\<lambda>_ _ _ w. (HttpFail ErrContextDone, w)" and D = sample_decimals and connect = sample_audit
      and df = "\<lparr>df_open = None, df_ping = None, df_migrate = None\<rparr>" and db = sample_db
      and cfg = "LoadConfig (sample_settings ''dogecoin'')", OF sample_settings_simps(1) refl]
  by (simp add: sample_settings_simps sample_settings_load db_opens_def) blast

theorem settings_sound_witness:
  "ac_BroadcastTimeout (LoadConfig (sample_settings [])) = 15000000000"
proof -
  have "decimal 15 = ''15''" by code_simp
  then have "sample_settings [] ''BROADCAST_TIMEOUT'' = decimal 15 @ ''s''" by (simp add: sample_settings_def)
  then have "ac_BroadcastTimeout (LoadConfig (sample_settings [])) = int (15 * 1000000000)"
    by (intro settings_sound [THEN conjunct2, THEN conjunct2, THEN conjunct2, THEN conjunct2, THEN mp, of "sample_settings []" 15 "''s''" 1000000000])
      (simp add: unitMap_def)
  then show ?thesis by simp
qed

end
