(* ===== verification/Telemetry.thy ===== *)
theory Telemetry
  imports Chain_Types
begin

text \<open>
  The tracing setup of \<open>internal/otel/otel.go\<close>. The OpenTelemetry library is outside: how a resource
  is merged, how the two exporters are made and how the two providers are shut down are parameters; what
  \<open>Init\<close> decides is modelled: when it does nothing, which endpoint and service name it uses, in which order
  it fails, what it installs in the process and what the function it returns does.
\<close>

section \<open>Providers\<close>

text \<open>
  A tracer provider exports in batches or, without an exporter, nothing; a meter provider reads
  periodically or does nothing. The parameters are the exporters and the resource of the library.
\<close>

datatype ('x, 'r) tracer_provider = PlainTracer | BatchTracer 'x duration 'r

datatype ('y, 'r) meter_provider = NoopMeter | PeriodicMeter 'y duration 'r

datatype propagator = TraceContext | Baggage

text \<open>The globals of the process, unset at first.\<close>

record ('x, 'y, 'r) otel_globals =
  og_tracer :: "('x, 'r) tracer_provider option"
  og_meter :: "('y, 'r) meter_provider option"
  og_propagators :: "propagator list"

record ('x, 'y, 'r) otel_lib =
  ol_resource :: "string \<Rightarrow> 'r result"
  ol_spanExporter :: "string \<Rightarrow> 'x result"
  ol_metricExporter :: "string \<Rightarrow> 'y result"

definition otel_install ::
  "('x, 'r) tracer_provider \<Rightarrow> ('y, 'r) meter_provider \<Rightarrow> ('x, 'y, 'r) otel_globals \<Rightarrow> ('x, 'y, 'r) otel_globals" where
  "otel_install tp mp g = g\<lparr>og_tracer := Some tp, og_meter := Some mp, og_propagators := [TraceContext, Baggage]\<rparr>"

section \<open>Init\<close>

text \<open>The function that \<open>Init\<close> returns: nothing to do, or the two providers to shut down.\<close>

datatype ('x, 'y, 'r) otel_stop = StopNothing | StopProviders "('x, 'r) tracer_provider" "('y, 'r) meter_provider"

definition otel_endpoint :: "string \<Rightarrow> string" where
  "otel_endpoint raw = trim_prefix (trim_prefix raw ''http://'') ''grpc://''"

definition otel_Init ::
  "('x, 'y, 'r) otel_lib \<Rightarrow> (string \<Rightarrow> string) \<Rightarrow> string \<Rightarrow> ('x, 'y, 'r) otel_globals \<Rightarrow>
    ('x, 'y, 'r) otel_stop result \<times> ('x, 'y, 'r) otel_globals" where
  "otel_Init lib env serviceName g =
     (let endpoint = trim_space (env ''OTEL_EXPORTER_OTLP_ENDPOINT'') in
      if endpoint = [] then (Inr StopNothing, otel_install PlainTracer NoopMeter g)
      else
        (let name = trim_space (env ''OTEL_SERVICE_NAME'');
             serviceName = (if name \<noteq> [] then name else serviceName);
             endpoint = otel_endpoint endpoint in
         case ol_resource lib serviceName of
           Inl err \<Rightarrow> (Inl (ErrWrapped ''otel resource'' err), g)
         | Inr res \<Rightarrow>
         (case ol_spanExporter lib endpoint of
           Inl err \<Rightarrow> (Inl (ErrWrapped ''otel trace exporter'' err), g)
         | Inr spanExp \<Rightarrow>
         (case ol_metricExporter lib endpoint of
           Inl err \<Rightarrow> (Inl (ErrWrapped ''otel metric exporter'' err), g)
         | Inr metricExp \<Rightarrow>
             (let tp = BatchTracer spanExp (10 * second) res;
                  mp = PeriodicMeter metricExp (10 * second) res in
              (Inr (StopProviders tp mp), otel_install tp mp g))))))"

text \<open>
  The returned function: both providers are shut down whatever the first one says, and the error of the
  tracer comes first. \<open>stopT\<close> and \<open>stopM\<close> are the library's \<open>Shutdown\<close> on a world \<open>'w\<close>.
\<close>

definition otel_shutdown ::
  "(('x, 'r) tracer_provider \<Rightarrow> 'w \<Rightarrow> unit result \<times> 'w) \<Rightarrow> (('y, 'r) meter_provider \<Rightarrow> 'w \<Rightarrow> unit result \<times> 'w) \<Rightarrow>
    ('x, 'y, 'r) otel_stop \<Rightarrow> 'w \<Rightarrow> unit result \<times> 'w" where
  "otel_shutdown stopT stopM stop w =
     (case stop of
        StopNothing \<Rightarrow> (Inr (), w)
      | StopProviders tp mp \<Rightarrow>
          (let (r, w1) = stopT tp w;
               traceErr = (case r of Inl err \<Rightarrow> Some (ErrWrapped ''trace shutdown'' err) | Inr _ \<Rightarrow> None);
               (r', w2) = stopM mp w1;
               metricErr = (case r' of Inl err \<Rightarrow> Some (ErrWrapped ''metric shutdown'' err) | Inr _ \<Rightarrow> None) in
           case traceErr of
             Some err \<Rightarrow> (Inl err, w2)
           | None \<Rightarrow> (case metricErr of Some err \<Rightarrow> (Inl err, w2) | None \<Rightarrow> (Inr (), w2))))"

section \<open>Properties\<close>

text \<open>
  \<open>Init\<close> is all or nothing. It fails only if an endpoint is set, and then the globals of the process
  are untouched. When it succeeds, a tracer, a meter
  and both propagators are installed, and the function it returns stops exactly the providers installed
  with an exporter: without an endpoint it does nothing.
\<close>

theorem otel_all_or_nothing:
  "(case otel_Init lib env service g of
      (Inl err, g') \<Rightarrow> g' = g \<and> trim_space (env ''OTEL_EXPORTER_OTLP_ENDPOINT'') \<noteq> []
    | (Inr stop, g') \<Rightarrow>
        og_propagators g' = [TraceContext, Baggage] \<and>
        (if trim_space (env ''OTEL_EXPORTER_OTLP_ENDPOINT'') = []
         then stop = StopNothing \<and> og_tracer g' = Some PlainTracer \<and> og_meter g' = Some NoopMeter
         else (\<exists>tp mp. stop = StopProviders tp mp \<and> og_tracer g' = Some tp \<and> og_meter g' = Some mp)))"
  by (simp add: otel_Init_def otel_install_def Let_def split: sum.split)

text \<open>Shutting down reaches the meter provider even when the tracer provider fails, and succeeds only if both did.\<close>

theorem otel_shutdown_reaches_both:
  "snd (otel_shutdown stopT stopM (StopProviders tp mp) w) = snd (stopM mp (snd (stopT tp w))) \<and>
   (fst (otel_shutdown stopT stopM (StopProviders tp mp) w) = Inr () \<longleftrightarrow>
      fst (stopT tp w) = Inr () \<and> fst (stopM mp (snd (stopT tp w))) = Inr ())"
  by (simp add: otel_shutdown_def Let_def case_prod_unfold split: sum.split option.split)

text \<open>
  Only \<open>http://\<close> and \<open>grpc://\<close> are taken off the endpoint. One that starts with \<open>https://\<close> reaches the exporters with
  its scheme, although they take a host and a port.
\<close>

lemma otel_endpoint_schemes:
  "otel_endpoint (''http://'' @ host) = trim_prefix host ''grpc://''"
  "otel_endpoint (''grpc://'' @ host) = host"
  "otel_endpoint (''https://'' @ host) = ''https://'' @ host"
  by (simp_all add: otel_endpoint_def trim_prefix_def has_prefix_def)

end
