(* ===== verification/Server_Lifecycle.thy ===== *)
theory Server_Lifecycle
  imports Gateway_App Telemetry
begin

text \<open>
  The life of the server: \<open>Run\<close>, \<open>StartFollowers\<close> and \<open>Shutdown\<close> of \<open>internal/app/app.go\<close> as a step relation over
  the goroutine that called them, the goroutines of the followers, the HTTP server and the outside; and the
  command \<open>cmd/server/main.go\<close>, which sets up tracing, builds the server and runs it. The invariant
  ties the wait group to the followers; executions are shown to end, and what an ended one means.
\<close>

section \<open>The goroutine of a follower\<close>

text \<open>
  For its goroutine a follower is in one of three modes: it reads the subscription of heads, it polls,
  or its \<open>Run\<close> has returned. \<open>mode_step\<close> is what an event does to the mode; it agrees with the
  loop of the follower, whose other effects it leaves out.
\<close>

datatype follower_mode = FollowsHeads | Polls | Returned

fun mode_step :: "follower_mode \<Rightarrow> follow_event \<Rightarrow> follower_mode" where
  "mode_step Returned e = Returned"
| "mode_step m FDone = Returned"
| "mode_step FollowsHeads FClosed = Polls"
| "mode_step m e = m"

definition first_mode :: "bool \<Rightarrow> follower_mode" where
  "first_mode subscribed = (if subscribed then FollowsHeads else Polls)"

lemma mode_run_returned [simp]: "run mode_step Returned es = Returned"
  by (induction es) auto

lemma runPoll_mode: "fst (runPoll f es st) \<longleftrightarrow> run mode_step Polls es = Returned"
  by (induction f es st rule: runPoll.induct) auto

lemma follow_heads_mode: "fst (follow_heads f es st) \<longleftrightarrow> run mode_step FollowsHeads es = Returned"
  by (induction f es st rule: follow_heads.induct) (auto simp: runPoll_mode)

lemma follower_Run_mode:
  "fst (follower_Run f subscribed es st) \<longleftrightarrow> run mode_step (first_mode subscribed) es = Returned"
  by (simp add: follower_Run_def first_mode_def runPoll_mode follow_heads_mode)

lemma mode_step_returns: "mode_step m e = Returned \<longleftrightarrow> m = Returned \<or> e = FDone"
  by (cases "(m, e)" rule: mode_step.cases) auto

lemma mode_run_returns: "run mode_step m es = Returned \<longleftrightarrow> m = Returned \<or> FDone \<in> set es"
  by (induction es arbitrary: m) (auto simp: mode_step_returns)

section \<open>State\<close>

text \<open>
  Where the goroutine that called \<open>Run\<close> or \<open>Shutdown\<close> is: before a call of \<open>Shutdown\<close>, in the
  \<open>select\<close> of \<open>Run\<close>, about to cancel, in the graceful shutdown of the HTTP server, in \<open>wg.Wait\<close>,
  or returned with an error or \<open>nil\<close>.
\<close>

datatype phase =
    Started
  | InSelect
  | Cancelling
  | HttpShutdown
  | WgWait
  | Finished "error option"

text \<open>
  \<open>lv_cancel\<close> tells whether \<open>Server.cancel\<close> is set, \<open>lv_ctxDone\<close> whether the context that the
  followers run on is done, and \<open>lv_external\<close> whether somebody else can cancel it. \<open>lv_wg\<close> is the counter of
  the wait group; \<open>lv_conns\<close> counts the connections the HTTP server has to wait for; \<open>lv_errCh\<close> and
  \<open>lv_sig\<close> are the two channels of \<open>Run\<close>, each with room for one value; signals reach the second once it
  is registered (\<open>lv_notify\<close>). \<open>lv_log\<close> holds the lines
  that followers write when they return.
\<close>

record lifecycle =
  lv_cancel :: bool
  lv_ctxDone :: bool
  lv_external :: bool
  lv_wg :: int
  lv_followers :: "(string \<times> follower_mode) list"
  lv_log :: "(string \<times> error) list"
  lv_serving :: bool
  lv_closing :: bool
  lv_conns :: nat
  lv_errCh :: "error option"
  lv_notify :: bool
  lv_sig :: bool
  lv_phase :: phase

definition idle_server :: lifecycle where
  "idle_server = \<lparr>lv_cancel = False, lv_ctxDone = False, lv_external = False, lv_wg = 0, lv_followers = [], lv_log = [],
     lv_serving = False, lv_closing = False, lv_conns = 0, lv_errCh = None, lv_notify = False, lv_sig = False, lv_phase = Started\<rparr>"

section \<open>Operations\<close>

text \<open>One goroutine per follower of the server, each counted before it is started.\<close>

fun startFollowers :: "(string \<Rightarrow> bool) \<Rightarrow> string list \<Rightarrow> lifecycle \<Rightarrow> lifecycle" where
  "startFollowers subscribes [] s = s"
| "startFollowers subscribes (chainID # cs) s =
     startFollowers subscribes cs
       (s\<lparr>lv_wg := lv_wg s + 1, lv_followers := lv_followers s @ [(chainID, first_mode (subscribes chainID))]\<rparr>)"

text \<open>
  \<open>StartFollowers\<close>, for tests: on the context of the caller, which may be done already and which the
  caller may cancel later, or on the background context.
\<close>

definition StartFollowers :: "bool option \<Rightarrow> (string \<Rightarrow> bool) \<Rightarrow> ('w, 'k) server \<Rightarrow> lifecycle" where
  "StartFollowers ctx subscribes srv =
     startFollowers subscribes (map af_chain (sr_followers srv))
       (case ctx of
          None \<Rightarrow> idle_server
        | Some done \<Rightarrow> idle_server\<lparr>lv_ctxDone := done, lv_external := True\<rparr>)"

text \<open>\<open>Run\<close> up to its \<open>select\<close>: the followers and the HTTP server are started.\<close>

definition Run_start :: "(string \<Rightarrow> bool) \<Rightarrow> ('w, 'k) server \<Rightarrow> lifecycle" where
  "Run_start subscribes srv =
     (let s = idle_server\<lparr>lv_cancel := True\<rparr>;
          s = startFollowers subscribes (map af_chain (sr_followers srv)) s in
      s\<lparr>lv_serving := True, lv_notify := True, lv_phase := InSelect\<rparr>)"

text \<open>The first part of \<open>Shutdown\<close>: cancel if there is something to cancel, then begin to close the HTTP server.\<close>

definition Shutdown_cancel :: "lifecycle \<Rightarrow> lifecycle" where
  "Shutdown_cancel s =
     (let s = (if lv_cancel s then s\<lparr>lv_ctxDone := True\<rparr> else s) in
      s\<lparr>lv_closing := True, lv_phase := HttpShutdown\<rparr>)"

text \<open>The second: an error of the HTTP server is returned at once, otherwise the followers are waited for.\<close>

definition Shutdown_http :: "error option \<Rightarrow> lifecycle \<Rightarrow> lifecycle" where
  "Shutdown_http err s =
     (case err of
        Some e \<Rightarrow> s\<lparr>lv_phase := Finished (Some e)\<rparr>
      | None \<Rightarrow> s\<lparr>lv_phase := WgWait\<rparr>)"

text \<open>The goroutine of follower \<open>i\<close> after its \<open>Run\<close> returned the context's error: it logs and is counted off.\<close>

definition follower_done :: "nat \<Rightarrow> lifecycle \<Rightarrow> lifecycle" where
  "follower_done i s =
     (let chainID = fst (lv_followers s ! i) in
      s\<lparr>lv_followers := (lv_followers s)[i := (chainID, Returned)], lv_log := lv_log s @ [(chainID, ErrContextDone)],
        lv_wg := lv_wg s - 1\<rparr>)"

section \<open>Steps\<close>

text \<open>
  The goroutines interleave with each other and with what comes from outside: signals, connections,
  heads and ticks, a listener that fails, the five seconds of the graceful shutdown. \<open>net/http\<close>
  promises that \<open>ListenAndServe\<close> returns an error always, \<open>ErrServerClosed\<close> after \<open>Shutdown\<close>; and that
  \<open>Shutdown\<close> takes no new connections, returns when no connection is left, with the error of closing the
  listener if there was one, or else returns the error of its context.
\<close>

datatype life_label =
    FollowerEvent nat follow_event
  | FollowerReturns nat
  | ServeReturns error
  | ConnOpens
  | ConnCloses
  | Signal
  | CallerCancels
  | SelectErr
  | SelectSig
  | CallShutdown
  | Cancel
  | HttpDrained "error option"
  | HttpDeadline
  | WgDone

definition server_closed :: error where
  "server_closed = ErrMessage ''http: Server closed''"

inductive life_step :: "lifecycle \<Rightarrow> life_label \<Rightarrow> lifecycle \<Rightarrow> bool" where
  follower_event:
    "i < length (lv_followers s) \<Longrightarrow> lv_followers s ! i = (chainID, m) \<Longrightarrow> m \<noteq> Returned \<Longrightarrow> e \<noteq> FDone \<Longrightarrow>
     life_step s (FollowerEvent i e) (s\<lparr>lv_followers := (lv_followers s)[i := (chainID, mode_step m e)]\<rparr>)"
| follower_returns:
    "i < length (lv_followers s) \<Longrightarrow> snd (lv_followers s ! i) \<noteq> Returned \<Longrightarrow> lv_ctxDone s \<Longrightarrow>
     life_step s (FollowerReturns i) (follower_done i s)"
| serve_returns:
    "lv_serving s \<Longrightarrow> (lv_closing s \<Longrightarrow> e = server_closed) \<Longrightarrow>
     life_step s (ServeReturns e) (s\<lparr>lv_serving := False, lv_errCh := Some e\<rparr>)"
| conn_opens:
    "lv_serving s \<Longrightarrow> \<not> lv_closing s \<Longrightarrow> life_step s ConnOpens (s\<lparr>lv_conns := lv_conns s + 1\<rparr>)"
| conn_closes:
    "lv_conns s = Suc n \<Longrightarrow> life_step s ConnCloses (s\<lparr>lv_conns := n\<rparr>)"
| signal:
    "lv_notify s \<Longrightarrow> life_step s Signal (s\<lparr>lv_sig := True\<rparr>)"
| caller_cancels:
    "lv_external s \<Longrightarrow> life_step s CallerCancels (s\<lparr>lv_ctxDone := True\<rparr>)"
| select_err:
    "lv_phase s = InSelect \<Longrightarrow> lv_errCh s = Some e \<Longrightarrow>
     life_step s SelectErr (s\<lparr>lv_errCh := None, lv_phase := Finished (Some e)\<rparr>)"
| select_sig:
    "lv_phase s = InSelect \<Longrightarrow> lv_sig s \<Longrightarrow> life_step s SelectSig (s\<lparr>lv_sig := False, lv_phase := Cancelling\<rparr>)"
| call_shutdown:
    "lv_phase s = Started \<Longrightarrow> life_step s CallShutdown (s\<lparr>lv_phase := Cancelling\<rparr>)"
| cancel:
    "lv_phase s = Cancelling \<Longrightarrow> life_step s Cancel (Shutdown_cancel s)"
| http_drained:
    "lv_phase s = HttpShutdown \<Longrightarrow> lv_conns s = 0 \<Longrightarrow> life_step s (HttpDrained err) (Shutdown_http err s)"
| http_deadline:
    "lv_phase s = HttpShutdown \<Longrightarrow> life_step s HttpDeadline (Shutdown_http (Some ErrContextDone) s)"
| wg_done:
    "lv_phase s = WgWait \<Longrightarrow> lv_wg s = 0 \<Longrightarrow> life_step s WgDone (s\<lparr>lv_phase := Finished None\<rparr>)"

inductive_cases life_step_mainE: "life_step s SelectErr t" "life_step s SelectSig t"

section \<open>The wait group counts the running followers\<close>

definition running :: "lifecycle \<Rightarrow> nat" where
  "running s = length (filter (\<lambda>f. snd f \<noteq> Returned) (lv_followers s))"

lemma running_event:
  assumes "i < length (lv_followers s)" and "lv_followers s ! i = (c, m)" and "m \<noteq> Returned" and "e \<noteq> FDone"
  shows "running (s\<lparr>lv_followers := (lv_followers s)[i := (c, mode_step m e)]\<rparr>) = running s"
  using assms unfolding running_def by (simp add: filter_update_same mode_step_returns)

lemma running_done:
  assumes "i < length (lv_followers s)" and "snd (lv_followers s ! i) \<noteq> Returned"
  shows "Suc (running (follower_done i s)) = running s"
  using assms unfolding running_def follower_done_def by (simp add: filter_update_less Let_def)

lemma follower_done_fields [simp]:
  "lv_phase (follower_done i s) = lv_phase s" "lv_ctxDone (follower_done i s) = lv_ctxDone s"
  "lv_cancel (follower_done i s) = lv_cancel s" "lv_external (follower_done i s) = lv_external s"
  "lv_wg (follower_done i s) = lv_wg s - 1" "lv_conns (follower_done i s) = lv_conns s"
  "lv_closing (follower_done i s) = lv_closing s" "length (lv_followers (follower_done i s)) = length (lv_followers s)"
  "length (lv_log (follower_done i s)) = Suc (length (lv_log s))"
  by (simp_all add: follower_done_def Let_def)

lemma running_0: "running s = 0 \<longleftrightarrow> (\<forall>f \<in> set (lv_followers s). snd f = Returned)"
  by (simp add: running_def filter_empty_conv)

lemma running_all: "running s = length (lv_followers s) \<longleftrightarrow> (\<forall>f \<in> set (lv_followers s). snd f \<noteq> Returned)"
  using length_filter_less [of _ "lv_followers s" "\<lambda>f. snd f \<noteq> Returned"]
  by (fastforce simp: running_def)

text \<open>
  The invariant: the counter is the number of followers that have not returned; none returns
  before the context is done; the phases after the cancellation have a done context if there was
  something to cancel, and the ones before it have not, unless the caller cancelled; waiting for
  followers means no connection is left.
\<close>

definition life_inv :: "lifecycle \<Rightarrow> bool" where
  "life_inv s \<longleftrightarrow>
     lv_wg s = int (running s) \<and> length (lv_log s) + running s = length (lv_followers s) \<and>
     (lv_ctxDone s \<or> running s = length (lv_followers s)) \<and>
     (lv_phase s \<in> {HttpShutdown, WgWait} \<and> lv_cancel s \<longrightarrow> lv_ctxDone s) \<and>
     (lv_phase s \<in> {Started, InSelect, Cancelling} \<and> \<not> lv_external s \<longrightarrow> \<not> lv_ctxDone s) \<and>
     (\<not> lv_cancel s \<and> \<not> lv_external s \<longrightarrow> \<not> lv_ctxDone s) \<and>
     (lv_phase s \<in> {HttpShutdown, WgWait, Finished None} \<longrightarrow> lv_closing s) \<and>
     (lv_phase s \<in> {WgWait, Finished None} \<longrightarrow> lv_conns s = 0) \<and>
     (lv_phase s = Finished None \<longrightarrow> running s = 0)"

lemmas life_ops = Shutdown_cancel_def Shutdown_http_def

lemma running_cong [simp]:
  "running (s\<lparr>lv_phase := p\<rparr>) = running s" "running (s\<lparr>lv_conns := n\<rparr>) = running s" "running (s\<lparr>lv_sig := b\<rparr>) = running s"
  "running (s\<lparr>lv_ctxDone := b\<rparr>) = running s" "running (s\<lparr>lv_errCh := e\<rparr>) = running s" "running (s\<lparr>lv_serving := b\<rparr>) = running s"
  "running (s\<lparr>lv_closing := b\<rparr>) = running s"
  by (simp_all add: running_def)

lemma life_step_inv: "life_step s l t \<Longrightarrow> life_inv s \<Longrightarrow> life_inv t"
proof (induction rule: life_step.induct)
  case (follower_event i s c m e)
  then show ?case by (simp add: life_inv_def running_event)
next
  case (follower_returns i s)
  then show ?case using running_done [OF follower_returns(1,2)] by (auto simp: life_inv_def)
qed (auto simp: life_inv_def life_ops Let_def split: option.splits)

interpretation life: step_system life_step life_inv
  by unfold_locales (rule life_step_inv)

lemma startFollowers_fields:
  "startFollowers subs cs s = s\<lparr>lv_wg := lv_wg s + int (length cs),
     lv_followers := lv_followers s @ map (\<lambda>c. (c, first_mode (subs c))) cs\<rparr>"
  by (induction cs arbitrary: s) auto

lemma first_mode_running [simp]: "first_mode b \<noteq> Returned" "Returned \<noteq> first_mode b"
  by (simp_all add: first_mode_def)

lemma started_running: "running (startFollowers subs cs idle_server) = length cs"
  by (simp add: startFollowers_fields running_def idle_server_def)

lemma Run_start_inv: "life_inv (Run_start subs srv)"
  by (simp add: life_inv_def Run_start_def startFollowers_fields running_def idle_server_def Let_def comp_def)

lemma StartFollowers_inv: "life_inv (StartFollowers ctx subs srv)"
  by (cases ctx) (simp_all add: life_inv_def StartFollowers_def startFollowers_fields running_def idle_server_def comp_def)

section \<open>What stays fixed\<close>

definition life_const :: "lifecycle \<Rightarrow> bool \<times> bool \<times> string list" where
  "life_const s = (lv_cancel s, lv_external s, map fst (lv_followers s))"

lemma life_step_const: "life_step s l t \<Longrightarrow> life_const t = life_const s"
  by (induction rule: life_step.induct)
    (auto simp: life_const_def life_ops follower_done_def Let_def map_update fst_conv [symmetric] split: option.splits
      intro!: list_update_same_conv [THEN iffD2])

interpretation life_fixed: step_system life_step "\<lambda>s. life_const s = k" for k
  by unfold_locales (simp add: life_step_const)

lemma Run_start_const: "life_const (Run_start subs srv) = (True, False, map af_chain (sr_followers srv))"
  by (simp add: life_const_def Run_start_def startFollowers_fields idle_server_def Let_def comp_def)

lemma Run_reach:
  assumes "steps life_step (Run_start subs srv) ls s"
  shows "life_inv s" "lv_cancel s" "\<not> lv_external s" "length (lv_followers s) = length (sr_followers srv)"
proof -
  have "life_const s = (True, False, map af_chain (sr_followers srv))"
    using assms Run_start_const by (rule life_fixed.steps_inv)
  then show "lv_cancel s" "\<not> lv_external s" "length (lv_followers s) = length (sr_followers srv)"
    by (auto simp: life_const_def dest: arg_cong [where f = length])
  show "life_inv s" using assms Run_start_inv by (rule life.steps_inv)
qed

section \<open>Shutdown returns\<close>

fun shutdown_work :: "life_label \<Rightarrow> bool" where
  "shutdown_work (FollowerReturns i) = True"
| "shutdown_work SelectErr = True"
| "shutdown_work SelectSig = True"
| "shutdown_work CallShutdown = True"
| "shutdown_work Cancel = True"
| "shutdown_work (HttpDrained err) = True"
| "shutdown_work HttpDeadline = True"
| "shutdown_work WgDone = True"
| "shutdown_work _ = False"

fun phases_left :: "phase \<Rightarrow> nat" where
  "phases_left Started = 4"
| "phases_left InSelect = 4"
| "phases_left Cancelling = 3"
| "phases_left HttpShutdown = 2"
| "phases_left WgWait = 1"
| "phases_left (Finished err) = 0"

interpretation life_bound: bounded_system life_step life_inv shutdown_work "\<lambda>s. phases_left (lv_phase s) + running s"
proof
  fix s l t
  assume "life_step s l t"
  then show "shutdown_work l \<Longrightarrow> phases_left (lv_phase t) + running t < phases_left (lv_phase s) + running s"
  proof (induction rule: life_step.induct)
    case (follower_returns i s)
    then show ?case using running_done [OF follower_returns(1,2)] by simp
  qed (auto simp: life_ops Let_def split: option.splits)
next
  fix s l t
  assume "life_step s l t"
  then show "\<not> shutdown_work l \<Longrightarrow> phases_left (lv_phase t) + running t \<le> phases_left (lv_phase s) + running s"
    by (induction rule: life_step.induct) (auto simp: running_event)
qed

definition past_select :: "lifecycle \<Rightarrow> bool" where
  "past_select s \<longleftrightarrow> lv_phase s \<notin> {Started, InSelect}"

interpretation past: step_system life_step past_select
proof
  fix s l t
  assume "life_step s l t"
  then show "past_select s \<Longrightarrow> past_select t"
    by (induction rule: life_step.induct) (auto simp: past_select_def life_ops Let_def split: option.splits)
qed

lemma signal_taken_past:
  assumes "steps life_step s ls t" and "SelectSig \<in> set ls"
  shows "past_select t"
proof -
  from assms obtain u v ls2 where "life_step u SelectSig v" and ls2: "steps life_step v ls2 t" by (rule steps_split)
  then have "past_select v" by (auto simp: past_select_def elim: life_step_mainE)
  with ls2 show ?thesis by (rule past.steps_inv)
qed

lemma not_stuck:
  assumes "life_inv s" and "lv_cancel s" and "past_select s" and "\<And>r. lv_phase s \<noteq> Finished r"
  shows "\<exists>l t. shutdown_work l \<and> life_step s l t"
proof (cases "lv_phase s")
  case WgWait
  then have ctx: "lv_ctxDone s" using assms by (simp add: life_inv_def)
  show ?thesis
  proof (cases "running s = 0")
    case True
    with WgWait assms(1) have "life_step s WgDone (s\<lparr>lv_phase := Finished None\<rparr>)"
      by (intro life_step.wg_done) (auto simp: life_inv_def)
    then show ?thesis by (intro exI [of _ WgDone]) auto
  next
    case False
    then obtain i where "i < length (lv_followers s)" "snd (lv_followers s ! i) \<noteq> Returned"
      by (auto simp: running_0 in_set_conv_nth)
    with ctx have "life_step s (FollowerReturns i) (follower_done i s)" by (intro life_step.follower_returns)
    then show ?thesis by (intro exI [of _ "FollowerReturns i"]) auto
  qed
next
  case Cancelling
  then have "life_step s Cancel (Shutdown_cancel s)" by (rule life_step.cancel)
  then show ?thesis by (intro exI [of _ Cancel]) auto
next
  case HttpShutdown
  then have "life_step s HttpDeadline (Shutdown_http (Some ErrContextDone) s)" by (rule life_step.http_deadline)
  then show ?thesis by (intro exI [of _ HttpDeadline]) auto
qed (use assms in \<open>auto simp: past_select_def\<close>)

lemma conns_drain: "\<exists>ms. steps life_step s ms (s\<lparr>lv_conns := 0\<rparr>)"
proof (induction "lv_conns s" arbitrary: s)
  case 0
  then have "s\<lparr>lv_conns := 0\<rparr> = s" by simp
  then show ?case by (metis steps_Nil)
next
  case (Suc n)
  from Suc.hyps(1) [of "s\<lparr>lv_conns := n\<rparr>"]
  obtain ms where "steps life_step (s\<lparr>lv_conns := n\<rparr>) ms (s\<lparr>lv_conns := 0\<rparr>)" by auto
  moreover have "life_step s ConnCloses (s\<lparr>lv_conns := n\<rparr>)" using Suc.hyps(2) by (intro life_step.conn_closes) simp
  ultimately show ?case by (blast intro: steps_Cons)
qed

lemma followers_drain:
  "lv_ctxDone s \<Longrightarrow> \<exists>ms t. steps life_step s ms t \<and> running t = 0 \<and> lv_phase t = lv_phase s \<and> lv_conns t = lv_conns s"
proof (induction "running s" arbitrary: s)
  case 0
  then show ?case by (intro exI [of _ "[]"] exI [of _ s]) simp
next
  case (Suc n)
  then obtain i where i: "i < length (lv_followers s)" "snd (lv_followers s ! i) \<noteq> Returned"
    using running_0 [of s] by (auto simp: in_set_conv_nth)
  with Suc.prems have "life_step s (FollowerReturns i) (follower_done i s)" by (intro life_step.follower_returns)
  moreover obtain ms t where "steps life_step (follower_done i s) ms t" "running t = 0" "lv_phase t = lv_phase s" "lv_conns t = lv_conns s"
    using Suc.hyps(1) [of "follower_done i s"] Suc.hyps(2) Suc.prems running_done [OF i] by auto
  ultimately show ?case by (blast intro: steps_Cons)
qed

lemma wait_ends:
  assumes "life_inv s" and "lv_phase s = WgWait" and "lv_ctxDone s"
  shows "\<exists>ms t. steps life_step s ms t \<and> lv_phase t = Finished None"
proof -
  obtain ms t where t: "steps life_step s ms t" "running t = 0" "lv_phase t = WgWait"
    using followers_drain [OF assms(3)] assms(2) by auto
  have "life_inv t" using t(1) assms(1) by (rule life.steps_inv)
  with t(2,3) have "life_step t WgDone (t\<lparr>lv_phase := Finished None\<rparr>)"
    by (intro life_step.wg_done) (simp_all add: life_inv_def)
  from steps_snoc [of life_step, OF t(1) this] show ?thesis by (intro exI conjI) auto
qed

lemma http_ends:
  assumes "life_inv s" and "lv_phase s = HttpShutdown" and "lv_ctxDone s"
  shows "\<exists>ms t. steps life_step s ms t \<and> lv_phase t = Finished None"
proof -
  let ?u = "s\<lparr>lv_conns := 0\<rparr>"
  obtain ms where ms: "steps life_step s ms ?u" using conns_drain by blast
  have "life_step ?u (HttpDrained None) (Shutdown_http None ?u)" using assms(2) by (intro life_step.http_drained) simp_all
  from steps_snoc [of life_step, OF ms this] have s: "steps life_step s (ms @ [HttpDrained None]) (Shutdown_http None ?u)" .
  with assms(1) have "life_inv (Shutdown_http None ?u)" by (blast intro: life.steps_inv)
  from wait_ends [OF this] assms(3) show ?thesis by (auto simp: Shutdown_http_def intro: steps_append [OF s [unfolded Shutdown_http_def, simplified]])
qed

lemma shutdown_ends:
  assumes "life_inv s" and "lv_cancel s" and "past_select s" and "\<And>r. lv_phase s \<noteq> Finished r"
  shows "\<exists>ms t. steps life_step s ms t \<and> lv_phase t = Finished None"
proof (cases "lv_phase s")
  case Cancelling
  then have s: "life_step s Cancel (Shutdown_cancel s)" by (rule life_step.cancel)
  with assms(1) have "life_inv (Shutdown_cancel s)" by (blast intro: life_step_inv)
  from http_ends [OF this] assms(2) s show ?thesis by (auto simp: Shutdown_cancel_def intro: steps_Cons)
next
  case HttpShutdown
  with assms show ?thesis by (intro http_ends) (simp_all add: life_inv_def)
next
  case WgWait
  with assms show ?thesis by (intro wait_ends) (simp_all add: life_inv_def)
qed (use assms in \<open>auto simp: past_select_def\<close>)

text \<open>
  C12. Once \<open>Run\<close> has taken the signal, the shutdown cannot get stuck and cannot go on forever. In whatever order
  connections, heads, ticks and the goroutines take their steps, as long as \<open>Run\<close> has not returned one of the
  steps that lead to its return can be taken, and an execution has at most four of them besides one
  return per follower; and it can always still return \<open>nil\<close>.
\<close>

theorem shutdown_completes:
  assumes "steps life_step (Run_start subscribes srv) ls s" and "SelectSig \<in> set ls"
  shows "((\<exists>err. lv_phase s = Finished err) \<or>
     (\<exists>l t. shutdown_work l \<and> life_step s l t) \<and> (\<exists>ms t. steps life_step s ms t \<and> lv_phase t = Finished None)) \<and>
    length (filter shutdown_work ls) \<le> 4 + length (sr_followers srv)"
proof
  note r = Run_reach [OF assms(1)]
  show "(\<exists>err. lv_phase s = Finished err) \<or>
    (\<exists>l t. shutdown_work l \<and> life_step s l t) \<and> (\<exists>ms t. steps life_step s ms t \<and> lv_phase t = Finished None)"
    using not_stuck [OF r(1,2) signal_taken_past [OF assms]] shutdown_ends [OF r(1,2) signal_taken_past [OF assms]] by blast
  have "running (Run_start subscribes srv) \<le> length (sr_followers srv)"
    by (simp add: running_def Run_start_def startFollowers_fields idle_server_def Let_def)
  with life_bound.steps_work [OF assms(1) Run_start_inv]
  show "length (filter shutdown_work ls) \<le> 4 + length (sr_followers srv)"
    by (simp add: Run_start_def Let_def)
qed

section \<open>What a returned Run means\<close>

definition before_shutdown :: "lifecycle \<Rightarrow> bool" where
  "before_shutdown s \<longleftrightarrow> lv_phase s = InSelect \<or> (\<exists>e. lv_phase s = Finished (Some e))"

lemma no_signal_no_shutdown:
  "steps life_step s ls t \<Longrightarrow> SelectSig \<notin> set ls \<Longrightarrow> before_shutdown s \<Longrightarrow> before_shutdown t"
proof (induction rule: steps.induct)
  case (steps_Cons s l t ls u)
  from steps_Cons.hyps(1) steps_Cons.prems have "before_shutdown t"
    by (induction rule: life_step.induct) (auto simp: before_shutdown_def)
  with steps_Cons show ?case by simp
qed simp

text \<open>
  \<open>Run\<close> returns \<open>nil\<close> only after a signal, and then everything it started is over: every follower has
  returned and has logged its end, the wait group is at zero, the listener is closed and no connection
  is left.
\<close>

theorem run_nil_means_stopped:
  assumes "steps life_step (Run_start subscribes srv) ls s" and "lv_phase s = Finished None"
  shows "SelectSig \<in> set ls \<and> (\<forall>f \<in> set (lv_followers s). snd f = Returned) \<and> lv_wg s = 0 \<and>
    length (lv_log s) = length (sr_followers srv) \<and> lv_closing s \<and> lv_conns s = 0"
proof -
  note r = Run_reach [OF assms(1)]
  have "running s = 0" using r(1) assms(2) by (simp add: life_inv_def)
  moreover have "SelectSig \<in> set ls"
  proof (rule ccontr)
    assume "SelectSig \<notin> set ls"
    with assms(1) have "before_shutdown s"
      by (rule no_signal_no_shutdown) (simp add: before_shutdown_def Run_start_def Let_def)
    with assms(2) show False by (simp add: before_shutdown_def)
  qed
  ultimately show ?thesis using r(1,4) assms(2) running_0 [of s] by (auto simp: life_inv_def)
qed

section \<open>A server that fails leaves its followers\<close>

definition abandoned :: "lifecycle \<Rightarrow> bool" where
  "abandoned s \<longleftrightarrow> (\<exists>e. lv_phase s = Finished (Some e)) \<and> \<not> lv_ctxDone s \<and> \<not> lv_external s"

interpretation abandoned: step_system life_step abandoned
proof
  fix s l t
  assume "life_step s l t"
  then show "abandoned s \<Longrightarrow> abandoned t" by (induction rule: life_step.induct) (auto simp: abandoned_def)
qed

text \<open>
  C20. When the HTTP server fails, for example because the port is taken, \<open>Run\<close> returns its error without the cancellation:
  whatever happens afterwards, the context is never done, no follower returns and the wait group stays where it was.
\<close>

theorem serve_error_abandons_followers:
  assumes "steps life_step (Run_start subscribes srv) ls s" and "SelectErr \<in> set ls"
  shows "(\<exists>e. lv_phase s = Finished (Some e)) \<and> \<not> lv_ctxDone s \<and> (\<forall>f \<in> set (lv_followers s). snd f \<noteq> Returned) \<and>
    lv_wg s = int (length (sr_followers srv))"
proof -
  from assms obtain ls1 u v ls2 where ls1: "steps life_step (Run_start subscribes srv) ls1 u"
    and e: "life_step u SelectErr v" and ls2: "steps life_step v ls2 s" by (rule steps_split)
  note u = Run_reach [OF ls1] and s = Run_reach [OF assms(1)]
  from e obtain err where v: "v = u\<lparr>lv_errCh := None, lv_phase := Finished (Some err)\<rparr>" and "lv_phase u = InSelect"
    by (rule life_step_mainE(1))
  then have "\<not> lv_ctxDone u" using u(1,3) by (simp add: life_inv_def)
  with u(3) have "abandoned v" by (simp add: abandoned_def v)
  with ls2 have "abandoned s" by (rule abandoned.steps_inv)
  moreover from this have "running s = length (lv_followers s)" and "lv_wg s = int (running s)"
    using s(1) by (simp_all add: abandoned_def life_inv_def)
  ultimately show ?thesis using running_all [of s] s(4) by (simp add: abandoned_def)
qed

lemma waiting_work:
  "life_step s l t \<Longrightarrow> shutdown_work l \<Longrightarrow> lv_phase s = WgWait \<Longrightarrow> lv_wg s = 0 \<or> lv_ctxDone s"
  by (induction rule: life_step.induct) simp_all

text \<open>
  C21. \<open>StartFollowers\<close> on the background context sets no cancel function. A server with a follower
  then never comes back from \<open>Shutdown\<close> with \<open>nil\<close>: no follower ever returns, and once in \<open>wg.Wait\<close> it has
  no step left.
\<close>

theorem background_followers_block_shutdown:
  assumes "steps life_step (StartFollowers None subscribes srv) ls s" and "sr_followers srv \<noteq> []"
  shows "lv_phase s \<noteq> Finished None \<and> (\<forall>f \<in> set (lv_followers s). snd f \<noteq> Returned) \<and>
    (lv_phase s = WgWait \<longrightarrow> \<not> (\<exists>l t. shutdown_work l \<and> life_step s l t))"
proof -
  have inv: "life_inv s" using assms(1) StartFollowers_inv by (rule life.steps_inv)
  have "life_const (StartFollowers None subscribes srv) = (False, False, map af_chain (sr_followers srv))"
    by (simp add: life_const_def StartFollowers_def startFollowers_fields idle_server_def comp_def)
  with assms(1) have "life_const s = (False, False, map af_chain (sr_followers srv))" by (rule life_fixed.steps_inv)
  then have k: "\<not> lv_cancel s" "\<not> lv_external s" and len: "length (lv_followers s) = length (sr_followers srv)"
    by (auto simp: life_const_def dest: arg_cong [where f = length])
  then have ctx: "\<not> lv_ctxDone s" using inv by (simp add: life_inv_def)
  then have all: "running s = length (lv_followers s)" using inv by (simp add: life_inv_def)
  then have "\<forall>f \<in> set (lv_followers s). snd f \<noteq> Returned" by (rule running_all [THEN iffD1])
  moreover have wg: "lv_wg s \<noteq> 0" "running s \<noteq> 0" using inv all len assms(2) by (simp_all add: life_inv_def)
  then have "lv_phase s \<noteq> Finished None" using inv by (simp add: life_inv_def)
  moreover have "\<not> (\<exists>l t. shutdown_work l \<and> life_step s l t)" if "lv_phase s = WgWait"
    using that ctx wg(1) waiting_work [of s] by blast
  ultimately show ?thesis by blast
qed

section \<open>The followers of a server in production\<close>

text \<open>Every configured chain has one follower, and there is no other.\<close>

lemma production_followers:
  assumes "env ''DEV_MODE'' \<noteq> ''1''" and "Load env = Inr cfgs"
    and "Build x D order connect df db env cfg = Some (Inr srv)"
  shows "map af_chain (sr_followers srv) = remdups (map cc_ChainID cfgs)"
proof -
  have reg: "build_registry x D cfgs False = Inr (sr_registry srv)" and f: "sr_followers srv = build_followers (sr_registry srv) cfg cfgs"
    using assms by (auto simp: Build_def build_chains_production split: sum.splits option.splits)
  have dom: "fst ` set (sr_registry srv) = cc_ChainID ` set cfgs" using build_registry_production [OF assms(2) reg] by blast
  then have ids: "filter (\<lambda>c. map_of (sr_registry srv) c \<noteq> None) (remdups (map cc_ChainID cfgs)) = remdups (map cc_ChainID cfgs)"
    by (auto simp: map_of_eq_None_iff filter_id_conv)
  have "\<not> (''stub'' \<notin> set (remdups (map cc_ChainID cfgs)) \<and> map_of (sr_registry srv) ''stub'' \<noteq> None)"
    using dom by (simp add: map_of_eq_None_iff)
  then show ?thesis unfolding f build_followers_def Let_def ids by (simp add: comp_def)
qed

section \<open>Witnesses\<close>

lemma sample_server_built:
  "\<exists>srv. sample_build ''dogecoin'' = Some (Inr srv) \<and> length (sr_followers srv) = 1"
proof -
  have "\<exists>srv. sample_build ''dogecoin'' = Some (Inr srv)"
    by (rule production_builds [OF sample_settings_simps(1) refl sample_settings_load sample_settings_simps(2)])
      (simp_all add: db_opens_def sample_settings_simps)
  then obtain srv where srv: "sample_build ''dogecoin'' = Some (Inr srv)" by blast
  from production_followers [OF sample_settings_simps(1) sample_settings_load srv]
  have "map af_chain (sr_followers srv) = [''dogecoin'']" by simp
  from arg_cong [OF this, where f = length] have "length (sr_followers srv) = 1" by simp
  with srv show ?thesis by blast
qed

lemma Run_start_signal:
  fixes srv :: "('w, 'k) server"
  shows "\<exists>s. steps life_step (Run_start subs srv) [Signal, SelectSig] s \<and> lv_phase s = Cancelling"
proof (intro exI conjI)
  let ?start = "Run_start subs srv"
  let ?next = "?start\<lparr>lv_sig := True\<rparr>"
  have "life_step ?start Signal ?next" by (rule life_step.signal) (simp add: Run_start_def Let_def)
  moreover have "life_step ?next SelectSig (?next\<lparr>lv_sig := False, lv_phase := Cancelling\<rparr>)"
    by (rule life_step.select_sig) (simp_all add: Run_start_def Let_def)
  ultimately show "steps life_step ?start [Signal, SelectSig] (?next\<lparr>lv_sig := False, lv_phase := Cancelling\<rparr>)"
    by (blast intro: steps_Cons)
qed simp

lemma Run_can_return:
  fixes srv :: "('w, 'k) server"
  shows "\<exists>ls s. steps life_step (Run_start subs srv) ls s \<and> lv_phase s = Finished None"
proof -
  obtain s where s: "steps life_step (Run_start subs srv) [Signal, SelectSig] s" "lv_phase s = Cancelling"
    using Run_start_signal by blast
  then obtain ms t where t: "steps life_step s ms t" "lv_phase t = Finished None"
    using shutdown_ends [of s] Run_reach [OF s(1)] by (auto simp: past_select_def)
  from steps_append [OF s(1) t(1)] t(2) show ?thesis by blast
qed

lemma Run_start_fails:
  fixes srv :: "('w, 'k) server"
  shows "\<exists>s. steps life_step (Run_start subs srv) [ServeReturns e, SelectErr] s \<and> lv_phase s = Finished (Some e)"
proof (intro exI conjI)
  let ?start = "Run_start subs srv"
  let ?next = "?start\<lparr>lv_serving := False, lv_errCh := Some e\<rparr>"
  have "life_step ?start (ServeReturns e) ?next"
    by (rule life_step.serve_returns) (simp_all add: Run_start_def startFollowers_fields idle_server_def Let_def)
  moreover have "life_step ?next SelectErr (?next\<lparr>lv_errCh := None, lv_phase := Finished (Some e)\<rparr>)"
    by (rule life_step.select_err) (simp_all add: Run_start_def Let_def)
  ultimately show "steps life_step ?start [ServeReturns e, SelectErr] (?next\<lparr>lv_errCh := None, lv_phase := Finished (Some e)\<rparr>)"
    by (blast intro: steps_Cons)
qed simp

theorem shutdown_completes_witness:
  "\<exists>srv s ms t. sample_build ''dogecoin'' = Some (Inr srv) \<and> steps life_step (Run_start (\<lambda>_. True) srv) [Signal, SelectSig] s \<and>
    steps life_step s ms t \<and> lv_phase t = Finished None"
proof -
  obtain srv where srv: "sample_build ''dogecoin'' = Some (Inr srv)" using sample_server_built by blast
  obtain s where s: "steps life_step (Run_start (\<lambda>_. True) srv) [Signal, SelectSig] s" "lv_phase s = Cancelling"
    using Run_start_signal by blast
  from shutdown_completes [OF s(1)] s(2) obtain ms t where "steps life_step s ms t" "lv_phase t = Finished None" by auto
  with srv s(1) show ?thesis by blast
qed

theorem run_nil_means_stopped_witness:
  "\<exists>srv ls s. sample_build ''dogecoin'' = Some (Inr srv) \<and> steps life_step (Run_start (\<lambda>_. True) srv) ls s \<and>
    lv_phase s = Finished None \<and> length (lv_log s) = 1"
proof -
  obtain srv where srv: "sample_build ''dogecoin'' = Some (Inr srv)" "length (sr_followers srv) = 1"
    using sample_server_built by blast
  obtain ls s where s: "steps life_step (Run_start (\<lambda>_. True) srv) ls s" "lv_phase s = Finished None"
    using Run_can_return by blast
  from run_nil_means_stopped [OF s] srv(2) have "length (lv_log s) = 1" by simp
  with srv(1) s show ?thesis by blast
qed

theorem serve_error_abandons_followers_witness:
  "\<exists>srv s. sample_build ''dogecoin'' = Some (Inr srv) \<and>
    steps life_step (Run_start (\<lambda>_. True) srv) [ServeReturns (ErrMessage ''bind: address already in use''), SelectErr] s \<and>
    lv_wg s = 1"
proof -
  obtain srv where srv: "sample_build ''dogecoin'' = Some (Inr srv)" "length (sr_followers srv) = 1"
    using sample_server_built by blast
  obtain s where s: "steps life_step (Run_start (\<lambda>_. True) srv)
      [ServeReturns (ErrMessage ''bind: address already in use''), SelectErr] s" using Run_start_fails by blast
  from serve_error_abandons_followers [OF s] srv(2) have "lv_wg s = 1" by simp
  with srv(1) s show ?thesis by blast
qed

theorem background_followers_block_shutdown_witness:
  "\<exists>srv s. sample_build ''dogecoin'' = Some (Inr srv) \<and>
    steps life_step (StartFollowers None (\<lambda>_. True) srv) [CallShutdown, Cancel, HttpDrained None] s \<and>
    lv_phase s = WgWait \<and> \<not> (\<exists>l t. shutdown_work l \<and> life_step s l t)"
proof -
  obtain srv where srv: "sample_build ''dogecoin'' = Some (Inr srv)" "length (sr_followers srv) = 1"
    using sample_server_built by blast
  let ?start = "StartFollowers None (\<lambda>_. True) srv"
  let ?s = "Shutdown_http None (Shutdown_cancel (?start\<lparr>lv_phase := Cancelling\<rparr>))"
  have "life_step ?start CallShutdown (?start\<lparr>lv_phase := Cancelling\<rparr>)"
    by (rule life_step.call_shutdown) (simp add: StartFollowers_def startFollowers_fields idle_server_def)
  moreover have "life_step (?start\<lparr>lv_phase := Cancelling\<rparr>) Cancel (Shutdown_cancel (?start\<lparr>lv_phase := Cancelling\<rparr>))"
    by (rule life_step.cancel) simp
  moreover have "life_step (Shutdown_cancel (?start\<lparr>lv_phase := Cancelling\<rparr>)) (HttpDrained None) ?s"
    by (rule life_step.http_drained)
      (simp_all add: StartFollowers_def startFollowers_fields idle_server_def Shutdown_cancel_def Let_def)
  ultimately have s: "steps life_step ?start [CallShutdown, Cancel, HttpDrained None] ?s" by (blast intro: steps_Cons)
  have w: "lv_phase ?s = WgWait" by (simp add: Shutdown_http_def)
  have "sr_followers srv \<noteq> []" using srv(2) by auto
  from background_followers_block_shutdown [OF s this] w have "\<not> (\<exists>l t. shutdown_work l \<and> life_step ?s l t)" by blast
  with srv(1) s w show ?thesis by blast
qed

section \<open>The command\<close>

text \<open>
  \<open>main\<close> of \<open>cmd/server/main.go\<close>. \<open>log.Fatalf\<close> ends the process with code 1 on the spot, without the deferred calls; a
  panic runs them and ends it with code 2; otherwise they run at the end and the code is 0. \<open>Build\<close>'s
  outside is already applied in \<open>build\<close>; what \<open>Run\<close> returns (\<open>runs\<close>) is related to the server by the step relation; the world is the one the
  providers of the tracing setup are shut down in.
\<close>

record 'w exit =
  ex_code :: nat
  ex_fatal :: "(string \<times> error) option"
  ex_world :: 'w

definition fatalf :: "string \<Rightarrow> error \<Rightarrow> 'w \<Rightarrow> 'w exit" where
  "fatalf what err w = \<lparr>ex_code = 1, ex_fatal = Some (what, err), ex_world = w\<rparr>"

definition server_main ::
  "('x, 'y, 'r) otel_lib \<Rightarrow> (('x, 'y, 'r) otel_stop \<Rightarrow> 'w \<Rightarrow> unit result \<times> 'w) \<Rightarrow>
    (app_config \<Rightarrow> ('n, 'k) server result option) \<Rightarrow> (('n, 'k) server \<Rightarrow> error option) \<Rightarrow> (string \<Rightarrow> string) \<Rightarrow>
    ('x, 'y, 'r) otel_globals \<Rightarrow> 'w \<Rightarrow> 'w exit" where
  "server_main lib shutdown build runs env g w =
     (case fst (otel_Init lib env ''blockchain-gateway'' g) of
        Inl err \<Rightarrow> fatalf ''otel init'' err w
      | Inr stop \<Rightarrow>
          (let deferred = snd (shutdown stop w);
               cfg = LoadConfig env in
           case build cfg of
             None \<Rightarrow> \<lparr>ex_code = 2, ex_fatal = None, ex_world = deferred\<rparr>
           | Some (Inl err) \<Rightarrow> fatalf ''build'' err w
           | Some (Inr srv) \<Rightarrow>
               (case runs srv of
                  Some err \<Rightarrow> fatalf ''run'' err w
                | None \<Rightarrow> \<lparr>ex_code = 0, ex_fatal = None, ex_world = deferred\<rparr>)))"

text \<open>The execution of a server's \<open>Run\<close>, from its start to the result \<open>err\<close>.\<close>

definition run_ends :: "(string \<Rightarrow> bool) \<Rightarrow> ('n, 'k) server \<Rightarrow> life_label list \<Rightarrow> lifecycle \<Rightarrow> error option \<Rightarrow> bool" where
  "run_ends subscribes srv ls s err \<longleftrightarrow> steps life_step (Run_start subscribes srv) ls s \<and> lv_phase s = Finished err"

text \<open>
  C14. In production the process ends with code 0 exactly when the tracing setup and the build succeeded and \<open>Run\<close> returned
  no error, and then only after a signal and with every follower of the server stopped; otherwise it ends with code 1 and a
  fatal error (it never panics while it starts), the error of \<open>Run\<close> when that is what failed. And a
  fatal error leaves the tracing providers as they are, although they must be shut down when the process exits.
\<close>

theorem server_exit:
  assumes "env ''DEV_MODE'' \<noteq> ''1''" and "\<And>xs. set (order xs) = set xs"
    and "\<And>srv. run_ends subscribes srv (ls srv) (s srv) (res srv)"
    and "e = server_main lib (otel_shutdown stopT stopM) (Build x D order connect df db env) res env g w"
  shows "(ex_code e = 0 \<longleftrightarrow>
      (\<exists>stop srv. fst (otel_Init lib env ''blockchain-gateway'' g) = Inr stop \<and>
         Build x D order connect df db env (LoadConfig env) = Some (Inr srv) \<and> res srv = None)) \<and>
    (\<forall>srv. ex_code e = 0 \<and> Build x D order connect df db env (LoadConfig env) = Some (Inr srv) \<longrightarrow>
       SelectSig \<in> set (ls srv) \<and> (\<forall>f \<in> set (lv_followers (s srv)). snd f = Returned)) \<and>
    (\<forall>stop srv err. fst (otel_Init lib env ''blockchain-gateway'' g) = Inr stop \<and>
       Build x D order connect df db env (LoadConfig env) = Some (Inr srv) \<and> res srv = Some err \<longrightarrow>
       ex_code e = 1 \<and> ex_fatal e = Some (''run'', err)) \<and>
    (ex_code e \<noteq> 0 \<longrightarrow> ex_code e = 1 \<and> ex_fatal e \<noteq> None \<and> ex_world e = w)"
proof (intro conjI)
  have b: "Build x D order connect df db env (LoadConfig env) \<noteq> None" using assms(1,2) by (rule Build_steps(3))
  note main = assms(4) [unfolded server_main_def fatalf_def Let_def]
  show zero: "ex_code e = 0 \<longleftrightarrow>
      (\<exists>stop srv. fst (otel_Init lib env ''blockchain-gateway'' g) = Inr stop \<and>
         Build x D order connect df db env (LoadConfig env) = Some (Inr srv) \<and> res srv = None)"
    unfolding main by (auto split: sum.splits option.splits)
  show "\<forall>srv. ex_code e = 0 \<and> Build x D order connect df db env (LoadConfig env) = Some (Inr srv) \<longrightarrow>
      SelectSig \<in> set (ls srv) \<and> (\<forall>f \<in> set (lv_followers (s srv)). snd f = Returned)"
  proof (intro allI impI)
    fix srv assume "ex_code e = 0 \<and> Build x D order connect df db env (LoadConfig env) = Some (Inr srv)"
    then have "res srv = None" using zero by auto
    then have "steps life_step (Run_start subscribes srv) (ls srv) (s srv)" "lv_phase (s srv) = Finished None"
      using assms(3) [of srv] by (simp_all add: run_ends_def)
    from run_nil_means_stopped [OF this]
    show "SelectSig \<in> set (ls srv) \<and> (\<forall>f \<in> set (lv_followers (s srv)). snd f = Returned)" by blast
  qed
  show "\<forall>stop srv err. fst (otel_Init lib env ''blockchain-gateway'' g) = Inr stop \<and>
       Build x D order connect df db env (LoadConfig env) = Some (Inr srv) \<and> res srv = Some err \<longrightarrow>
       ex_code e = 1 \<and> ex_fatal e = Some (''run'', err)"
    unfolding main by simp
  show "ex_code e \<noteq> 0 \<longrightarrow> ex_code e = 1 \<and> ex_fatal e \<noteq> None \<and> ex_world e = w"
    using b unfolding main by (auto split: sum.splits option.splits)
qed

text \<open>
  The port of a server in production is taken: the process ends with code 1 and the error of \<open>Run\<close>, and the tracing
  providers, which count their shutdowns here, have not been shut down.
\<close>

definition sample_otel :: "(unit, unit, unit) otel_lib" where
  "sample_otel = \<lparr>ol_resource = (\<lambda>_. Inr ()), ol_spanExporter = (\<lambda>_. Inr ()), ol_metricExporter = (\<lambda>_. Inr ())\<rparr>"

definition no_providers :: "(unit, unit, unit) otel_globals" where
  "no_providers = \<lparr>og_tracer = None, og_meter = None, og_propagators = []\<rparr>"

abbreviation sample_builder :: "app_config \<Rightarrow> (unit, unit) server result option" where
  "sample_builder \<equiv> Build (\<lambda>_ _ _ w. (HttpFail ErrContextDone, w)) sample_decimals (\<lambda>xs. xs) sample_audit
     \<lparr>df_open = None, df_ping = None, df_migrate = None\<rparr> sample_db (sample_settings ''dogecoin'')"

theorem server_exit_witness:
  "ex_world (server_main sample_otel (otel_shutdown (\<lambda>_ n. (Inr (), n + 1)) (\<lambda>_ n. (Inr (), n + 1))) sample_builder
      (\<lambda>_. Some (ErrMessage ''bind: address already in use'')) (sample_settings ''dogecoin'') no_providers (0 :: nat)) = 0"
proof -
  let ?err = "ErrMessage ''bind: address already in use''"
  let ?e = "server_main sample_otel (otel_shutdown (\<lambda>_ n. (Inr (), n + 1)) (\<lambda>_ n. (Inr (), n + 1))) sample_builder
      (\<lambda>_. Some ?err) (sample_settings ''dogecoin'') no_providers (0 :: nat)"
  have "\<forall>srv :: (unit, unit) server. \<exists>s. run_ends (\<lambda>_. True) srv [ServeReturns ?err, SelectErr] s (Some ?err)"
    unfolding run_ends_def by (intro allI Run_start_fails)
  then obtain s where s: "run_ends (\<lambda>_. True) srv [ServeReturns ?err, SelectErr] (s srv) (Some ?err)" for srv :: "(unit, unit) server"
    by metis
  have code: "ex_code ?e \<noteq> 0"
    using sample_server_built by (auto simp: server_main_def fatalf_def Let_def split: sum.split)
  note exit = server_exit [where subscribes = "\<lambda>_. True" and res = "\<lambda>_. Some ?err" and ls = "\<lambda>_. [ServeReturns ?err, SelectErr]" and s = s and
      env = "sample_settings ''dogecoin''", OF sample_settings_simps(1) refl s refl]
  from exit [THEN conjunct2, THEN conjunct2, THEN conjunct2, THEN mp, OF code] show ?thesis
    by (rule conjunct2 [THEN conjunct2])
qed

end
