(* ===== verification/Spec2Isabelle.thy ===== *)
theory Spec2Isabelle
  imports Codec Provider_Pool Subscriptions Pool_Lifecycle Migrate_Cmd Server_Lifecycle
begin

text \<open>
  \<^bold>\<open>The blockchain gateway\<close>

  The gateway accepts signed transactions over HTTP, submits them to the node of their chain, follows
  them to finality, watches for reorganisations and publishes an event for every change. This development models
  the Go code under \<open>src/internal\<close> and \<open>src/cmd\<close> as functions on explicit states, with every early return and every
  error as a branch, and proves what the components and their compositions guarantee.

  \<^bold>\<open>How the parts interact.\<close> A request enters through the router (\<open>Rest_Api\<close>), which hands it to the
  broadcast service (\<open>Broadcast_Service\<close>). The service looks for an earlier submission, has the sender
  funded and a nonce reserved (\<open>Prepayment\<close>, \<open>Nonce\<close>), submits with retries through the chain's adapter
  (\<open>Chain_Adapter\<close>, \<open>Rpc_Adapters\<close>), stores a row and a first confirmation, registers the transaction with
  the confirmation pool and the mempool watcher and emits an event. A follower per chain
  (\<open>Tip_Follower\<close>) takes heads, stores the tip, calls the reorg detector (\<open>Reorg_Detector\<close>) on a parent mismatch,
  fans the head out to subscribers (\<open>Heads_Stream\<close> is one of them) and queues a job per tracked transaction for the
  workers (\<open>Confirmation_Pool\<close>). Workers and detector change the confirmation rows and emit events, which the
  emitter (\<open>Bus_Emitter\<close>) passes to the outbox, the publisher (\<open>Event_Bus\<close>) and the audit topic. \<open>Gateway_App\<close>
  decides at start-up what all of this is made of, \<open>Server_Lifecycle\<close> runs it and shuts it down.

  \<^bold>\<open>Theories and sources.\<close>
  \<^item> \<open>Gateway_Prelude\<close>: types, runs of a step function, the locales for machines with an invariant, machines with a progress
    order, bounded logs and step relations whose work runs out, and the arithmetic of unsigned confirmation counts.
  \<^item> \<open>Go_Lib\<close>, \<open>Go_Json\<close>, \<open>Go_Float\<close>, \<open>Go_Time\<close>: what the sources use of Go's library: decimal and hexadecimal text, scanning,
    splitting, \<open>big.Int\<close>, decoding JSON into variables, \<open>float64\<close> rounding, durations.
  \<^item> \<open>Codec\<close>: \<open>stubHash\<close> of \<open>chain/registry.go\<close> and \<open>broadcast/service.go\<close>, base64 of \<open>chain/adapters.go\<close> and \<open>api/rest/router.go\<close>.
  \<^item> \<open>Chain_Types\<close>: \<open>chain/types.go\<close>, the lifecycle of a status and all error values.
  \<^item> \<open>Store_Spec\<close>: the interfaces of \<open>store/store.go\<close> as records of operations, their contracts as locales.
  \<^item> \<open>Mem_Store\<close>: \<open>store/memstore/memstore.go\<close>; \<open>Postgres_Store\<close>: \<open>store/postgres/postgres.go\<close>.
  \<^item> \<open>Chain_Adapter\<close>, \<open>Chain_Config\<close>: \<open>chain/adapter.go\<close> and \<open>chain/registry.go\<close> (the registry, the stub, the loader);
    \<open>Rpc_Adapters\<close>: \<open>chain/adapters.go\<close> (JSON-RPC, EVM, Solana, Bitcoin); \<open>Subscriptions\<close>: the channels of heads and mempool
    events that the adapters and the stub hand out.
  \<^item> \<open>Confirmation_Pool\<close>: \<open>confirmation/pool.go\<close>, with the worker goroutines and \<open>Stop\<close> in \<open>Pool_Lifecycle\<close>; \<open>Reorg_Detector\<close>: \<open>reorg/detector.go\<close>; \<open>Tip_Follower\<close>: \<open>tip/follower.go\<close>;
    \<open>Mempool_Watcher\<close>: \<open>mempool/watcher.go\<close>; \<open>Fee_Estimator\<close>: \<open>fee/estimator.go\<close>; \<open>Provider_Pool\<close>: \<open>provider/pool.go\<close>.
  \<^item> \<open>Nonce\<close>: \<open>prepayment/nonce.go\<close>; \<open>Prepayment\<close>: \<open>prepayment/manager.go\<close> and the client of \<open>walletclient/client.go\<close>, whose HTTP
    exchange is \<open>Wallet_Http\<close>.
  \<^item> \<open>Event_Bus\<close>: \<open>eventbus/bus.go\<close> and \<open>audit/log.go\<close>; \<open>Bus_Emitter\<close>: the emitter and the audit sink of \<open>app/app.go\<close>.
  \<^item> \<open>Broadcast_Service\<close>: \<open>broadcast/service.go\<close> and \<open>broadcast/rebroadcaster.go\<close>.
  \<^item> \<open>Rest_Api\<close>: \<open>api/rest/router.go\<close>; \<open>Heads_Stream\<close>: \<open>api/ws/handler.go\<close>; \<open>Gateway_App\<close>: the configuration and \<open>Build\<close> of
    \<open>app/app.go\<close>.
  \<^item> \<open>Telemetry\<close>: \<open>otel/otel.go\<close>; \<open>Server_Lifecycle\<close>: \<open>Run\<close>, \<open>StartFollowers\<close> and \<open>Shutdown\<close> of \<open>app/app.go\<close> and \<open>cmd/server/main.go\<close>;
    \<open>Migrate_Cmd\<close>: \<open>cmd/migrate/main.go\<close> and the scripts it runs.

  \<^bold>\<open>State and operations.\<close> A struct is a record with the same fields under a two-letter prefix, a Go map an association list
  (\<open>gomap\<close>), a method a function that takes the state and returns its result with the new state. A client of an
  interface is written over the interface's record, so that the same definitions run on either store and
  on any adapter. An operation that reads the clock or draws an id takes the readings as arguments; a
  \<open>uint64\<close> is a \<open>64 word\<close>, and the counts of confirmations wrap around as they do in Go. Where goroutines meet outside a
  lock (the server with its followers, the workers with \<open>Stop\<close>) the component is an inductive step relation with labels, and
  \<open>steps\<close> are its executions. Where the workers and the reorg detector meet on the confirmation store (\<open>sys_step\<close>), a worker's job is three
  steps, one read and two writes, with the writes of others in between.

  \<^bold>\<open>What is shown.\<close>
  \<^item> Workers: they refine a specification of one row; a row only moves forward, its events are exactly those of its moves, it is
    finalized exactly when a job shows the depth (the finality gadget of the documents is never asked), and a transaction posted over HTTP and
    included reaches \<open>FINALIZED\<close> at the status endpoint; a reorged-out row does not count again through any interleaving of reads and writes, as long as
    no worker had read it before. A stale head, a reorg between read and write, and a chain without a configured depth are
    where this breaks, each as a theorem.
  \<^item> Stores: both meet the contracts or, for PostgreSQL, simulate the in-memory store, listings row by row; the outbox accepts an event once under
    any interleaving and any failure; rows follow the lifecycle.
  \<^item> Reorgs: what a detected reorg marks and records, and that a row changes by the moves of the heads and nothing else; that no head of a real adapter can lead to
    one, and no tip of PostgreSQL, whose table lacks a column that both statements of the tip store name.
  \<^item> Broadcasting: a repeated request gets the same reply and changes nothing where the adapter returns the predicted hash; the errors and
    the codes of every branch, over any stores; a hash that a real adapter returns is that of the bytes, however the node refuses or orders its reply; the
    bounds of the retry loop; consecutive nonces and paid gas.
  \<^item> Events: the publisher gets each event once, in order, under any emissions.
  \<^item> Interfaces: the members of every reply against the README's table, with the differences, a WebSocket client gets the heads in order, and a
    production server starts exactly when everything it needs is configured and knows exactly the configured chains.
  \<^item> Starting and stopping: after a signal the server cannot get stuck and ends after boundedly many steps, and when it ends cleanly
    every follower has returned; \<open>Stop\<close> of the workers drains every queue; the exit code of the server tells a clean end from a fatal
    one; migrating up and down is a round trip. An HTTP server that fails, followers on the background context and a fatal exit
    are where a clean end is missed, each as a theorem.
  \<^item> Numbers: the \<open>float64\<close> percentile is the exact nearest rank, base64 and arrays are read back.

  \<^bold>\<open>Bounds.\<close> A loop over a channel or a ticker is a recursion over the list of what it meets, so it ends with the
  list; theorems hold for every list. The retry loop recurses on the attempts left, the waiting loops on the polls up to the
  timeout, and that they return is proved. Executions of the step relations have a bound
  on the steps that lead to their end: four and one per follower, or one per queued job and one per worker. The percentile is exact up to \<open>10 ^ 8\<close> samples, where the window holds 20.

  \<^bold>\<open>Parameters.\<close> The exchange with a node or the wallet service, the decimals of the Bitcoin adapter, the faults of the database
  driver, the rounding of times and the text of arrays by the server, the OpenTelemetry exporters and providers, the Kafka producer, SHA-256 and the
  text of JSON, the order of a map's keys. Where a theorem relies on them it says so in a hypothesis.

  \<^bold>\<open>Not modelled.\<close> The helpers that only read something back for tests (\<open>AsStub\<close>, \<open>StubEmitter\<close>, \<open>Registry\<close>, \<open>HTTPHandler\<close>), the
  \<open>Close\<close> of the two Kafka writers, the matching of paths by chi, contexts other than as timeouts and ends of goroutines, and log output other
  than that of the followers. Inside a component goroutines are interleavings of the operations that take its lock. Of \<open>net/http\<close>,
  OpenTelemetry and the database only what they promise enters, as rules of the step relation or as parameters.
\<close>

section \<open>Workers, emitter and bus\<close>

lemma filter_zip_snd:
  "length xs = length ys \<Longrightarrow> map snd (filter (\<lambda>x. P (snd x)) (zip xs ys)) = filter P ys"
  by (induction xs ys rule: list_induct2) auto

lemma distinct_map_coarser:
  "distinct (map g xs) \<Longrightarrow> (\<And>x y. x \<in> set xs \<Longrightarrow> y \<in> set xs \<Longrightarrow> f x = f y \<Longrightarrow> g x = g y) \<Longrightarrow> distinct (map f xs)"
  unfolding distinct_map inj_on_def by blast

text \<open>
  The emitter's events for one transaction, when the workers emit each kind at most once and the
  outbox has none of them yet: the outbox refuses nothing.
\<close>

lemma own_events_first:
  fixes c h :: string and seen :: "(string \<times> string \<times> status \<times> u64) set"
  defines "mine \<equiv> \<lambda>e :: bus_event. be_ChainID e = c \<and> be_TxHash e = h"
    and "bes \<equiv> \<lambda>envs es. map (\<lambda>x. conf_bus_event (fst x) (snd x)) (zip envs es)"
  assumes len: "length envs = length es"
    and shape: "\<And>e. e \<in> set (events_of c h es) \<Longrightarrow> ev_Type e = ''tx.confirmed'' \<and> ev_Status e = StatusConfirmed \<or>
      ev_Type e = ''tx.finalized'' \<and> ev_Status e = StatusFinalized"
    and once: "distinct (map ev_Type (events_of c h es))"
    and new: "\<forall>n. (c, h, StatusConfirmed, n) \<notin> seen \<and> (c, h, StatusFinalized, n) \<notin> seen"
  shows "map be_Type (filter mine (firsts seen (bes envs es))) = map ev_Type (events_of c h es)"
proof -
  let ?bus = "\<lambda>x. conf_bus_event (fst x) (snd x)"
  let ?own = "filter (\<lambda>x. ev_ChainID (snd x) = c \<and> ev_TxHash (snd x) = h) (zip envs es)"
  have snds: "map snd ?own = events_of c h es"
    using filter_zip_snd [OF len, of "\<lambda>e. ev_ChainID e = c \<and> ev_TxHash e = h"] by (simp add: events_of_def)
  have owned: "filter mine (bes envs es) = map ?bus ?own"
    by (simp add: mine_def bes_def filter_map comp_def conf_bus_event_def bus_event_of_def)
  have ident: "event_id (?bus x) = (c, h, ev_Status (snd x), ev_BlockHeight (snd x)) \<and>
      (ev_Type (snd x) = ''tx.confirmed'' \<and> ev_Status (snd x) = StatusConfirmed \<or>
       ev_Type (snd x) = ''tx.finalized'' \<and> ev_Status (snd x) = StatusFinalized)" if x: "x \<in> set ?own" for x
  proof -
    have "snd x \<in> set (map snd ?own)" using x by (simp only: set_map imageI)
    then show ?thesis
      using shape [of "snd x"] x unfolding snds by (simp add: conf_bus_event_def bus_event_of_def event_id_def)
  qed
  have "distinct (map (\<lambda>x. ev_Type (snd x)) ?own)" using once snds by (metis (no_types, lifting) list.map_comp comp_apply map_eq_conv)
  then have "distinct (map (\<lambda>x. event_id (?bus x)) ?own)"
  proof (rule distinct_map_coarser)
    fix x y assume "x \<in> set ?own" "y \<in> set ?own" and "event_id (?bus x) = event_id (?bus y)"
    with ident [of x] ident [of y] show "ev_Type (snd x) = ev_Type (snd y)" by auto
  qed
  then have "distinct (map event_id (filter mine (bes envs es)))" unfolding owned by (simp add: comp_def)
  moreover have "\<forall>e \<in> set (filter mine (bes envs es)). event_id e \<notin> seen"
    unfolding owned using ident new by fastforce
  ultimately have "firsts seen (filter mine (bes envs es)) = filter mine (bes envs es)" by (rule firsts_new)
  then have "filter mine (firsts seen (bes envs es)) = map ?bus ?own"
    using firsts_filter [of mine seen "bes envs es"] owned by (simp add: event_id_def mine_def)
  then show ?thesis unfolding snds [symmetric] by (simp add: conf_bus_event_def bus_event_of_def)
qed

text \<open>
  C2. From the confirmation workers to the publisher: whatever jobs the workers handle, and whatever
  the nodes answer, the events that reach the publisher for one transaction are exactly those of the
  status moves its row has made, each once and in order, provided that the outbox held none of its
  confirmed or finalized events before.
\<close>

theorem workers_events_published:
  assumes "conf_inv s" and "sep_free c" and "conf_Get c h s = Inr r" and "rounds_ok rds"
    and "bu_outbox b = mem_outbox_store uuid_str" and "outbox_inv (bus_outbox bst)"
    and "length envs = length (fst (mem_rounds fin rds s))"
    and "\<forall>x \<in> set (zip envs (fst (mem_rounds fin rds s))). emission_ok b x"
    and "\<forall>n. (c, h, StatusConfirmed, n) \<notin> outbox_id ` set (ob_entries (bus_outbox bst)) \<and>
      (c, h, StatusFinalized, n) \<notin> outbox_id ` set (ob_entries (bus_outbox bst))"
  shows "\<exists>r' pubs. conf_Get c h (snd (mem_rounds fin rds s)) = Inr r' \<and>
    bus_world (fst (run (emitter_step b sink) (bst, k) (zip envs (fst (mem_rounds fin rds s))))) =
      publish_all b pubs (bus_world bst) \<and>
    map be_Type (filter (\<lambda>e. be_ChainID e = c \<and> be_TxHash e = h) pubs) =
      status_events (cf_Status r) (cf_Status r')"
proof -
  let ?es = "fst (mem_rounds fin rds s)"
  let ?seen = "outbox_id ` set (ob_entries (bus_outbox bst))"
  obtain r' where r': "conf_Get c h (snd (mem_rounds fin rds s)) = Inr r'"
    "same_progress r' (snd (spec_rounds fin c h rds r))" "events_of c h ?es = fst (spec_rounds fin c h rds r)"
    using mem_rounds_refine [OF assms(1-4), of fin] by blast
  then have types: "map ev_Type (events_of c h ?es) = status_events (cf_Status r) (cf_Status r')"
    using spec_rounds_advances [of r fin c h rds] by (simp add: same_progress_def)
  have "map be_Type (filter (\<lambda>e. be_ChainID e = c \<and> be_TxHash e = h)
      (firsts ?seen (map (\<lambda>x. conf_bus_event (fst x) (snd x)) (zip envs ?es)))) = map ev_Type (events_of c h ?es)"
  proof (rule own_events_first [OF assms(7) _ _ assms(9)])
    show "distinct (map ev_Type (events_of c h ?es))" unfolding types by (simp add: status_events_def)
  qed (use spec_rounds_shape r'(3) in metis)
  then show ?thesis
    using r'(1) mem_outbox_emitter_stream [OF assms(5,6,8), of sink k, THEN conjunct1] unfolding types by blast
qed

theorem workers_events_published_witness:
  "\<exists>r' pubs. conf_Get ''ethereum'' ''0xab'' (snd (mem_rounds 3 [sample_round 100] sample_pending)) = Inr r' \<and>
    bus_world (fst (run (emitter_step sample_bus None) (NewBus NewOutboxStore [], ())
      (zip [sample_emit_env] (fst (mem_rounds 3 [sample_round 100] sample_pending))))) =
        publish_all sample_bus pubs (bus_world (NewBus NewOutboxStore [])) \<and>
    map be_Type (filter (\<lambda>e. be_ChainID e = ''ethereum'' \<and> be_TxHash e = ''0xab'') pubs) =
      status_events (cf_Status ((sample_row StatusMempool)\<lparr>cf_BlockHeight := 0\<rparr>)) (cf_Status r')"
proof -
  let ?es = "fst (mem_rounds 3 [sample_round 100] sample_pending)"
  have bus: "bu_outbox sample_bus = mem_outbox_store (\<lambda>_. [])" "outbox_inv (bus_outbox (NewBus NewOutboxStore []))"
    by (simp_all add: sample_bus_def NewBus_def)
  have es: "?es = [sample_conf_event]"
    by (simp add: process_def process_row_def process_include_def mem_confirmation_store_def conf_Get_def sample_pending_def
        sample_round_def sample_status_def sample_row_def conf_Transition_def CanTransitionTo_def sample_conf_event_def Let_def)
  have ok: "rounds_ok [sample_round 100]" using sample_facts(2) [of "[100]"] by simp
  have len: "length [sample_emit_env] = length ?es"
    and em: "\<forall>x \<in> set (zip [sample_emit_env] ?es). emission_ok sample_bus x" unfolding es by simp_all
  have none: "\<forall>n. (''ethereum'', ''0xab'', StatusConfirmed, n) \<notin> outbox_id ` set (ob_entries (bus_outbox (NewBus NewOutboxStore []))) \<and>
      (''ethereum'', ''0xab'', StatusFinalized, n) \<notin> outbox_id ` set (ob_entries (bus_outbox (NewBus NewOutboxStore [])))"
    by (simp add: NewBus_def NewOutboxStore_def)
  show ?thesis
    by (rule workers_events_published [OF sample_pending_inv sample_facts(1,6) ok bus len em none])
qed

section \<open>Workers and reorg detector on one store\<close>

text \<open>
  The confirmation workers and the reorg detector share the confirmation store, whose operations are
  atomic, and nothing else. A worker's job is three steps with other goroutines in between: it reads the row into a
  local copy; it asks the node when the copy has no block, and makes its first write, the
  transition to confirmed or the count of confirmations; it makes its second write, the transition to finalized. The
  detector's writes are \<open>mark_reorged\<close> with a row it listed at any time before, and the transition of a
  re-broadcast row. A worker in the middle of a job has its local copy.
\<close>

datatype worker_at = Idle | Loaded round confirmation | Counted round confirmation

record system =
  sy_confs :: mem_confirmations
  sy_at :: "nat \<Rightarrow> worker_at"
  sy_events :: "conf_event list"

datatype sys_op = ReadRow nat round | WriteCount nat | WriteFinal nat | Mark string confirmation | Requeue string string

definition work_count :: "round \<Rightarrow> confirmation \<Rightarrow> mem_confirmations \<Rightarrow> conf_event list \<times> worker_at \<times> mem_confirmations" where
  "work_count rd c s =
     (let j = rd_job rd;
          count = (\<lambda>c. let (c', s') = process_count mem_confirmation_store (rd_clk rd) (rd_uuid rd) j c s in ([], Counted rd c', s')) in
      if cf_BlockHeight c = 0 then
        (case rd_answer rd (jb_txHash j) of
           Inl _ \<Rightarrow> ([], Idle, s)
         | Inr None \<Rightarrow> ([], Idle, s)
         | Inr (Some status) \<Rightarrow>
             if ts_BlockHeight status = 0 then ([], Idle, s)
             else (let c = c\<lparr>cf_BlockHeight := ts_BlockHeight status, cf_BlockHash := ts_BlockHash status, cf_Confirmations := 1\<rparr> in
                   if cf_Status c = StatusMempool \<or> cf_Status c = StatusBroadcast
                   then (let (es, s') = process_include mem_confirmation_store (rd_clk rd) j c s in (es, Idle, s'))
                   else count c))
      else count c)"

fun sys_step :: "u64 \<Rightarrow> system \<Rightarrow> sys_op \<Rightarrow> system" where
  "sys_step fin y (ReadRow i rd) =
     (case (sy_at y i, conf_Get (jb_chainID (rd_job rd)) (jb_txHash (rd_job rd)) (sy_confs y)) of
        (Idle, Inr c) \<Rightarrow> if IsTerminal (cf_Status c) then y else y\<lparr>sy_at := (sy_at y)(i := Loaded rd c)\<rparr>
      | _ \<Rightarrow> y)"
| "sys_step fin y (WriteCount i) =
     (case sy_at y i of
        Loaded rd c \<Rightarrow>
          (let (es, l, s) = work_count rd c (sy_confs y) in
           \<lparr>sy_confs = s, sy_at = (sy_at y)(i := l), sy_events = sy_events y @ es\<rparr>)
      | _ \<Rightarrow> y)"
| "sys_step fin y (WriteFinal i) =
     (case sy_at y i of
        Counted rd c \<Rightarrow>
          (let (es, s) = process_final mem_confirmation_store fin (rd_clk rd) (rd_job rd) c (sy_confs y) in
           \<lparr>sy_confs = s, sy_at = (sy_at y)(i := Idle), sy_events = sy_events y @ es\<rparr>)
      | _ \<Rightarrow> y)"
| "sys_step fin y (Mark c r) = y\<lparr>sy_confs := mark_reorged mem_confirmation_store c (sy_confs y) r\<rparr>"
| "sys_step fin y (Requeue c h) =
     y\<lparr>sy_confs := snd (conf_Transition c h StatusReorgedOut StatusMempool id (sy_confs y))\<rparr>"

text \<open>The three steps of a job with nothing in between are the handler.\<close>

lemma steps_make_process:
  assumes "sy_at y i = Idle"
  shows "run (sys_step fin) y [ReadRow i rd, WriteCount i, WriteFinal i] =
    (let (es, s) = process mem_confirmation_store (rd_answer rd) fin (rd_clk rd) (rd_uuid rd) (rd_job rd) (sy_confs y) in
     y\<lparr>sy_confs := s, sy_events := sy_events y @ es\<rparr>)"
proof -
  have upd: "(sy_at y)(i := Idle) = sy_at y" using assms by auto
  show ?thesis
    using assms upd
    by (auto simp: process_def process_row_def work_count_def process_confs_halves Let_def
        split: sum.splits option.splits prod.splits if_splits)
qed






















section \<open>Adapters, follower and detector\<close>

lemma bare_head_quiet:
  "hd_ParentHash h = [] \<Longrightarrow> same_but_tips (fl_det (handleHead f clk u u' h st)) (fl_det st)"
  by (simp add: handleHead_def same_but_tips_def Let_def split: sum.split)

lemma handleTick_quiet: "same_but_tips (fl_det (handleTick f clk u u' ans st)) (fl_det st)"
  by (auto simp: handleTick_def intro: bare_head_quiet split: sum.split)

lemma runPoll_quiet: "same_but_tips (fl_det (snd (runPoll f es st))) (fl_det st)"
proof (induction f es st rule: runPoll.induct)
  case (2 f clk u u' ans es st)
  then show ?case using handleTick_quiet same_but_tips_trans by (simp only: runPoll.simps) blast
qed simp_all

text \<open>An event of the follower's loop that leaves the detector's state alone, whatever it is.\<close>

fun quiet_event :: "('t, 'r, 'c, 'w) follower \<Rightarrow> follow_event \<Rightarrow> bool" where
  "quiet_event f (FHead clk u u' h) \<longleftrightarrow> (\<forall>st. same_but_tips (fl_det (handleHead f clk u u' h st)) (fl_det st))"
| "quiet_event f _ \<longleftrightarrow> True"

lemma follow_heads_quiet:
  "list_all (quiet_event f) es \<Longrightarrow> same_but_tips (fl_det (snd (follow_heads f es st))) (fl_det st)"
proof (induction f es st rule: follow_heads.induct)
  case (2 f clk u u' h es st)
  then show ?case by (auto intro: same_but_tips_trans)
next
  case (4 f clk u u' ans es st)
  then show ?case using same_but_tips_trans [OF _ handleTick_quiet [of f clk u u' ans st]] by simp
qed (simp_all add: runPoll_quiet)

lemma follower_quiet: "list_all (quiet_event f) es \<Longrightarrow> same_but_tips (fl_det (snd (follower_Run f subscribed es st))) (fl_det st)"
  by (simp add: follower_Run_def follow_heads_quiet runPoll_quiet)

text \<open>
  C37. With the three real adapters reorgs are never detected: whatever the node answers, a follower fed
  by an adapter's subscription, over any stores and with its own polls in between, never changes a
  confirmation, records a reorg, emits an event or re-broadcasts, because a polled head has no parent
  hash to compare with the stored tip.
\<close>

theorem polled_heads_never_reorg:
  assumes "tick = evm_heads_tick x e \<and> cid = evm_chainID e \<or> tick = sol_heads_tick x s \<and> cid = sol_chainID s \<or>
      tick = btc_heads_tick x b \<and> cid = btc_chainID b"
    and "\<forall>clk u u' h. FHead clk u u' h \<in> set es \<longrightarrow> h \<in> set (polled_heads tick ps w)"
  shows "same_but_tips (fl_det (snd (follower_Run f subscribed es st))) (fl_det st)"
proof -
  have "reports cid tick" using assms(1) heads_ticks_report by metis
  then have "list_all (bare_head cid) (polled_heads tick ps w)"
    using poll_run_bare [of cid tick "((0, []), w)" "[]" ps] by (simp add: polled_heads_def)
  then have "quiet_event f ev" if "ev \<in> set es" for ev
    using assms(2) that by (cases ev) (auto simp: list_all_iff bare_head_def intro: bare_head_quiet)
  then show ?thesis by (simp add: follower_quiet list_all_iff)
qed

theorem polled_heads_never_reorg_witness:
  "same_but_tips (fl_det (snd (follower_Run sample_follower True
     (map (FHead (\<lambda>_. 1) 1 2) (polled_heads (evm_heads_tick (sample_rpc_node hex_decode) (NewEVMAdapter sample_rpc_config))
        [PollTick 1, PollTake] ())) (sample_following StatusConfirmed)))) (fl_det (sample_following StatusConfirmed))"
  by (rule polled_heads_never_reorg [where e = "NewEVMAdapter sample_rpc_config" and s = "NewSolanaAdapter sample_rpc_config" and
        b = "NewBitcoinAdapter sample_rpc_config" and x = "sample_rpc_node hex_decode" and w = "()" and ps = "[PollTick 1, PollTake]" and
        cid = "''ethereum''" and tick = "evm_heads_tick (sample_rpc_node hex_decode) (NewEVMAdapter sample_rpc_config)"]) auto

section \<open>Configuration, adapters and workers\<close>

text \<open>
  A chain without a configured finality depth: the loader gives the three EVM chains that have no
  default (arbitrum, optimism, base) the depth zero, the adapter passes it on, and the first job for
  a confirmed transaction finalizes it, whatever the tip.
\<close>

theorem unconfigured_finality_immediate:
  assumes "cid = ''arbitrum'' \<or> cid = ''optimism'' \<or> cid = ''base''"
    and "env (''FINALITY_BLOCKS_'' @ to_upper cid) = []" and "load_chain env strategy cid = Inr cfg"
    and "conf_inv s" and "sep_free cid" and "conf_Get cid h s = Inr r" and "own cid h rd"
    and "cf_Status r = StatusConfirmed" and "cf_BlockHeight r \<noteq> 0"
  shows "\<exists>r'. conf_Get cid h (snd (mem_rounds (ad_FinalityBlocks (evm_ops x (NewEVMAdapter cfg))) [rd] s)) = Inr r' \<and>
    cf_Status r' = StatusFinalized"
proof -
  have "cc_FinalityBlocks cfg = 0"
    using assms(1) by (intro unlisted_chain_zero_depth [OF assms(2) _ assms(3)]) (auto simp: defaultChainConfigs_def)
  then have fin: "ad_FinalityBlocks (evm_ops x (NewEVMAdapter cfg)) = 0" by (simp add: evm_ops_def)
  have "cf_Status (snd (spec_rounds 0 cid h [rd] r)) = StatusFinalized"
    using assms(7-9) by (simp add: spec_rounds_own spec_row_def spec_confs_def Let_def del: spec_rounds.simps(2))
  moreover have "rounds_ok [rd]" using assms(5,7) by (simp add: rounds_ok_def own_def)
  ultimately show ?thesis
    unfolding fin using mem_rounds_refine [OF assms(4-6), of "[rd]" 0] by (auto simp: same_progress_def)
qed

theorem unconfigured_finality_immediate_witness:
  "\<exists>r'. conf_Get ''base'' ''0xab'' (snd (mem_rounds (ad_FinalityBlocks (evm_ops (sample_rpc_node hex_decode)
        (NewEVMAdapter \<lparr>cc_ChainID = ''base'', cc_RPCURLs = [], cc_WSURLs = [], cc_FinalityBlocks = 0, cc_GasStrategy = ''g''\<rparr>)))
      [(sample_round 200)\<lparr>rd_job := \<lparr>jb_chainID = ''base'', jb_txHash = ''0xab'', jb_tip = 200\<rparr>\<rparr>]
      (snd (conf_Upsert 1 1 ((sample_row StatusConfirmed)\<lparr>cf_ChainID := ''base''\<rparr>) NewConfirmationStore)))) = Inr r' \<and>
    cf_Status r' = StatusFinalized"
proof (rule unconfigured_finality_immediate)
  let ?row = "(sample_row StatusConfirmed)\<lparr>cf_ChainID := ''base''\<rparr>"
  show "load_chain (\<lambda>_. []) ''g'' ''base'' = Inr \<lparr>cc_ChainID = ''base'', cc_RPCURLs = [], cc_WSURLs = [], cc_FinalityBlocks = 0, cc_GasStrategy = ''g''\<rparr>"
    by (simp add: load_chain_def defaultChainConfigs_def plain_config_def config_splitCSV_def Let_def)
  show "conf_Get ''base'' ''0xab'' (snd (conf_Upsert 1 1 ?row NewConfirmationStore)) = Inr ?row"
    by (simp add: conf_Upsert_def conf_Get_def NewConfirmationStore_def sample_row_def fill_confirmation_def Let_def)
  show "conf_inv (snd (conf_Upsert 1 1 ?row NewConfirmationStore))"
    by (simp add: conf_inv_def wf_map_def sep_free_def conf_Upsert_def NewConfirmationStore_def sample_row_def fill_confirmation_def Let_def)
qed (simp_all add: own_def sep_free_def sample_row_def)

section \<open>PostgreSQL under the workers and the follower\<close>

lemma follower_idle:
  assumes "\<And>clk u u' h st. fl_det (handleHead f clk u u' h st) = fl_det st"
  shows "fl_det (snd (follower_Run f subscribed es st)) = fl_det st"
proof -
  have tick: "fl_det (handleTick f clk u u' ans st) = fl_det st" for clk u u' ans st
    by (simp add: handleTick_def assms split: sum.split)
  have poll: "fl_det (snd (runPoll f es st)) = fl_det st" for es st
    using tick by (induction f es st rule: runPoll.induct) simp_all
  have "fl_det (snd (follow_heads f es st)) = fl_det st"
    using tick assms poll by (induction f es st rule: follow_heads.induct) simp_all
  then show ?thesis by (simp add: follower_Run_def poll)
qed

text \<open>
  C19. With the PostgreSQL store and the table of the migration no tip is ever stored and reorgs are never
  detected, whatever the heads say and whether or not the statements fail: the statements of the store name
  a column that \<open>chain_tips\<close> does not have, so every read is an error and every write is an error that leaves the
  table as it was; the follower ignores both, and any run of it leaves the tips, the confirmations, the reorg
  events, the emitted events and the re-broadcasts as they were.
\<close>

theorem pg_tips_never_reorg:
  assumes "fo_tips f = pg_tip_store chain_tips_columns ts fq fx"
  shows "fl_det (snd (follower_Run f subscribed es st)) = fl_det st \<and>
    (\<exists>e. tps_Get (fo_tips f) c tips = Inl e) \<and>
    (\<exists>e. tps_Upsert (fo_tips f) now u tp tips = (Inl e, tips))"
proof (intro conjI)
  have get: "\<exists>e. tps_Get (fo_tips f) c tips = Inl e" for c tips using assms by (simp add: pg_tip_store_def)
  have ups: "\<exists>e. tps_Upsert (fo_tips f) now u tp tips = (Inl e, tips)" for now u tp tips
    using assms pg_tip_rejected(1,2) [of ts fx now u tp tips] by (auto simp: pg_tip_store_def prod_eq_iff)
  show "\<exists>e. tps_Get (fo_tips f) c tips = Inl e" by (rule get)
  show "\<exists>e. tps_Upsert (fo_tips f) now u tp tips = (Inl e, tips)" by (rule ups)
  have "fl_det (handleHead f clk u u' h st) = fl_det st" for clk u u' h st
    using get [of "hd_ChainID h" "ds_tips (fl_det st)"] ups
    by (auto simp: handleHead_def Let_def) (metis (no_types, lifting) detector_state.surjective detector_state.update_convs(1) snd_conv)
  then show "fl_det (snd (follower_Run f subscribed es st)) = fl_det st" by (rule follower_idle)
qed

definition sample_pg_follower :: "(tip_row list, mem_reorgs, mem_confirmations, unit) follower" where
  "sample_pg_follower =
     (let tips = pg_tip_store chain_tips_columns (\<lambda>x. x) None NoFault in
      SetDetector (NewDetector tips mem_reorg_store mem_confirmation_store True) (NewFollower (stub_ops sample_stub) tips 0))"

definition sample_pg_following :: "(tip_row list, mem_reorgs, mem_confirmations, unit) follower_state" where
  "sample_pg_following = \<lparr>fl_det = \<lparr>ds_tips = [], ds_reorgs = NewReorgStore, ds_confirms = sample_confs StatusConfirmed, ds_world = (),
     ds_next = [], ds_emitted = []\<rparr>, fl_subs = NewSubscriber, fl_pool = NewWorkerPool 4 (stub_ops sample_stub)\<rparr>"

theorem pg_tips_never_reorg_witness:
  "fl_det (snd (follower_Run sample_pg_follower True [FHead (\<lambda>_. 1) 1 2 sample_fork] sample_pg_following)) =
     fl_det sample_pg_following"
  using pg_tips_never_reorg [of sample_pg_follower "\<lambda>x. x" None NoFault True "[FHead (\<lambda>_. 1) 1 2 sample_fork]" sample_pg_following
      "[]" "[]" 0 0 "\<lparr>tp_ID = 0, tp_ChainID = [], tp_TipHeight = 0, tp_TipHash = [], tp_FinalizedHeight = 0, tp_UpdatedAt = 0\<rparr>"]
  by (simp add: sample_pg_follower_def NewFollower_def SetDetector_def Let_def)

text \<open>
  A stale head on PostgreSQL: the wrapped count of confirmations does not fit the signed column, so
  the driver refuses both the update and the transition, and the row stays as it is. The in-memory
  store finalizes the row in the same situation.
\<close>

theorem pg_stale_head_refused:
  assumes "pg_conf_Get None c h t = Inr r" and "cf_Status r = StatusConfirmed" and "fits r"
    and "jb_chainID j = c" and "jb_txHash j = h" and "unat (jb_tip j) + 1 < unat (cf_BlockHeight r)"
  shows "process (pg_confirmation_store ts None fx) ans fin clk u j t = ([], t)"
proof -
  let ?n = "jb_tip j - cf_BlockHeight r + 1"
  have "unat (cf_BlockHeight r) < 2 ^ 63" using assms(3) by (simp add: fits_def fits_bigint_def)
  then have wrapped: "\<not> fits_bigint ?n"
    using unat_confs_stale [OF assms(6)] assms(6) by (simp add: fits_bigint_def)
  then have more: "cf_Confirmations r < ?n"
    using assms(3) by (simp add: fits_def fits_bigint_def word_less_nat_alt)
  have ne: "cf_BlockHeight r \<noteq> 0" using assms(6) by auto
  have row: "find (is_confirmation c h) t = Some r"
    using assms(1) by (simp add: pg_conf_Get_def query_def split: option.splits)
  show ?thesis
    using assms(1,2,4,5) ne wrapped more row
    by (simp add: process_def process_row_def process_confs_def pg_confirmation_store_def pg_conf_Upsert_def pg_conf_Transition_def
        query_def CanTransitionTo_def Let_def)
qed

theorem pg_stale_head_refused_witness:
  "process (pg_confirmation_store (\<lambda>x. x) None NoFault) (\<lambda>_. Inl ErrTxNotFound) 12 (\<lambda>_. 1) 1
     \<lparr>jb_chainID = ''ethereum'', jb_txHash = ''0xab'', jb_tip = 5\<rparr> [sample_row StatusConfirmed] = ([], [sample_row StatusConfirmed])"
proof (rule pg_stale_head_refused)
  show "pg_conf_Get None ''ethereum'' ''0xab'' [sample_row StatusConfirmed] = Inr (sample_row StatusConfirmed)"
    by (simp add: pg_conf_Get_def query_def is_confirmation_def sample_row_def)
qed (simp_all add: sample_row_def fits_def fits_bigint_def)

section \<open>From the request to the final status\<close>

lemma accepted_row:
  assumes "sc_broadcasts sv = mem_broadcast_store" and "sc_confirms sv = Some mem_confirmation_store"
    and "conf_inv (sv_confirms st)" and "sep_free (rq_ChainID req)"
    and "Broadcast sv inp (Some req) st = (Some (Inr resp), st')"
    and "bcast_GetByTxHash (rq_ChainID req) (predictHash (rq_SignedTx req)) (sv_broadcasts st) = Inl e"
  shows "conf_inv (sv_confirms st') \<and> (\<exists>r. conf_Get (rq_ChainID req) (rp_TxHash resp) (sv_confirms st') = Inr r \<and>
    cf_Status r = StatusBroadcast \<and> cf_BlockHeight r = 0 \<and> cf_Confirmations r = 0 \<and> cf_FinalizedAt r = zero_time)"
  using assms(5)
proof (cases rule: Broadcast_cases)
  case (known b)
  then show ?thesis using assms(1,6) by (simp add: mem_broadcast_store_def)
next
  case (accepted a n st1 h w bs)
  let ?c = "first_confirmation (bi_clk inp 2) (rq_ChainID req) h"
  have frame: "sv_confirms st1 = sv_confirms st"
    using prepay_step_frame(2) [of sv a "bi_env inp" req st] accepted(6) by simp
  then have st': "sv_confirms st' = snd (conf_Upsert (bi_clk inp 3) (bi_uuid inp 1) ?c (sv_confirms st))"
    using accepted(5) assms(2) by (simp add: mem_confirmation_store_def)
  have "conf_inv (sv_confirms st')"
    unfolding st' using mem_confirmation.Upsert_inv [OF assms(3), of ?c "bi_clk inp 3" "bi_uuid inp 1"] assms(4)
    by (simp add: first_confirmation_def mem_confirmation_store_def)
  moreover have "conf_Get (rq_ChainID req) h (sv_confirms st') = Inr (fill_confirmation (bi_clk inp 3) (bi_uuid inp 1) ?c)"
    unfolding st' by (simp add: conf_Upsert_def conf_Get_def first_confirmation_def)
  ultimately show ?thesis using accepted(3) by (simp add: fill_confirmation_def first_confirmation_def)
qed simp_all

text \<open>
  C3. A transaction from its request to finality, as the client sees it, on the in-memory stores: after a reply with code 200 the
  status endpoint says \<open>BROADCAST\<close>, without confirmations; when the node has included the transaction in block \<open>b\<close>, the heads that
  follow are not below \<open>b\<close> and one of them is deep enough, the endpoint says \<open>FINALIZED\<close>, and the
  workers have emitted one confirmed and one finalized event for it. Jobs for other transactions may
  come in between. This is what the code does, where the documents say otherwise: it finalizes by depth alone, without the finality
  gadget that \<open>README.md\<close> (reorg policy, 5) and \<open>PROJECT_PLAN.md\<close> (stage 6) demand; it sends the statuses in upper case, which the README lists
  in lower case; and before finality \<open>finalized_at\<close> is the zero time, where the README has null.
\<close>

theorem posted_reaches_finality:
  assumes "sc_broadcasts (dp_Broadcast d) = mem_broadcast_store" and "sc_confirms (dp_Broadcast d) = Some mem_confirmation_store"
    and "dp_Confirms d = mem_confirmation_store" and "conf_inv (sv_confirms (rs_service st))" and "sep_free c"
    and "hr_param post ''chain'' = c" and "parsed post = Some req"
    and "bcast_GetByTxHash c (predictHash (rq_SignedTx req)) (sv_broadcasts (rs_service st)) = Inl e"
    and "handleBroadcast d inp post st = (Reply 200 [(''tx_hash'', GStr h), (''nonce'', GUint n)], st1)"
    and "rounds_ok (rd # rds)" and "own c h rd" and "included (rd_answer rd h) = Some (b, bh)"
    and "\<forall>rd \<in> set rds. own c h rd \<longrightarrow> b \<le> jb_tip (rd_job rd)"
    and "\<exists>rd \<in> set rds. own c h rd \<and> unat b + unat fin \<le> unat (jb_tip (rd_job rd)) + 1"
    and "hr_param q ''chain'' = c" and "hr_param q ''hash'' = h"
    and "mem_rounds fin (rd # rds) (sv_confirms (rs_service st1)) = (evs, cs)"
  shows "\<exists>k t. handleGetTxStatus d q st1 =
      Reply 200 [(''status'', GStr ''BROADCAST''), (''confirmations'', GUint 0), (''finalized_at'', GTime zero_time)] \<and>
    handleGetTxStatus d q (st1\<lparr>rs_service := (rs_service st1)\<lparr>sv_confirms := cs\<rparr>\<rparr>) =
      Reply 200 [(''status'', GStr ''FINALIZED''), (''confirmations'', GUint k), (''finalized_at'', GTime t)] \<and>
    map ev_Type (events_of c h evs) = [''tx.confirmed'', ''tx.finalized'']"
proof -
  obtain req' resp svc where post: "parsed post = Some req'"
    and call: "Broadcast (dp_Broadcast d) inp (Some req') (rs_service st) = (Some (Inr resp), svc)"
    and h: "[(''tx_hash'', GStr h), (''nonce'', GUint n)] = [(''tx_hash'', GStr (rp_TxHash resp)), (''nonce'', GUint (rp_Nonce resp))]"
    and st1: "st1 = st\<lparr>rs_service := svc\<rparr>"
    using assms(9) by (rule handleBroadcast_ok)
  have req: "req' = req" "rq_ChainID req = c" using post assms(6,7) parsed_chain by auto
  obtain r where inv: "conf_inv (sv_confirms svc)" and r: "conf_Get c h (sv_confirms svc) = Inr r" "cf_Status r = StatusBroadcast"
    "cf_BlockHeight r = 0" "cf_Confirmations r = 0" "cf_FinalizedAt r = zero_time"
    using accepted_row [OF assms(1,2,4) _ call, of e] assms(5,8) h req by auto
  have before: "handleGetTxStatus d q st1 =
      Reply 200 [(''status'', GStr ''BROADCAST''), (''confirmations'', GUint 0), (''finalized_at'', GTime zero_time)]"
    using r by (simp add: handleGetTxStatus_def assms(3,15,16) mem_confirmation_store_def st1 writeJSON_def)
  let ?o = "spec_rounds fin c h (rd # rds) r"
  have fin: "cf_Status (snd ?o) = StatusFinalized"
    using included_finalizes [OF _ r(3) assms(11-14)] r(2) by simp
  moreover have "map ev_Type (fst ?o) = [''tx.confirmed'', ''tx.finalized'']"
    using spec_rounds_advances [of r fin c h "rd # rds"] fin r(2) by (auto simp: status_events_def)
  ultimately obtain r' where r': "conf_Get c h cs = Inr r'" "cf_Status r' = StatusFinalized"
    "map ev_Type (events_of c h evs) = [''tx.confirmed'', ''tx.finalized'']"
    using mem_rounds_refine [OF inv assms(5) r(1) assms(10), of fin] assms(17) by (auto simp: same_progress_def st1 simp del: spec_rounds.simps)
  have "handleGetTxStatus d q (st1\<lparr>rs_service := (rs_service st1)\<lparr>sv_confirms := cs\<rparr>\<rparr>) =
      Reply 200 [(''status'', GStr ''FINALIZED''), (''confirmations'', GUint (cf_Confirmations r')), (''finalized_at'', GTime (cf_FinalizedAt r'))]"
    using r'(1,2) by (simp add: handleGetTxStatus_def assms(3,15,16) mem_confirmation_store_def writeJSON_def)
  with before r'(3) show ?thesis by auto
qed

definition sample_included :: "u64 \<Rightarrow> round" where
  "sample_included tip = (sample_round tip)\<lparr>rd_job := \<lparr>jb_chainID = ''ethereum'', jb_txHash = predictHash [1, 2], jb_tip = tip\<rparr>,
     rd_answer := (\<lambda>_. Inr (Some sample_status))\<rparr>"

theorem posted_reaches_finality_witness:
  "\<exists>k t st1. snd (handleBroadcast sample_deps sample_input sample_post sample_rest) = st1 \<and>
    handleGetTxStatus sample_deps \<lparr>hr_param = (\<lambda>k. if k = ''chain'' then ''ethereum'' else predictHash [1, 2]), hr_body = None\<rparr>
      (st1\<lparr>rs_service := (rs_service st1)\<lparr>sv_confirms :=
        snd (mem_rounds 3 [sample_included 100, sample_included 102] (sv_confirms (rs_service st1)))\<rparr>\<rparr>) =
    Reply 200 [(''status'', GStr ''FINALIZED''), (''confirmations'', GUint k), (''finalized_at'', GTime t)]"
proof -
  let ?q = "\<lparr>hr_param = (\<lambda>k. if k = ''chain'' then ''ethereum'' else predictHash [1, 2]), hr_body = None\<rparr>"
  obtain st1 where st1: "handleBroadcast sample_deps sample_input sample_post sample_rest =
      (Reply 200 [(''tx_hash'', GStr (predictHash [1, 2])), (''nonce'', GUint 3)], st1)"
    using sample_reply by blast
  obtain evs cs where rounds: "mem_rounds 3 [sample_included 100, sample_included 102] (sv_confirms (rs_service st1)) = (evs, cs)"
    by (cases "mem_rounds 3 [sample_included 100, sample_included 102] (sv_confirms (rs_service st1))")
  have fresh: "bcast_GetByTxHash ''ethereum'' (predictHash (rq_SignedTx sample_request)) (sv_broadcasts (rs_service sample_rest)) =
      Inl (ErrNotFound (rq_ChainID sample_request) (predictHash (rq_SignedTx sample_request)))"
    using sample_fresh(1) [of "predictHash (rq_SignedTx sample_request)"] by (simp add: sample_request_def)
  have "\<exists>k t. handleGetTxStatus sample_deps ?q st1 =
      Reply 200 [(''status'', GStr ''BROADCAST''), (''confirmations'', GUint 0), (''finalized_at'', GTime zero_time)] \<and>
    handleGetTxStatus sample_deps ?q (st1\<lparr>rs_service := (rs_service st1)\<lparr>sv_confirms := cs\<rparr>\<rparr>) =
      Reply 200 [(''status'', GStr ''FINALIZED''), (''confirmations'', GUint k), (''finalized_at'', GTime t)] \<and>
    map ev_Type (events_of ''ethereum'' (predictHash [1, 2]) evs) = [''tx.confirmed'', ''tx.finalized'']"
    by (rule posted_reaches_finality [OF _ _ _ _ _ _ sample_parsed(1) fresh st1 _ _ _ _ _ _ _ rounds, where b = 100 and bh = "''0xbb''"])
      (simp_all add: sample_included_def sample_round_def rounds_ok_def own_def included_def sample_status_def sep_free_def
        sample_start_def NewConfirmationStore_def conf_inv_def wf_map_def)
  with st1 rounds show ?thesis by (auto simp del: process_rounds.simps)
qed

section \<open>A value that is no number\<close>

text \<open>
  C18. With the PostgreSQL store, a request whose \<open>value\<close> is not a decimal number is submitted to the
  node before it turns out that its row cannot be stored: the node has accepted the transaction, the
  client gets 500, and no row, no confirmation, no tracking and no event of it exists. A repetition
  finds no row either and is submitted again.
\<close>

theorem pg_bad_value_submitted:
  assumes "sc_broadcasts (dp_Broadcast d) = pg_broadcast_store ts fq NoFault" and "parsed post = Some req"
    and "rq_ChainID req \<noteq> []" and "rq_SignedTx req \<noteq> []" and "rq_From req = []" and "fits_bigint (rq_Nonce req)"
    and "rq_Value req \<noteq> []" and "big_SetString (rq_Value req) = None"
    and "registry_Get (rq_ChainID req) (sc_registry (dp_Broadcast d)) = Inr a"
    and "find (is_broadcast (rq_ChainID req) (predictHash (rq_SignedTx req))) (sv_broadcasts (rs_service st)) = None"
    and "submitWithRetry (sc_retryMax (dp_Broadcast d)) a (rq_SignedTx req) (sv_world (rs_service st)) = (Inr h, w)"
  shows "handleBroadcast d inp post st =
    (Reply 500 [(''error'', GErr (ErrRemote ''invalid input syntax for type numeric''))],
     st\<lparr>rs_service := (rs_service st)\<lparr>sv_world := w\<rparr>\<rparr>)"
proof -
  have "\<exists>e. pg_bcast_GetByTxHash fq (rq_ChainID req) (predictHash (rq_SignedTx req)) (sv_broadcasts (rs_service st)) = Inl e"
    using assms(10) by (simp add: pg_bcast_GetByTxHash_def query_def split: option.split)
  moreover have "prepay_step (dp_Broadcast d) a (bi_env inp) req (rs_service st) = (Some (Inr (rq_Nonce req)), rs_service st)"
    using assms(5) by (simp add: prepay_step_def split: option.split)
  moreover have "pg_bcast_Insert ts NoFault now u (broadcast_record now' req (rq_Nonce req) h) t =
      (Inl (ErrRemote ''invalid input syntax for type numeric''), t)" for now u now' t
    using assms(6-8) by (simp add: pg_bcast_Insert_def statement_def broadcast_record_def)
  ultimately have "Broadcast (dp_Broadcast d) inp (Some req) (rs_service st) =
      (Some (Inl (ErrRemote ''invalid input syntax for type numeric'')), (rs_service st)\<lparr>sv_world := w\<rparr>)"
    using assms(1,3,4,9,11) by (auto simp: Broadcast_def pg_broadcast_store_def Let_def)
  then show ?thesis
    by (simp add: handleBroadcast_parsed [OF assms(2)] writeBroadcastError_def writeError_def writeJSON_def is_ErrUnknownChain_def
        is_ErrBadRequest_def prepaymentErrSentinel_def)
qed

definition sample_pg_deps ::
  "(broadcast_row list, mem_confirmations, stub_adapter, mem_redis, wallet_mock, mem_outbox, bus_event list, mem_tips) deps" where
  "sample_pg_deps = \<lparr>dp_Registry = sc_registry sample_service,
     dp_Broadcast = NewService (Register (stub_ops sample_stub) NewRegistry) (pg_broadcast_store (\<lambda>x. x) None NoFault)
       (Some mem_confirmation_store) None True (Some sample_bus) True \<lparr>op_Timeout = 0, op_RetryMax = 0\<rparr>,
     dp_Estimators = [], dp_Confirms = mem_confirmation_store, dp_Tips = mem_tip_store, dp_WSHandler = True\<rparr>"

definition sample_pg_rest ::
  "(broadcast_row list, mem_confirmations, stub_adapter, mem_redis, wallet_mock, mem_outbox, bus_event list, mem_tips) rest_state" where
  "sample_pg_rest = \<lparr>rs_service = \<lparr>sv_broadcasts = [], sv_confirms = NewConfirmationStore, sv_world = sample_stub,
     sv_redis = NewMemRedis, sv_wallet = NewMock [] 7, sv_pool = NewWorkerPool 0 (stub_ops sample_stub),
     sv_watch = NewWatcher True 0, sv_bus = NewBus NewOutboxStore []\<rparr>, rs_tips = NewTipStore\<rparr>"

definition sample_bad_post :: http_request where
  "sample_bad_post = \<lparr>hr_param = sample_url, hr_body = Some (JObj [(''signed_tx'', JStr ''0x0102''), (''value'', JStr ''1.5'')])\<rparr>"

lemma sample_bad_parsed:
  "parsed sample_bad_post = Some \<lparr>rq_ChainID = ''ethereum'', rq_SignedTx = [1, 2], rq_From = [], rq_WalletID = [], rq_To = [],
     rq_Value = ''1.5'', rq_Nonce = 0, rq_SubmittedBy = []\<rparr>"
  by (simp add: parsed_def sample_bad_post_def decode_body_def unmarshal_struct_def broadcast_req_fields_def field_for_def
      broadcast_req_zero_def sample_payload sample_url_def)

lemma sample_pg_facts:
  "sc_broadcasts (dp_Broadcast sample_pg_deps) = pg_broadcast_store (\<lambda>x. x) None NoFault"
  "sc_retryMax (dp_Broadcast sample_pg_deps) = 3"
  "registry_Get ''ethereum'' (sc_registry (dp_Broadcast sample_pg_deps)) = Inr (stub_ops sample_stub)"
  "sv_broadcasts (rs_service sample_pg_rest) = []" "sv_world (rs_service sample_pg_rest) = sample_stub"
  using sample_service_simps(7)
  by (simp_all add: sample_pg_deps_def sample_pg_rest_def sample_service_def NewService_def)

lemma sample_submitted:
  "submitWithRetry 3 (stub_ops sample_stub) [1, 2] sample_stub = (Inr (predictHash [1, 2]), snd (stub_Broadcast [1, 2] sample_stub))"
proof -
  obtain w where w: "stub_Broadcast [1, 2] sample_stub = (Inr (predictHash [1, 2]), w)"
    using sample_stub_hash by (metis surj_pair)
  have "nat (3 + 1) = Suc 3" by simp
  then show ?thesis by (simp only: submitWithRetry_def submit_loop.simps sample_stub_simps w) simp
qed

theorem pg_bad_value_submitted_witness:
  "\<exists>st'. handleBroadcast sample_pg_deps sample_input sample_bad_post sample_pg_rest =
      (Reply 500 [(''error'', GErr (ErrRemote ''invalid input syntax for type numeric''))], st') \<and>
    LastBroadcast (sv_world (rs_service st')) = [1, 2] \<and> sv_broadcasts (rs_service st') = []"
proof -
  let ?w = "snd (stub_Broadcast [1, 2] sample_stub)"
  have "handleBroadcast sample_pg_deps sample_input sample_bad_post sample_pg_rest =
      (Reply 500 [(''error'', GErr (ErrRemote ''invalid input syntax for type numeric''))],
       sample_pg_rest\<lparr>rs_service := (rs_service sample_pg_rest)\<lparr>sv_world := ?w\<rparr>\<rparr>)"
  proof (rule pg_bad_value_submitted [OF _ sample_bad_parsed])
    show "big_SetString (rq_Value \<lparr>rq_ChainID = ''ethereum'', rq_SignedTx = [1, 2], rq_From = [], rq_WalletID = [], rq_To = [],
        rq_Value = ''1.5'', rq_Nonce = 0, rq_SubmittedBy = []\<rparr>) = None" by code_simp
    show "submitWithRetry (sc_retryMax (dp_Broadcast sample_pg_deps)) (stub_ops sample_stub)
        (rq_SignedTx \<lparr>rq_ChainID = ''ethereum'', rq_SignedTx = [1, 2], rq_From = [], rq_WalletID = [], rq_To = [],
          rq_Value = ''1.5'', rq_Nonce = 0, rq_SubmittedBy = []\<rparr>) (sv_world (rs_service sample_pg_rest)) = (Inr (predictHash [1, 2]), ?w)"
      using sample_submitted by (simp add: sample_pg_facts)
  qed (simp_all add: sample_pg_facts fits_bigint_def)
  then show ?thesis
    by (simp add: LastBroadcast_def sample_pg_rest_def stub_Broadcast_def sample_stub_def NewStubAdapter_def Let_def)
qed

section \<open>A chain without an adapter of its own\<close>

text \<open>
  The events of a follower on an adapter: the ticks bring the height the adapter reports after any
  submissions, and no head arrives, since nothing outside of tests sends one on a stub's channel.
\<close>

definition silent_events :: "'w world chain_adapter \<Rightarrow> follow_event list \<Rightarrow> bool" where
  "silent_events a es \<longleftrightarrow>
     (\<forall>e \<in> set es. case e of
        FHead _ _ _ _ \<Rightarrow> False
      | FTick _ _ _ ans \<Rightarrow> \<exists>n bs. ans = ad_Height a (run (\<lambda>w b. snd (ad_Broadcast a b w)) (n, []) bs)
      | _ \<Rightarrow> True)"

lemma silent_poll:
  "sa_height s0 = 0 \<Longrightarrow> silent_events (on_stub s0) es \<Longrightarrow> snd (runPoll f es st) = st"
  by (induction f es st rule: runPoll.induct) (auto simp: silent_events_def on_stub_height handleTick_def)

lemma silent_follower:
  assumes "sa_height s0 = 0" and "silent_events (on_stub s0) es"
  shows "snd (follower_Run f subscribed es st) = st"
proof -
  have "snd (follow_heads f es st) = st"
    using assms by (induction f es st rule: follow_heads.induct)
      (auto simp: silent_events_def on_stub_height handleTick_def intro!: silent_poll [OF assms(1)])
  then show ?thesis by (simp add: follower_Run_def silent_poll [OF assms])
qed

text \<open>
  C17. A server that starts in production uses a stub for every configured chain that is neither an EVM chain
  nor Solana nor Bitcoin. It accepts whatever is submitted and returns a hash, and no node ever hears of
  it: the nodes are exactly as they were, however many transactions were accepted. And the chain is never
  followed: whatever its follower is ticked for, the tips, the queues of the confirmation workers and
  everything else the follower works on stay as they are, so no worker gets a job for such a transaction.
\<close>

theorem unknown_chain_stubbed:
  assumes "env ''DEV_MODE'' \<noteq> ''1''" and "\<And>xs. set (order xs) = set xs"
    and "Build x D order connect df db env cfg = Some (Inr srv)" and "Load env = Inr cfgs" and "c \<in> set cfgs"
    and "\<not> isEVM (cc_ChainID c)" and "cc_ChainID c \<noteq> ''solana''" and "cc_ChainID c \<noteq> ''bitcoin''"
  shows "\<exists>a. registry_Get (cc_ChainID c) (sr_registry srv) = Inr a \<and>
    (\<forall>n bs b. \<exists>stubs. ad_Broadcast a b (run (\<lambda>w b. snd (ad_Broadcast a b w)) (n, []) bs) = (Inr (stubHash b), n, stubs)) \<and>
    (\<forall>subscribed es. silent_events a es \<longrightarrow> snd (follower_Run f subscribed es st) = st)"
proof -
  obtain finality where a: "registry_Get (cc_ChainID c) (sr_registry srv) = Inr (on_stub (plain_stub (cc_ChainID c) finality))"
    using unknown_chain_adapter [OF assms] by blast
  let ?a = "on_stub (plain_stub (cc_ChainID c) finality)"
  show ?thesis
  proof (intro exI [of _ ?a] conjI allI impI)
    show "registry_Get (cc_ChainID c) (sr_registry srv) = Inr ?a" by (fact a)
  qed (rule on_stub_silent silent_follower; simp)+
qed

theorem unknown_chain_stubbed_witness:
  "\<exists>srv a. sample_build ''dogecoin'' = Some (Inr srv) \<and> registry_Get ''dogecoin'' (sr_registry srv) = Inr a \<and>
    fst (ad_Broadcast a [1, 2] ((), [])) = Inr (stubHash [1, 2]) \<and>
    (\<forall>es. silent_events a es \<longrightarrow> snd (follower_Run sample_follower True es (sample_following StatusBroadcast)) = sample_following StatusBroadcast)"
proof -
  obtain srv where srv: "sample_build ''dogecoin'' = Some (Inr srv)" using sample_server_built by blast
  let ?c = "\<lparr>cc_ChainID = ''dogecoin'', cc_RPCURLs = [], cc_WSURLs = [], cc_FinalityBlocks = 0, cc_GasStrategy = ''eip1559_dynamic''\<rparr>"
  from unknown_chain_stubbed [OF sample_settings_simps(1) refl srv sample_settings_load, of ?c sample_follower "sample_following StatusBroadcast"]
  obtain a where a: "registry_Get ''dogecoin'' (sr_registry srv) = Inr a"
    "\<forall>n bs b. \<exists>stubs. ad_Broadcast a b (run (\<lambda>w b. snd (ad_Broadcast a b w)) (n, []) bs) = (Inr (stubHash b), n, stubs)"
    "\<forall>subscribed es. silent_events a es \<longrightarrow>
       snd (follower_Run sample_follower subscribed es (sample_following StatusBroadcast)) = sample_following StatusBroadcast"
    by (auto simp: isEVM_def)
  obtain stubs where "ad_Broadcast a [1, 2] (run (\<lambda>w b. snd (ad_Broadcast a b w)) ((), []) []) = (Inr (stubHash [1, 2]), (), stubs)"
    using a(2) by blast
  with srv a(1,3) show ?thesis by auto
qed

section \<open>Which chains the server serves\<close>

definition reply_code :: "reply \<Rightarrow> nat option" where
  "reply_code r = (case r of Reply code _ \<Rightarrow> Some code | _ \<Rightarrow> None)"

lemma one_of_distinct:
  "distinct (map g xs) \<Longrightarrow> c \<in> set (map g xs) \<Longrightarrow> length (filter (\<lambda>x. g x = c) xs) = 1"
  by (induction xs) (auto simp: filter_empty_conv image_iff)

lemma estimators_of_chains:
  "(map_of (foldl (\<lambda>m c. AList.update (cc_ChainID c) (f c) m) m cfgs) cid \<noteq> None) \<longleftrightarrow> map_of m cid \<noteq> None \<or> cid \<in> cc_ChainID ` set cfgs"
  by (induction cfgs arbitrary: m) auto

lemma production_parts:
  assumes "env ''DEV_MODE'' \<noteq> ''1''" and "Load env = Inr cfgs"
    and "Build x D order connect df db env cfg = Some (Inr srv)"
  shows "registry_Get c (sr_registry srv) = Inl (ErrUnknownChain c) \<longleftrightarrow> c \<notin> cc_ChainID ` set cfgs" (is ?reg)
    and "map_of (sr_estimators srv) c \<noteq> None \<longleftrightarrow> c \<in> cc_ChainID ` set cfgs" (is ?est)
proof -
  have reg: "build_registry x D cfgs False = Inr (sr_registry srv)"
    and est: "sr_estimators srv = foldl (\<lambda>m c. AList.update (cc_ChainID c)
             (NewEstimator (cc_ChainID c) (cc_GasStrategy c) (cc_FinalityBlocks c)) m) [] cfgs"
    using assms by (auto simp: Build_def build_chains_production split: sum.splits option.splits)
  have "fst ` set (sr_registry srv) = cc_ChainID ` set cfgs" using build_registry_production [OF assms(2) reg] by blast
  then have "map_of (sr_registry srv) c = None \<longleftrightarrow> c \<notin> cc_ChainID ` set cfgs" by (simp add: map_of_eq_None_iff)
  then show ?reg by (auto simp: registry_Get_def split: option.splits)
  show ?est unfolding est estimators_of_chains by simp
qed

text \<open>The handler of the heads endpoint: one hub per follower of the server.\<close>

definition heads_handler :: "(string \<Rightarrow> subscriber) \<Rightarrow> ('w, 'k) server \<Rightarrow> ws_handler" where
  "heads_handler hubs srv = NewHandler (map (\<lambda>f. (af_chain f, hubs (af_chain f))) (sr_followers srv))"

text \<open>
  C9. Which chains a server that starts in production knows: exactly those of its environment. For a chain that is not configured a
  submission is answered with 404 and changes nothing, and height, balance, transaction, fee and the stream of
  heads are answered with 404; the status of a transaction too, unless the confirmation store has a row for it, which is answered with 200 without
  asking for the chain. For a configured one height and balance are answered with 200, or 500 when the chain's
  adapter fails, the fee is not answered with 404, the stream of heads is not refused, the chain has an estimator of its
  own, and one follower watches it.
\<close>

theorem configured_chains_served:
  assumes "env ''DEV_MODE'' \<noteq> ''1''" and "Load env = Inr cfgs"
    and "Build x D order connect df db env cfg = Some (Inr srv)" and "d = build_deps srv broadcasts confirms tips redis wallet bus"
    and "c = hr_param r ''chain''" and "w = sv_world (rs_service st)"
  shows "(c \<notin> cc_ChainID ` set cfgs \<longrightarrow>
      reply_code (handleHeight d r st) = Some 404 \<and> reply_code (handleBalance d r st) = Some 404 \<and>
      reply_code (handleGetTx d r st) = Some 404 \<and> reply_code (handleEstimateFee d r st) = Some 404 \<and>
      reply_code (handleGetTxStatus d r st) =
        (case cs_Get confirms c (hr_param r ''hash'') (sv_confirms (rs_service st)) of Inl _ \<Rightarrow> Some 404 | Inr _ \<Rightarrow> Some 200) \<and>
      fst (ServeHTTP c upgraded es (heads_handler hubs srv)) = WsNotFound \<and>
      (\<forall>req. parsed r = Some req \<and> c \<noteq> [] \<and> rq_SignedTx req \<noteq> [] \<longrightarrow>
         handleBroadcast d inp r st = (Reply 404 [(''error'', GErr (ErrUnknownChain c))], st))) \<and>
    (c \<in> cc_ChainID ` set cfgs \<longrightarrow>
      (\<exists>a. registry_Get c (sr_registry srv) = Inr a \<and>
         reply_code (handleHeight d r st) = Some (if isl (ad_Height a w) then 500 else 200) \<and>
         reply_code (handleBalance d r st) = Some (if isl (ad_Balance a (hr_param r ''addr'') w) then 500 else 200)) \<and>
      reply_code (handleEstimateFee d r st) \<noteq> Some 404 \<and> map_of (dp_Estimators d) c \<noteq> None \<and>
      fst (ServeHTTP c upgraded es (heads_handler hubs srv)) \<noteq> WsNotFound \<and>
      length (filter (\<lambda>f. af_chain f = c) (sr_followers srv)) = 1)"
proof (intro conjI impI)
  have d: "dp_Registry d = sr_registry srv" "dp_Estimators d = sr_estimators srv" "sc_registry (dp_Broadcast d) = sr_registry srv"
    "dp_Confirms d = confirms"
    by (simp_all add: assms(4) build_deps_def NewService_def)
  note parts = production_parts [OF assms(1-3)]
  note W = reply_code_def writeError_def writeJSON_def
  have chains: "c \<in> set (map af_chain (sr_followers srv)) \<longleftrightarrow> c \<in> cc_ChainID ` set cfgs"
    using production_followers [OF assms(1-3)] by auto
  have ws: "map_of (wh_followers (heads_handler hubs srv)) c = None \<longleftrightarrow> c \<notin> set (map af_chain (sr_followers srv))"
    by (auto simp: heads_handler_def NewHandler_def map_of_eq_None_iff image_iff)
  {
    assume n: "c \<notin> cc_ChainID ` set cfgs"
    then have u: "registry_Get (hr_param r ''chain'') (sr_registry srv) = Inl (ErrUnknownChain c)"
      using parts(1) by (simp add: assms(5))
    then show "reply_code (handleHeight d r st) = Some 404" "reply_code (handleBalance d r st) = Some 404"
      "reply_code (handleGetTx d r st) = Some 404" "reply_code (handleEstimateFee d r st) = Some 404"
      by (simp_all add: handleHeight_def handleBalance_def handleGetTx_def handleEstimateFee_def d W Let_def)
    show "reply_code (handleGetTxStatus d r st) =
        (case cs_Get confirms c (hr_param r ''hash'') (sv_confirms (rs_service st)) of Inl _ \<Rightarrow> Some 404 | Inr _ \<Rightarrow> Some 200)"
      using u by (simp add: handleGetTxStatus_def d W assms(5) Let_def split: sum.split)
    show "fst (ServeHTTP c upgraded es (heads_handler hubs srv)) = WsNotFound"
      using n chains ws by (simp add: ServeHTTP_def)
    show "\<forall>req. parsed r = Some req \<and> c \<noteq> [] \<and> rq_SignedTx req \<noteq> [] \<longrightarrow>
         handleBroadcast d inp r st = (Reply 404 [(''error'', GErr (ErrUnknownChain c))], st)"
      using u by (auto simp: handleBroadcast_parsed Broadcast_def parsed_chain d writeBroadcastError_def is_ErrUnknownChain_def
          writeError_def writeJSON_def assms(5))
  next
    assume c: "c \<in> cc_ChainID ` set cfgs"
    then obtain a where a: "registry_Get c (sr_registry srv) = Inr a"
      using parts(1) [of c] by (auto simp: registry_Get_def split: option.splits)
    then show "\<exists>a. registry_Get c (sr_registry srv) = Inr a \<and>
         reply_code (handleHeight d r st) = Some (if isl (ad_Height a w) then 500 else 200) \<and>
         reply_code (handleBalance d r st) = Some (if isl (ad_Balance a (hr_param r ''addr'') w) then 500 else 200)"
      unfolding assms(5,6)
      by (intro exI [of _ a]) (auto simp: handleHeight_def handleBalance_def d W Let_def split: sum.split option.split prod.split)
    show "reply_code (handleEstimateFee d r st) \<noteq> Some 404"
      using a unfolding assms(5) by (auto simp: handleEstimateFee_def d W Let_def split: sum.split option.split prod.split)
    show "map_of (dp_Estimators d) c \<noteq> None" using parts(2) c by (simp add: d)
    show "fst (ServeHTTP c upgraded es (heads_handler hubs srv)) \<noteq> WsNotFound"
      using c chains ws by (auto simp: ServeHTTP_def Let_def split: option.splits sum.splits prod.splits)
    have "distinct (map af_chain (sr_followers srv))" using production_followers [OF assms(1-3)] by auto
    with c chains show "length (filter (\<lambda>f. af_chain f = c) (sr_followers srv)) = 1" by (intro one_of_distinct) auto
  }
qed

definition sample_served ::
  "(unit, unit) server \<Rightarrow> (broadcast_row list, mem_confirmations, unit world, mem_redis, wallet_mock, mem_outbox, bus_event list, mem_tips) deps" where
  "sample_served srv = build_deps srv (pg_broadcast_store (\<lambda>x. x) None NoFault) mem_confirmation_store mem_tip_store mem_redis_client
     (mock_client (\<lambda>_. [])) sample_bus"

theorem configured_chains_served_witness:
  "\<exists>srv. sample_build ''dogecoin'' = Some (Inr srv) \<and>
    (\<forall>st. reply_code (handleHeight (sample_served srv) \<lparr>hr_param = (\<lambda>_. ''litecoin''), hr_body = None\<rparr> st) = Some 404)"
proof -
  obtain srv where srv: "sample_build ''dogecoin'' = Some (Inr srv)" using sample_server_built by blast
  have "reply_code (handleHeight (sample_served srv) \<lparr>hr_param = (\<lambda>_. ''litecoin''), hr_body = None\<rparr> st) = Some 404" for st
    using configured_chains_served [OF sample_settings_simps(1) sample_settings_load srv sample_served_def refl refl,
        where r = "\<lparr>hr_param = (\<lambda>_. ''litecoin''), hr_body = None\<rparr>" and st = st] by simp
  with srv show ?thesis by blast
qed

end
